(* ===== verification/Prelude.thy ===== *)
theory Prelude
  imports Main "HOL-Library.Word" "HOL-Library.Sublist"
begin

text \<open>
  Vocabulary shared by every component: the machine integers of the source, its results
  and the question-mark operator, its text and the few operations of the Rust standard
  library on text and integers that the components use.

  \<^item> a \<open>Result<T, E>\<close> is a sum \<open>'e + 't\<close>, with \<open>Inl\<close> for \<open>Err\<close> and \<open>Inr\<close> for \<open>Ok\<close>;
    \<open>rbind\<close> is the question-mark operator followed by the rest of the function;
  \<^item> \<open>u8\<close> ... \<open>u64\<close> are words, \<open>usize\<close> is 64 bits wide;
  \<^item> a \<open>String\<close> is the list of its UTF-8 bytes, as a list of \<open>char\<close>, so that \<open>length\<close> is
    Rust's \<open>len()\<close>; raw byte buffers are lists of \<open>u8\<close>, and \<open>valid_utf8\<close> decides which of
    them \<open>String::from_utf8\<close> accepts.
\<close>

named_theorems model_simps \<open>unfolding rules of small operations\<close>
named_theorems wf_intros \<open>introduction rules of well-formedness predicates\<close>

type_synonym u8 = "8 word"
type_synonym u16 = "16 word"
type_synonym u32 = "32 word"
type_synonym u64 = "64 word"
type_synonym i64 = "64 word"

section \<open>Runs\<close>

text \<open>
  What one step does to a state, carried over to any number of them: a relation between a state and
  a later one that every step moves along, and, as a special case, an invariant every step keeps.
\<close>

locale directed =
  fixes step :: "'s \<Rightarrow> 's \<Rightarrow> bool" and towards :: "'s \<Rightarrow> 's \<Rightarrow> bool"
  assumes stays: "towards s s"
    and composes: "towards s t \<Longrightarrow> towards t u \<Longrightarrow> towards s u"
    and covers: "step s t \<Longrightarrow> towards s t"
begin

lemma runs: "step\<^sup>*\<^sup>* s t \<Longrightarrow> towards s t"
  by (induction rule: rtranclp_induct) (auto intro: stays composes covers)

end

locale preserved =
  fixes step :: "'s \<Rightarrow> 's \<Rightarrow> bool" and inv :: "'s \<Rightarrow> bool"
  assumes keeps: "step s t \<Longrightarrow> inv s \<Longrightarrow> inv t"

sublocale preserved < run: directed step "\<lambda>s t. inv s \<longrightarrow> inv t"
  by unfold_locales (auto dest: keeps)

section \<open>Results\<close>

fun rbind :: "'e + 'a \<Rightarrow> ('a \<Rightarrow> 'e + 'b) \<Rightarrow> 'e + 'b" where
  "rbind (Inl e) f = Inl e"
| "rbind (Inr x) f = f x"

lemma rbind_cong [fundef_cong]:
  "x = y \<Longrightarrow> (\<And>v. y = Inr v \<Longrightarrow> f v = g v) \<Longrightarrow> rbind x f = rbind y g"
  by (cases y) auto

lemma rbind_eq_Inr: "rbind x f = Inr v \<longleftrightarrow> (\<exists>a. x = Inr a \<and> f a = Inr v)"
  by (cases x) auto

lemma rbind_eq_Inl: "rbind x f = Inl e \<longleftrightarrow> x = Inl e \<or> (\<exists>a. x = Inr a \<and> f a = Inl e)"
  by (cases x) auto

lemma rbind_InrE:
  assumes "rbind x f = Inr v"
  obtains a where "x = Inr a" and "f a = Inr v"
  using assms by (auto simp: rbind_eq_Inr)

lemma rbind_assoc: "rbind (rbind x f) g = rbind x (\<lambda>v. rbind (f v) g)"
  by (cases x) auto

text \<open>\<open>Option::ok_or\<close> and \<open>Result::map_err\<close>.\<close>

definition ok_or :: "'a option \<Rightarrow> 'e \<Rightarrow> 'e + 'a" where
  "ok_or x e = (case x of None \<Rightarrow> Inl e | Some v \<Rightarrow> Inr v)"

definition map_err :: "('e \<Rightarrow> 'f) \<Rightarrow> 'e + 'a \<Rightarrow> 'f + 'a" where
  "map_err f x = (case x of Inl e \<Rightarrow> Inl (f e) | Inr v \<Rightarrow> Inr v)"

lemma ok_or_simps [simp]: "ok_or None e = Inl e" "ok_or (Some v) e = Inr v"
  by (simp_all add: ok_or_def)

lemma map_err_simps [simp]: "map_err f (Inl e) = Inl (f e)" "map_err f (Inr v) = Inr v"
  by (simp_all add: map_err_def)

lemma map_err_eq_Inr [simp]: "map_err f x = Inr v \<longleftrightarrow> x = Inr v"
  by (cases x) auto

section \<open>Machine integers\<close>

definition u64_max :: nat where
  "u64_max = 18446744073709551615"

definition checked_add :: "u64 \<Rightarrow> u64 \<Rightarrow> u64 option" where
  "checked_add a b = (if unat a + unat b \<le> u64_max then Some (a + b) else None)"

definition checked_sub :: "u64 \<Rightarrow> u64 \<Rightarrow> u64 option" where
  "checked_sub a b = (if b \<le> a then Some (a - b) else None)"

definition saturating_add :: "u64 \<Rightarrow> u64 \<Rightarrow> u64" where
  "saturating_add a b = (if unat a + unat b \<le> u64_max then a + b else 18446744073709551615)"

definition saturating_sub :: "u64 \<Rightarrow> u64 \<Rightarrow> u64" where
  "saturating_sub a b = (if b \<le> a then a - b else 0)"

lemma unat_less_pow: "unat (w :: 'a::len word) < 2 ^ LENGTH('a)"
  by (rule unsigned_less)

lemma unat_u64_le_max: "unat (a :: u64) \<le> u64_max"
  using unat_less_pow [of a] by (simp add: u64_max_def)

lemma checked_add_Some_iff:
  "checked_add a b = Some c \<longleftrightarrow> unat a + unat b \<le> u64_max \<and> c = a + b"
  by (auto simp: checked_add_def)

lemma unat_add_no_overflow:
  "unat (a :: u64) + unat b \<le> u64_max \<Longrightarrow> unat (a + b) = unat a + unat b"
  by (simp add: u64_max_def unat_word_ariths)

lemma checked_sub_Some:
  "checked_sub a b = Some c \<Longrightarrow> unat a = unat c + unat b"
  by (auto simp: checked_sub_def unat_sub word_le_nat_alt split: if_splits)

lemma unat_saturating_add: "unat (saturating_add a b) = min u64_max (unat a + unat b)"
proof (cases "unat a + unat b \<le> u64_max")
  case True
  then show ?thesis by (simp add: saturating_add_def unat_add_no_overflow)
next
  case False
  have "unat (18446744073709551615 :: u64) = u64_max" by (simp add: u64_max_def)
  with False show ?thesis by (simp add: saturating_add_def u64_max_def)
qed

lemma unat_saturating_sub: "unat (saturating_sub a b) = unat a - unat b"
  by (auto simp: saturating_sub_def unat_sub word_le_nat_alt)

section \<open>Text\<close>

definition text_of :: "u8 list \<Rightarrow> string" where
  "text_of bs = map (\<lambda>b. char_of (unat b)) bs"

definition bytes_of :: "string \<Rightarrow> u8 list" where
  "bytes_of s = map (\<lambda>c. of_nat (of_char c)) s"

lemma length_text_of [simp]: "length (text_of bs) = length bs"
  by (simp add: text_of_def)

lemma length_bytes_of [simp]: "length (bytes_of s) = length s"
  by (simp add: bytes_of_def)

lemma text_of_bytes_of [simp]: "text_of (bytes_of s) = s"
proof -
  have "char_of (unat (of_nat (of_char c) :: u8)) = c" for c :: char
  proof -
    have "(of_char c :: nat) < 256" using nat_of_char_less_256 [of c] by simp
    then show ?thesis by (simp add: unat_of_nat)
  qed
  then show ?thesis by (simp add: text_of_def bytes_of_def comp_def)
qed

lemma bytes_of_text_of [simp]: "bytes_of (text_of bs) = bs"
proof -
  have "of_nat (of_char (char_of (unat b) :: char)) = b" for b :: u8
  proof -
    have "unat b < 256" using unat_less_pow [of b] by simp
    then have "of_char (char_of (unat b) :: char) = unat b" by simp
    then show ?thesis by simp
  qed
  then show ?thesis by (simp add: text_of_def bytes_of_def comp_def)
qed

text \<open>Decimal rendering of unsigned integers, as \<open>to_string\<close> does it.\<close>

fun show_nat :: "nat \<Rightarrow> string" where
  "show_nat n =
     (if n < 10 then [char_of (48 + n)] else show_nat (n div 10) @ [char_of (48 + n mod 10)])"

declare show_nat.simps [simp del]

definition show_u64 :: "u64 \<Rightarrow> string" where
  "show_u64 w = show_nat (unat w)"

definition show_int :: "int \<Rightarrow> string" where
  "show_int i = (if i < 0 then CHR ''-'' # show_nat (nat (- i)) else show_nat (nat i))"

lemma show_nat_nonempty: "show_nat n \<noteq> []"
  by (subst show_nat.simps) simp

text \<open>The value a decimal string denotes; \<open>show_nat\<close> is injective because it has this left inverse.\<close>

definition digit_value :: "char \<Rightarrow> nat" where
  "digit_value c = of_char c - 48"

definition read_nat :: "string \<Rightarrow> nat" where
  "read_nat s = foldl (\<lambda>acc c. 10 * acc + digit_value c) 0 s"

lemma digit_value_char_of: "n < 10 \<Longrightarrow> digit_value (char_of (48 + n)) = n"
  by (simp add: digit_value_def)

lemma read_show_nat: "read_nat (show_nat n) = n"
proof (induction n rule: show_nat.induct)
  case (1 n)
  show ?case
  proof (cases "n < 10")
    case True
    then show ?thesis
      by (simp add: show_nat.simps [of n] read_nat_def digit_value_char_of)
  next
    case False
    with 1 have "read_nat (show_nat (n div 10)) = n div 10" by simp
    with False show ?thesis
      by (simp add: show_nat.simps [of n] read_nat_def digit_value_char_of)
  qed
qed

lemma show_nat_inject [simp]: "show_nat m = show_nat n \<longleftrightarrow> m = n"
  by (metis read_show_nat)

section \<open>UTF-8\<close>

text \<open>
  The well-formed byte sequences of the Unicode standard, which is what
  \<open>std::str::from_utf8\<close> accepts: no overlong forms, no surrogates, nothing above U+10FFFF.
\<close>

definition cont_byte :: "u8 \<Rightarrow> bool" where
  "cont_byte b \<longleftrightarrow> 128 \<le> b \<and> b \<le> 191"

fun valid_utf8 :: "u8 list \<Rightarrow> bool" where
  "valid_utf8 [] = True"
| "valid_utf8 (b # bs) =
     (if b \<le> 127 then valid_utf8 bs
      else if 194 \<le> b \<and> b \<le> 223 then
        (case bs of c # r \<Rightarrow> cont_byte c \<and> valid_utf8 r | _ \<Rightarrow> False)
      else if 224 \<le> b \<and> b \<le> 239 then
        (case bs of c # d # r \<Rightarrow>
            (if b = 224 then 160 \<le> c \<and> c \<le> 191
             else if b = 237 then 128 \<le> c \<and> c \<le> 159 else cont_byte c)
            \<and> cont_byte d \<and> valid_utf8 r
         | _ \<Rightarrow> False)
      else if 240 \<le> b \<and> b \<le> 244 then
        (case bs of c # d # e # r \<Rightarrow>
            (if b = 240 then 144 \<le> c \<and> c \<le> 191
             else if b = 244 then 128 \<le> c \<and> c \<le> 143 else cont_byte c)
            \<and> cont_byte d \<and> cont_byte e \<and> valid_utf8 r
         | _ \<Rightarrow> False)
      else False)"

lemma valid_utf8_ascii: "list_all (\<lambda>b. b \<le> 127) bs \<Longrightarrow> valid_utf8 bs"
  by (induction bs) auto

section \<open>Operations on text\<close>

text \<open>
  The encodings of the Unicode \<open>White_Space\<close> characters, which \<open>str::trim\<close> removes.
\<close>

definition bytes_str :: "nat list \<Rightarrow> string" where
  "bytes_str ns = map char_of ns"

definition white_space :: "string list" where
  "white_space = map bytes_str
     ([[9], [10], [11], [12], [13], [32], [194, 133], [194, 160], [225, 154, 128]]
      @ map (\<lambda>n. [226, 128, n]) [128, 129, 130, 131, 132, 133, 134, 135, 136, 137, 138, 168, 169, 175]
      @ [[226, 129, 159], [227, 128, 128]])"

fun strip_any :: "nat \<Rightarrow> string list \<Rightarrow> string \<Rightarrow> string" where
  "strip_any 0 ws s = s"
| "strip_any (Suc n) ws s =
     (case find (\<lambda>w. prefix w s) ws of None \<Rightarrow> s | Some w \<Rightarrow> strip_any n ws (drop (length w) s))"

definition trim_start :: "string \<Rightarrow> string" where
  "trim_start s = strip_any (length s) white_space s"

definition trim_end :: "string \<Rightarrow> string" where
  "trim_end s = rev (strip_any (length s) (map rev white_space) (rev s))"

definition trim :: "string \<Rightarrow> string" where
  "trim s = trim_end (trim_start s)"

text \<open>
  Every white-space encoding is at least one byte, so \<open>length s\<close> rounds are enough: the
  fuel of \<open>strip_any\<close> never stops it early.
\<close>

lemma strip_any_fuel:
  assumes "[] \<notin> set ws" and "length s \<le> n"
  shows "find (\<lambda>w. prefix w (strip_any n ws s)) ws = None"
  using assms(2)
proof (induction n arbitrary: s)
  case 0
  then have "s = []" by simp
  with assms(1) show ?case by (auto simp: find_None_iff)
next
  case (Suc n)
  show ?case
  proof (cases "find (\<lambda>w. prefix w s) ws")
    case None
    then show ?thesis by simp
  next
    case (Some w)
    then have "w \<in> set ws" by (auto simp: find_Some_iff in_set_conv_nth)
    with assms(1) have "w \<noteq> []" by auto
    with Suc.prems have "length (drop (length w) s) \<le> n" by (cases w) auto
    with Suc.IH Some show ?thesis by simp
  qed
qed

text \<open>A text that begins and ends with a printing character is already trimmed.\<close>

definition printing :: "char \<Rightarrow> bool" where
  "printing c \<longleftrightarrow> 33 \<le> (of_char c :: nat) \<and> (of_char c :: nat) < 127"

lemma white_space_not_printing:
  "\<forall>w\<in>set white_space. w \<noteq> [] \<and> \<not> printing (hd w) \<and> \<not> printing (last w)"
  by (simp add: white_space_def bytes_str_def printing_def)

lemma strip_any_printing:
  assumes "\<forall>w\<in>set ws. w \<noteq> [] \<and> \<not> printing (hd w)" and "printing (hd s)"
  shows "strip_any n ws s = s"
proof -
  have "\<not> prefix w s" if "w \<in> set ws" for w
    using assms that by (cases w; cases s) auto
  then have "find (\<lambda>w. prefix w s) ws = None" by (simp add: find_None_iff)
  then show ?thesis by (cases n) simp_all
qed

lemma trim_printing: "printing (hd s) \<Longrightarrow> printing (last s) \<Longrightarrow> trim s = s"
  using white_space_not_printing
  by (simp add: trim_def trim_start_def trim_end_def strip_any_printing hd_rev)

definition strip_prefix :: "string \<Rightarrow> string \<Rightarrow> string option" where
  "strip_prefix p s = (if prefix p s then Some (drop (length p) s) else None)"

definition strip_suffix :: "string \<Rightarrow> string \<Rightarrow> string option" where
  "strip_suffix p s = (if suffix p s then Some (take (length s - length p) s) else None)"

definition str_contains :: "string \<Rightarrow> string \<Rightarrow> bool" where
  "str_contains s p = sublist p s"

section \<open>Lists\<close>

lemma strict_prefix_append_cases:
  assumes "strict_prefix q (a @ b)"
  shows "strict_prefix q a \<or> (\<exists>q'. q = a @ q' \<and> strict_prefix q' b)"
  using assms by (fastforce simp: strict_prefix_def prefix_append)

lemma strict_prefix_take: "m < length p \<Longrightarrow> strict_prefix (take m p) p"
proof -
  assume m: "m < length p"
  then have "take m p \<noteq> p" by (metis length_take min_less_iff_conj nat_neq_iff)
  then show ?thesis by (simp add: strict_prefix_def take_is_prefix)
qed

section \<open>Hexadecimal\<close>

text \<open>\<open>format!("{byte:02x}")\<close> for each byte of a buffer, as every generated identifier uses it.\<close>

definition hex_digit :: "nat \<Rightarrow> char" where
  "hex_digit n = ''0123456789abcdef'' ! n"

definition hex_byte :: "u8 \<Rightarrow> string" where
  "hex_byte b = [hex_digit (unat b div 16), hex_digit (unat b mod 16)]"

definition hex_encode :: "u8 list \<Rightarrow> string" where
  "hex_encode bs = concat (map hex_byte bs)"

lemma hex_digit_inject: "m < 16 \<Longrightarrow> n < 16 \<Longrightarrow> hex_digit m = hex_digit n \<longleftrightarrow> m = n"
  unfolding hex_digit_def by (rule nth_eq_iff_index_eq) simp_all

lemma hex_byte_inject: "hex_byte a = hex_byte b \<longleftrightarrow> a = b"
proof
  assume eq: "hex_byte a = hex_byte b"
  have small: "unat a < 256" "unat b < 256"
    using unat_less_pow [of a] unat_less_pow [of b] by simp_all
  then have "unat a div 16 < 16" "unat b div 16 < 16" by simp_all
  with eq have "unat a div 16 = unat b div 16 \<and> unat a mod 16 = unat b mod 16"
    by (simp add: hex_byte_def hex_digit_inject)
  then have "unat a = unat b" by (metis div_mult_mod_eq)
  from arg_cong [OF this, of "of_nat :: nat \<Rightarrow> u8"] show "a = b" by simp
qed simp

lemma length_hex_byte [simp]: "length (hex_byte b) = 2"
  by (simp add: hex_byte_def)

lemma length_hex_encode [simp]: "length (hex_encode bs) = 2 * length bs"
  by (induction bs) (auto simp: hex_encode_def)

lemma hex_encode_inject: "hex_encode as = hex_encode bs \<longleftrightarrow> as = bs"
proof (induction as arbitrary: bs)
  case Nil
  then show ?case by (cases bs) (auto simp: hex_encode_def hex_byte_def)
next
  case (Cons a as)
  show ?case
  proof (cases bs)
    case Nil
    then show ?thesis by (simp add: hex_encode_def hex_byte_def)
  next
    case (Cons b bs')
    have "hex_encode (a # as) = hex_encode (b # bs') \<longleftrightarrow>
        hex_byte a = hex_byte b \<and> hex_encode as = hex_encode bs'"
      unfolding hex_encode_def by (simp add: append_eq_append_conv)
    with Cons.IH [of bs'] Cons show ?thesis by (simp add: hex_byte_inject)
  qed
qed

text \<open>
  An identifier drawn from the system's randomness: the buffer \<open>getrandom::fill\<close> produced, or
  its error.
\<close>

definition generate_hex :: "string + u8 list \<Rightarrow> string + string" where
  "generate_hex drawn = (case drawn of
     Inl err \<Rightarrow> Inl (''system randomness unavailable: '' @ err)
   | Inr bs \<Rightarrow> Inr (hex_encode bs))"

end
