(* ===== verification/BTree.thy ===== *)
theory BTree
  imports Prelude "HOL-Library.List_Lexorder" "HOL-Library.Char_ord"
begin

text \<open>
  \<open>std::collections::BTreeMap\<close> and \<open>HashMap\<close> as the components use them. A \<open>BTreeMap\<close> is an
  association list with strictly increasing keys, so that iterating it visits the keys in
  order, as the code relies on; text is ordered by its bytes. A \<open>HashMap\<close> is an association
  list with distinct keys whose order carries no meaning.

  The components rely on the map laws only, which the locale \<open>key_map\<close> states once; both
  representations interpret it.
\<close>

section \<open>The map interface\<close>

locale key_map =
  fixes empty :: "'m"
    and insert_key :: "'k \<Rightarrow> 'v \<Rightarrow> 'm \<Rightarrow> 'm"
    and remove_key :: "'k \<Rightarrow> 'm \<Rightarrow> 'm"
    and get :: "'m \<Rightarrow> 'k \<Rightarrow> 'v option"
    and keys :: "'m \<Rightarrow> 'k list"
    and inv :: "'m \<Rightarrow> bool"
  assumes get_empty: "get empty k = None"
    and get_insert: "inv m \<Longrightarrow> get (insert_key k v m) = (get m)(k \<mapsto> v)"
    and get_remove: "inv m \<Longrightarrow> get (remove_key k m) = (get m)(k := None)"
    and keys_dom: "inv m \<Longrightarrow> set (keys m) = dom (get m)"
    and keys_distinct: "inv m \<Longrightarrow> distinct (keys m)"
    and inv_empty: "inv empty"
    and inv_insert: "inv m \<Longrightarrow> inv (insert_key k v m)"
    and inv_remove: "inv m \<Longrightarrow> inv (remove_key k m)"
begin

lemma get_insert_same: "inv m \<Longrightarrow> get (insert_key k v m) k = Some v"
  by (simp add: get_insert)

lemma get_insert_other: "inv m \<Longrightarrow> k' \<noteq> k \<Longrightarrow> get (insert_key k v m) k' = get m k'"
  by (simp add: get_insert)

lemma length_keys: "inv m \<Longrightarrow> length (keys m) = card (dom (get m))"
  by (metis distinct_card keys_distinct keys_dom)

lemma length_keys_insert: "inv m \<Longrightarrow> length (keys (insert_key k v m)) \<le> Suc (length (keys m))"
proof -
  assume m: "inv m"
  then have "dom (get (insert_key k v m)) = insert k (dom (get m))"
    by (simp add: get_insert)
  moreover have "finite (dom (get m))" using keys_dom [OF m] by (metis finite_set)
  ultimately have "card (dom (get (insert_key k v m))) \<le> Suc (card (dom (get m)))"
    by (simp add: card_insert_if)
  with m show ?thesis by (simp add: length_keys inv_insert)
qed

lemma length_keys_insert_fresh:
  "inv m \<Longrightarrow> get m k = None \<Longrightarrow> length (keys (insert_key k v m)) = Suc (length (keys m))"
proof -
  assume m: "inv m" and fresh: "get m k = None"
  then have "dom (get (insert_key k v m)) = insert k (dom (get m))"
    by (simp add: get_insert)
  moreover have "finite (dom (get m))" using keys_dom [OF m] by (metis finite_set)
  moreover have "k \<notin> dom (get m)" using fresh by auto
  ultimately have "card (dom (get (insert_key k v m))) = Suc (card (dom (get m)))"
    by simp
  with m show ?thesis by (simp add: length_keys inv_insert)
qed

lemma length_keys_remove_present:
  "inv m \<Longrightarrow> get m k = Some v \<Longrightarrow> Suc (length (keys (remove_key k m))) = length (keys m)"
proof -
  assume m: "inv m" and there: "get m k = Some v"
  then have "dom (get (remove_key k m)) = dom (get m) - {k}"
    by (auto simp: get_remove split: if_splits)
  moreover have "finite (dom (get m))" using keys_dom [OF m] by (metis finite_set)
  moreover have "k \<in> dom (get m)" using there by auto
  ultimately have "Suc (card (dom (get (remove_key k m)))) = card (dom (get m))"
    by (metis card_Suc_Diff1)
  with m show ?thesis by (simp add: length_keys inv_remove)
qed

end

section \<open>Ordered maps: \<open>BTreeMap\<close>\<close>

fun bt_insert :: "'k::linorder \<Rightarrow> 'v \<Rightarrow> ('k \<times> 'v) list \<Rightarrow> ('k \<times> 'v) list" where
  "bt_insert k v [] = [(k, v)]"
| "bt_insert k v ((k', v') # m) =
     (if k < k' then (k, v) # (k', v') # m
      else if k = k' then (k, v) # m
      else (k', v') # bt_insert k v m)"

definition bt_remove :: "'k \<Rightarrow> ('k \<times> 'v) list \<Rightarrow> ('k \<times> 'v) list" where
  "bt_remove k m = filter (\<lambda>e. fst e \<noteq> k) m"

definition bt_keys :: "('k \<times> 'v) list \<Rightarrow> 'k list" where
  "bt_keys m = map fst m"

definition bt_inv :: "('k::linorder \<times> 'v) list \<Rightarrow> bool" where
  "bt_inv m \<longleftrightarrow> sorted_wrt (<) (map fst m)"

lemma fst_set_bt_insert: "fst ` set (bt_insert k v m) = insert k (fst ` set m)"
  by (induction k v m rule: bt_insert.induct) auto

lemma bt_inv_Cons: "bt_inv ((k, v) # m) \<longleftrightarrow> (\<forall>k' \<in> fst ` set m. k < k') \<and> bt_inv m"
  by (simp add: bt_inv_def)

lemma bt_inv_insert: "bt_inv m \<Longrightarrow> bt_inv (bt_insert k v m)"
  by (induction k v m rule: bt_insert.induct)
     (fastforce simp: bt_inv_Cons fst_set_bt_insert bt_inv_def)+

lemma map_of_bt_insert: "bt_inv m \<Longrightarrow> map_of (bt_insert k v m) = (map_of m)(k \<mapsto> v)"
proof (induction k v m rule: bt_insert.induct)
  case (1 k v)
  then show ?case by simp
next
  case (2 k v k' v' m)
  then show ?case by (auto simp: bt_inv_Cons fun_eq_iff)
qed

lemma bt_inv_distinct: "bt_inv m \<Longrightarrow> distinct (map fst m)"
  by (simp add: bt_inv_def strict_sorted_iff)

lemma map_of_filter_key: "map_of (filter (\<lambda>e. fst e \<noteq> k) m) = (map_of m)(k := None)"
  by (induction m) auto

lemma sorted_wrt_map_filter:
  "sorted_wrt r (map f m) \<Longrightarrow> sorted_wrt r (map f (filter p m))"
  by (induction m) auto

interpretation bt: key_map "[]" bt_insert bt_remove map_of bt_keys bt_inv
proof (unfold_locales, goal_cases)
  case (4 m)
  then show ?case by (auto simp: bt_keys_def dom_map_of_conv_image_fst)
next
  case (8 m k)
  then show ?case by (simp add: bt_inv_def bt_remove_def sorted_wrt_map_filter)
qed (simp_all add: map_of_bt_insert bt_remove_def map_of_filter_key bt_keys_def bt_inv_distinct
       bt_inv_insert, simp add: bt_inv_def)

section \<open>Unordered maps: \<open>HashMap\<close>\<close>

definition hm_remove :: "'k \<Rightarrow> ('k \<times> 'v) list \<Rightarrow> ('k \<times> 'v) list" where
  "hm_remove k m = filter (\<lambda>e. fst e \<noteq> k) m"

definition hm_insert :: "'k \<Rightarrow> 'v \<Rightarrow> ('k \<times> 'v) list \<Rightarrow> ('k \<times> 'v) list" where
  "hm_insert k v m = (k, v) # hm_remove k m"

definition hm_inv :: "('k \<times> 'v) list \<Rightarrow> bool" where
  "hm_inv m \<longleftrightarrow> distinct (map fst m)"

lemma distinct_map_filter_fst: "distinct (map fst m) \<Longrightarrow> distinct (map fst (filter p m))"
  by (induction m) auto

interpretation hm: key_map "[]" hm_insert hm_remove map_of bt_keys hm_inv
proof (unfold_locales, goal_cases)
  case (4 m)
  then show ?case by (auto simp: bt_keys_def dom_map_of_conv_image_fst)
qed (auto simp: hm_insert_def hm_remove_def map_of_filter_key bt_keys_def hm_inv_def
       distinct_map_filter_fst)

text \<open>\<open>HashMap::retain\<close>.\<close>

definition hm_retain :: "('v \<Rightarrow> bool) \<Rightarrow> ('k \<times> 'v) list \<Rightarrow> ('k \<times> 'v) list" where
  "hm_retain p m = filter (\<lambda>e. p (snd e)) m"

lemma hm_inv_retain: "hm_inv m \<Longrightarrow> hm_inv (hm_retain p m)"
  by (simp add: hm_inv_def hm_retain_def distinct_map_filter_fst)

lemma map_of_retain:
  assumes "hm_inv m"
  shows "map_of (hm_retain p m) k =
    (case map_of m k of None \<Rightarrow> None | Some v \<Rightarrow> if p v then Some v else None)"
  using assms
proof (induction m)
  case Nil
  then show ?case by (simp add: hm_retain_def)
next
  case (Cons e m)
  then have fresh: "fst e \<notin> fst ` set m" and m: "hm_inv m" by (auto simp: hm_inv_def)
  have none: "map_of m (fst e) = None" using fresh by (simp add: map_of_eq_None_iff)
  from Cons.IH [OF m] none show ?case by (cases e) (auto simp: hm_retain_def)
qed

end
