(* ===== verification/Gguf.thy ===== *)
theory Gguf
  imports BTree
begin

text \<open>
  The GGUF header and metadata parser of \<open>mehoy-registry/src/gguf.rs\<close>.

  A source of bytes (\<open>R: Read\<close>) is the list of the bytes it will still deliver and what
  happens at their end: end of file (\<open>None\<close>) or an I/O error (\<open>Some\<close>). The budgeted reader
  adds the number of bytes it may still consume. Floating point values are kept as their bits,
  which is what \<open>from_bits\<close> receives. \<open>usize\<close> is 64 bits wide, so the two conversions of a
  length to \<open>usize\<close> cannot fail; \<open>read_value\<close>, \<open>read_array\<close> and the loop over the elements
  are mutually recursive as in the code, and terminate because every nested array raises the
  depth, which \<open>read_array\<close> bounds by \<open>MAX_ARRAY_DEPTH\<close>.
\<close>

section \<open>Limits\<close>

definition MAGIC :: "u8 list" where
  "MAGIC = [71, 71, 85, 70]"

definition SUPPORTED_VERSIONS :: "u32 list" where
  "SUPPORTED_VERSIONS = [2, 3]"

definition MAX_METADATA_ENTRIES :: u64 where
  "MAX_METADATA_ENTRIES = 1048576"

definition MAX_TENSOR_COUNT :: u64 where
  "MAX_TENSOR_COUNT = 16777216"

definition MAX_STRING_BYTES :: u64 where
  "MAX_STRING_BYTES = 16777216"

definition MAX_ARRAY_LEN :: u64 where
  "MAX_ARRAY_LEN = 16777216"

definition MAX_HEADER_BYTES :: u64 where
  "MAX_HEADER_BYTES = 67108864"

definition MAX_RETAINED_ARRAY_LEN :: nat where
  "MAX_RETAINED_ARRAY_LEN = 64"

definition MAX_ARRAY_DEPTH :: nat where
  "MAX_ARRAY_DEPTH = 4"

section \<open>Data\<close>

datatype metadata_value =
  U8 u8 | I8 u8 | U16 u16 | I16 u16 | U32 u32 | I32 u32 | U64 u64 | I64 u64
| F32 u32 | F64 u64 | MBool bool | MString string
| MArray "metadata_value list"
| LargeArray u32 u64

datatype gguf_error =
  NotGguf "u8 list"
| UnsupportedVersion u32
| Implausible string u64 u64
| Truncated string
| Overflow string
| UnknownValueType u32
| InvalidText string
| GgufIo string

record gguf_header =
  version :: u32
  tensor_count :: u64
  metadata_count :: u64
  metadata :: "(string \<times> metadata_value) list"

fun as_str :: "metadata_value \<Rightarrow> string option" where
  "as_str (MString v) = Some v"
| "as_str _ = None"

text \<open>\<open>u64::try_from\<close> of a signed integer succeeds on the non-negative ones.\<close>

definition try_from_signed :: "'a::len word \<Rightarrow> u64 option" where
  "try_from_signed v = (if 0 \<le> sint v then Some (word_of_int (sint v)) else None)"

fun as_u64 :: "metadata_value \<Rightarrow> u64 option" where
  "as_u64 (U8 v) = Some (ucast v)"
| "as_u64 (U16 v) = Some (ucast v)"
| "as_u64 (U32 v) = Some (ucast v)"
| "as_u64 (U64 v) = Some v"
| "as_u64 (I8 v) = try_from_signed v"
| "as_u64 (I16 v) = try_from_signed v"
| "as_u64 (I32 v) = try_from_signed v"
| "as_u64 (I64 v) = try_from_signed v"
| "as_u64 _ = None"

definition header_get :: "gguf_header \<Rightarrow> string \<Rightarrow> metadata_value option" where
  "header_get h key = map_of (metadata h) key"

definition header_text :: "gguf_header \<Rightarrow> string \<Rightarrow> string option" where
  "header_text h key = Option.bind (header_get h key) as_str"

definition header_number :: "gguf_header \<Rightarrow> string \<Rightarrow> u64 option" where
  "header_number h key = Option.bind (header_get h key) as_u64"

definition architecture :: "gguf_header \<Rightarrow> string option" where
  "architecture h = header_text h ''general.architecture''"

definition architecture_number :: "gguf_header \<Rightarrow> string \<Rightarrow> u64 option" where
  "architecture_number h suff =
     Option.bind (architecture h) (\<lambda>arch. header_number h (arch @ ''.'' @ suff))"

section \<open>The budgeted reader\<close>

record reader =
  src :: "u8 list"
  src_end :: "string option"
  remaining :: u64

definition budgeted_new :: "u8 list \<Rightarrow> string option \<Rightarrow> u64 \<Rightarrow> reader" where
  "budgeted_new bs en budget = \<lparr>src = bs, src_end = en, remaining = budget\<rparr>"

definition take_budget :: "u64 \<Rightarrow> string \<Rightarrow> reader \<Rightarrow> gguf_error + reader" where
  "take_budget amount what r =
     (case checked_sub (remaining r) amount of
        None \<Rightarrow> Inl (Implausible what amount (remaining r))
      | Some left \<Rightarrow> Inr (r\<lparr>remaining := left\<rparr>))"

definition read_exact_or_truncated ::
    "nat \<Rightarrow> string \<Rightarrow> reader \<Rightarrow> gguf_error + u8 list \<times> reader" where
  "read_exact_or_truncated n what r =
     (if n \<le> length (src r) then Inr (take n (src r), r\<lparr>src := drop n (src r)\<rparr>)
      else case src_end r of None \<Rightarrow> Inl (Truncated what) | Some e \<Rightarrow> Inl (GgufIo e))"

text \<open>\<open>from_le_bytes\<close> at each width.\<close>

fun le_value :: "u8 list \<Rightarrow> nat" where
  "le_value [] = 0"
| "le_value (b # bs) = unat b + 256 * le_value bs"

definition read_u8 :: "string \<Rightarrow> reader \<Rightarrow> gguf_error + u8 \<times> reader" where
  "read_u8 what r =
     rbind (take_budget 1 what r) (\<lambda>r.
     rbind (read_exact_or_truncated 1 what r) (\<lambda>(buf, r). Inr (hd buf, r)))"

definition read_u16 :: "string \<Rightarrow> reader \<Rightarrow> gguf_error + u16 \<times> reader" where
  "read_u16 what r =
     rbind (take_budget 2 what r) (\<lambda>r.
     rbind (read_exact_or_truncated 2 what r) (\<lambda>(buf, r). Inr (of_nat (le_value buf), r)))"

definition read_u32 :: "string \<Rightarrow> reader \<Rightarrow> gguf_error + u32 \<times> reader" where
  "read_u32 what r =
     rbind (take_budget 4 what r) (\<lambda>r.
     rbind (read_exact_or_truncated 4 what r) (\<lambda>(buf, r). Inr (of_nat (le_value buf), r)))"

definition read_u64 :: "string \<Rightarrow> reader \<Rightarrow> gguf_error + u64 \<times> reader" where
  "read_u64 what r =
     rbind (take_budget 8 what r) (\<lambda>r.
     rbind (read_exact_or_truncated 8 what r) (\<lambda>(buf, r). Inr (of_nat (le_value buf), r)))"

definition read_string :: "string \<Rightarrow> reader \<Rightarrow> gguf_error + string \<times> reader" where
  "read_string what r =
     rbind (read_u64 what r) (\<lambda>(len, r).
     if len > MAX_STRING_BYTES
     then Inl (Implausible ''string length'' len MAX_STRING_BYTES)
     else rbind (take_budget len ''string contents'' r) (\<lambda>r.
       rbind (read_exact_or_truncated (unat len) what r) (\<lambda>(buf, r).
       if valid_utf8 buf then Inr (text_of buf, r) else Inl (InvalidText what))))"

section \<open>Values\<close>

definition rmap :: "('a \<Rightarrow> 'b) \<Rightarrow> 'e + 'a \<times> 'r \<Rightarrow> 'e + 'b \<times> 'r" where
  "rmap f x = rbind x (\<lambda>(v, r). Inr (f v, r))"

function (sequential)
  read_value :: "reader \<Rightarrow> u32 \<Rightarrow> nat \<Rightarrow> gguf_error + metadata_value \<times> reader" and
  read_array :: "reader \<Rightarrow> nat \<Rightarrow> gguf_error + metadata_value \<times> reader" and
  read_elements :: "reader \<Rightarrow> u32 \<Rightarrow> nat \<Rightarrow> nat \<Rightarrow> bool \<Rightarrow> metadata_value list \<Rightarrow>
      gguf_error + metadata_value list \<times> reader"
where
  "read_value r type_id depth =
     (if type_id = 0 then rmap U8 (read_u8 ''uint8'' r)
      else if type_id = 1 then rmap I8 (read_u8 ''int8'' r)
      else if type_id = 2 then rmap U16 (read_u16 ''uint16'' r)
      else if type_id = 3 then rmap I16 (read_u16 ''int16'' r)
      else if type_id = 4 then rmap U32 (read_u32 ''uint32'' r)
      else if type_id = 5 then rmap I32 (read_u32 ''int32'' r)
      else if type_id = 6 then rmap F32 (read_u32 ''float32'' r)
      else if type_id = 7 then rmap (\<lambda>b. MBool (b \<noteq> 0)) (read_u8 ''bool'' r)
      else if type_id = 8 then rmap MString (read_string ''string'' r)
      else if type_id = 9 then read_array r depth
      else if type_id = 10 then rmap U64 (read_u64 ''uint64'' r)
      else if type_id = 11 then rmap I64 (read_u64 ''int64'' r)
      else if type_id = 12 then rmap F64 (read_u64 ''float64'' r)
      else Inl (UnknownValueType type_id))"
| "read_array r depth =
     (if depth \<ge> MAX_ARRAY_DEPTH
      then Inl (Implausible ''array nesting depth'' (of_nat depth + 1) (of_nat MAX_ARRAY_DEPTH))
      else
        rbind (read_u32 ''array element type'' r) (\<lambda>(element_type, r).
        rbind (read_u64 ''array length'' r) (\<lambda>(len, r).
        if len > MAX_ARRAY_LEN then Inl (Implausible ''array length'' len MAX_ARRAY_LEN)
        else
          let retain = unat len \<le> MAX_RETAINED_ARRAY_LEN in
          rbind (read_elements r element_type depth (unat len) retain []) (\<lambda>(retained, r).
          Inr (if retain then MArray retained else LargeArray element_type len, r)))))"
| "read_elements r element_type depth 0 retain retained = Inr (retained, r)"
| "read_elements r element_type depth (Suc n) retain retained =
     rbind (read_value r element_type (depth + 1)) (\<lambda>(value, r).
       read_elements r element_type depth n retain
         (if retain then retained @ [value] else retained))"
  by pat_completeness auto
termination
  by (relation "measures
       [\<lambda>x. case x of
            Inl (r, t, d) \<Rightarrow> if d \<ge> 4 then 2 else 4 * (4 - d) + 6
          | Inr (Inl (r, d)) \<Rightarrow> if d \<ge> 4 then 1 else 4 * (4 - d) + 5
          | Inr (Inr (r, t, d, n, _)) \<Rightarrow> if d \<ge> 4 then 3 else 4 * (4 - d) + 4,
        \<lambda>x. case x of Inr (Inr (r, t, d, n, _)) \<Rightarrow> n | _ \<Rightarrow> 0]")
     (auto simp: MAX_ARRAY_DEPTH_def)

declare read_value.simps [simp del] read_array.simps [simp del]

section \<open>The parser\<close>

text \<open>The loop over the metadata entries, and \<open>parse\<close> with the reader it leaves behind.\<close>

fun read_entries ::
    "nat \<Rightarrow> (string \<times> metadata_value) list \<Rightarrow> reader \<Rightarrow>
     gguf_error + (string \<times> metadata_value) list \<times> reader" where
  "read_entries 0 m r = Inr (m, r)"
| "read_entries (Suc n) m r =
     rbind (read_string ''metadata key'' r) (\<lambda>(key, r).
     rbind (read_u32 ''metadata value type'' r) (\<lambda>(type_id, r).
     rbind (read_value r type_id 0) (\<lambda>(value, r).
     read_entries n (bt_insert key value m) r)))"

definition parse_reader :: "reader \<Rightarrow> gguf_error + gguf_header \<times> reader" where
  "parse_reader r =
     rbind (take_budget 4 ''magic'' r) (\<lambda>r.
     rbind (read_exact_or_truncated 4 ''magic'' r) (\<lambda>(magic, r).
     if magic \<noteq> MAGIC then Inl (NotGguf magic)
     else rbind (read_u32 ''version'' r) (\<lambda>(ver, r).
     if ver \<notin> set SUPPORTED_VERSIONS then Inl (UnsupportedVersion ver)
     else rbind (read_u64 ''tensor count'' r) (\<lambda>(tensors, r).
     if tensors > MAX_TENSOR_COUNT
     then Inl (Implausible ''tensor count'' tensors MAX_TENSOR_COUNT)
     else rbind (read_u64 ''metadata count'' r) (\<lambda>(entries, r).
     if entries > MAX_METADATA_ENTRIES
     then Inl (Implausible ''metadata count'' entries MAX_METADATA_ENTRIES)
     else rbind (read_entries (unat entries) [] r) (\<lambda>(m, r).
     Inr (\<lparr>version = ver, tensor_count = tensors, metadata_count = entries, metadata = m\<rparr>, r)))))))"

definition parse :: "u8 list \<Rightarrow> string option \<Rightarrow> gguf_error + gguf_header" where
  "parse bs en = rbind (parse_reader (budgeted_new bs en MAX_HEADER_BYTES)) (\<lambda>(h, r). Inr h)"

section \<open>Laws of the reader\<close>

text \<open>
  What every reading step promises: on success it consumed a prefix of the source, paid for
  each byte of it out of the budget, and did not look beyond it; and cutting the source
  inside that prefix makes the step report a truncation.
\<close>

definition reads :: "reader \<Rightarrow> u8 list \<Rightarrow> reader \<Rightarrow> bool" where
  "reads r p r' \<longleftrightarrow> src r = p @ src r' \<and> src_end r' = src_end r
     \<and> unat (remaining r) = unat (remaining r') + length p"

definition law :: "(reader \<Rightarrow> gguf_error + 'a \<times> reader) \<Rightarrow> bool" where
  "law f \<longleftrightarrow> (\<forall>r v r'. f r = Inr (v, r') \<longrightarrow> (\<exists>p. reads r p r'
     \<and> (\<forall>s en. f (r\<lparr>src := p @ s, src_end := en\<rparr>) = Inr (v, r'\<lparr>src := s, src_end := en\<rparr>))
     \<and> (\<forall>q. strict_prefix q p \<longrightarrow>
          (\<exists>what. f (r\<lparr>src := q, src_end := None\<rparr>) = Inl (Truncated what)))))"

lemma lawE:
  assumes "law f" and "f r = Inr (v, r')"
  obtains p where "reads r p r'"
    and "\<And>s en. f (r\<lparr>src := p @ s, src_end := en\<rparr>) = Inr (v, r'\<lparr>src := s, src_end := en\<rparr>)"
    and "\<And>q. strict_prefix q p \<Longrightarrow>
      \<exists>what. f (r\<lparr>src := q, src_end := None\<rparr>) = Inl (Truncated what)"
  using assms unfolding law_def by blast

lemma law_return [wf_intros]: "law (\<lambda>r. Inr (v, r))"
  by (auto simp: law_def reads_def)

lemma law_fail [wf_intros]: "law (\<lambda>r. Inl e)"
  by (simp add: law_def)

lemma law_if [wf_intros]: "(c \<Longrightarrow> law f) \<Longrightarrow> (\<not> c \<Longrightarrow> law g) \<Longrightarrow> law (\<lambda>r. if c then f r else g r)"
  by (cases c) auto

lemma law_bind [wf_intros]:
  assumes f: "law f" and g: "\<And>v. law (g v)"
  shows "law (\<lambda>r. rbind (f r) (\<lambda>(v, r). g v r))"
  unfolding law_def
proof (intro allI impI)
  fix r w r2
  assume "rbind (f r) (\<lambda>(v, r). g v r) = Inr (w, r2)"
  then obtain v r1 where fr: "f r = Inr (v, r1)" and gr: "g v r1 = Inr (w, r2)"
    by (auto elim!: rbind_InrE)
  from f fr obtain p where p: "reads r p r1"
    "\<And>s en. f (r\<lparr>src := p @ s, src_end := en\<rparr>) = Inr (v, r1\<lparr>src := s, src_end := en\<rparr>)"
    "\<And>q. strict_prefix q p \<Longrightarrow> \<exists>what. f (r\<lparr>src := q, src_end := None\<rparr>) = Inl (Truncated what)"
    by (rule lawE) blast
  from g gr obtain p' where p': "reads r1 p' r2"
    "\<And>s en. g v (r1\<lparr>src := p' @ s, src_end := en\<rparr>) = Inr (w, r2\<lparr>src := s, src_end := en\<rparr>)"
    "\<And>q. strict_prefix q p' \<Longrightarrow> \<exists>what. g v (r1\<lparr>src := q, src_end := None\<rparr>) = Inl (Truncated what)"
    by (rule lawE) blast
  let ?b = "\<lambda>r. rbind (f r) (\<lambda>(v, r). g v r)"
  have cut: "\<exists>what. ?b (r\<lparr>src := q, src_end := None\<rparr>) = Inl (Truncated what)"
    if "strict_prefix q (p @ p')" for q
    using strict_prefix_append_cases [OF that]
  proof
    assume "strict_prefix q p"
    with p(3) show ?thesis by fastforce
  next
    assume "\<exists>q'. q = p @ q' \<and> strict_prefix q' p'"
    with p(2) p'(3) show ?thesis by fastforce
  qed
  have "reads r (p @ p') r2" using p(1) p'(1) by (simp add: reads_def)
  moreover have "\<forall>s en. ?b (r\<lparr>src := (p @ p') @ s, src_end := en\<rparr>)
      = Inr (w, r2\<lparr>src := s, src_end := en\<rparr>)"
    by (simp add: p(2) p'(2))
  ultimately show "\<exists>p. reads r p r2
     \<and> (\<forall>s en. ?b (r\<lparr>src := p @ s, src_end := en\<rparr>) = Inr (w, r2\<lparr>src := s, src_end := en\<rparr>))
     \<and> (\<forall>q. strict_prefix q p \<longrightarrow>
          (\<exists>what. ?b (r\<lparr>src := q, src_end := None\<rparr>) = Inl (Truncated what)))"
    using cut by blast
qed

text \<open>The one primitive: paying for \<open>n\<close> bytes and reading exactly \<open>n\<close>.\<close>

lemma law_take_read [wf_intros]:
  assumes "unat n = k"
  shows "law (\<lambda>r. rbind (take_budget n w r) (\<lambda>r. read_exact_or_truncated k what r))"
  unfolding law_def
proof (intro allI impI)
  fix r v r'
  assume "rbind (take_budget n w r) (\<lambda>r. read_exact_or_truncated k what r) = Inr (v, r')"
  then obtain left where left: "checked_sub (remaining r) n = Some left"
    and k: "k \<le> length (src r)"
    and v: "v = take k (src r)" and r': "r' = r\<lparr>remaining := left, src := drop k (src r)\<rparr>"
    by (auto simp: take_budget_def read_exact_or_truncated_def elim!: rbind_InrE
        split: option.splits if_splits)
  have "reads r v r'"
    using checked_sub_Some [OF left] k assms by (simp add: reads_def v r')
  then show "\<exists>p. reads r p r'
     \<and> (\<forall>s en. rbind (take_budget n w (r\<lparr>src := p @ s, src_end := en\<rparr>)) (read_exact_or_truncated k what)
          = Inr (v, r'\<lparr>src := s, src_end := en\<rparr>))
     \<and> (\<forall>q. strict_prefix q p \<longrightarrow> (\<exists>what'. rbind (take_budget n w (r\<lparr>src := q, src_end := None\<rparr>))
          (read_exact_or_truncated k what) = Inl (Truncated what')))"
    using left k by (intro exI [of _ v])
      (auto simp: take_budget_def read_exact_or_truncated_def v r' dest: prefix_length_less)
qed

lemma law_take_read_then [wf_intros]:
  assumes "unat n = k" and "\<And>v. law (g v)"
  shows "law (\<lambda>r. rbind (take_budget n w r) (\<lambda>r.
           rbind (read_exact_or_truncated k what r) (\<lambda>(v, r). g v r)))"
  using law_bind [OF law_take_read [OF assms(1)] assms(2), of w what] by (simp add: rbind_assoc)

lemma law_rmap [wf_intros]: "law f \<Longrightarrow> law (\<lambda>r. rmap g (f r))"
  unfolding rmap_def by (intro law_bind law_return)

lemma law_read_u8 [wf_intros]: "law (read_u8 what)"
  unfolding read_u8_def by (intro law_take_read_then law_return) simp

lemma law_read_u16 [wf_intros]: "law (read_u16 what)"
  unfolding read_u16_def by (intro law_take_read_then law_return) simp

lemma law_read_u32 [wf_intros]: "law (read_u32 what)"
  unfolding read_u32_def by (intro law_take_read_then law_return) simp

lemma law_read_u64 [wf_intros]: "law (read_u64 what)"
  unfolding read_u64_def by (intro law_take_read_then law_return) simp

lemma law_read_string [wf_intros]: "law (read_string what)"
  unfolding read_string_def
  by (intro law_bind law_read_u64 law_if law_fail law_take_read_then law_return) simp

text \<open>The values: by the depth that nested arrays still have left.\<close>

lemma law_read_value_if_array:
  assumes "law (\<lambda>r. read_array r d)"
  shows "law (\<lambda>r. read_value r t d)"
  by (unfold read_value.simps)
     ((rule law_if law_rmap law_read_u8 law_read_u16 law_read_u32 law_read_u64 law_read_string
         law_fail assms)+)

lemma law_read_elements:
  assumes "\<And>t. law (\<lambda>r. read_value r t (d + 1))"
  shows "law (\<lambda>r. read_elements r t d n retain acc)"
proof (induction n arbitrary: acc)
  case 0
  show ?case by (simp add: law_return)
next
  case (Suc n)
  have "law (\<lambda>r. rbind (read_value r t (d + 1))
      (\<lambda>(value, r). read_elements r t d n retain (if retain then acc @ [value] else acc)))"
    by (intro law_bind assms Suc.IH)
  then show ?case by simp
qed

lemma law_read_array_step:
  assumes "d < MAX_ARRAY_DEPTH \<Longrightarrow> (\<And>t. law (\<lambda>r. read_value r t (d + 1)))"
  shows "law (\<lambda>r. read_array r d)"
  unfolding read_array.simps Let_def
  by (intro law_if law_fail law_bind law_read_u32 law_read_u64 law_read_elements law_return assms)
     auto

lemma law_read_array: "law (\<lambda>r. read_array r d)"
proof (induction "MAX_ARRAY_DEPTH - d" arbitrary: d)
  case 0
  then show ?case by (intro law_read_array_step) simp
next
  case (Suc k)
  then have array: "law (\<lambda>r. read_array r (d + 1))" by simp
  show ?case
    by (rule law_read_array_step) (rule law_read_value_if_array [OF array])
qed

lemma law_read_value [wf_intros]: "law (\<lambda>r. read_value r t d)"
  by (intro law_read_value_if_array law_read_array)

lemma law_read_entries [wf_intros]: "law (read_entries n m)"
proof (induction n arbitrary: m)
  case 0
  show ?case by (simp add: law_return)
next
  case (Suc n)
  show ?case
    unfolding read_entries.simps
    by (intro law_bind law_read_string law_read_u32 law_read_value Suc.IH)
qed

lemma law_parse_reader: "law parse_reader"
  unfolding parse_reader_def
  by (intro law_bind law_take_read_then law_if law_fail law_read_u32 law_read_u64
      law_read_entries law_return) simp

section \<open>Well-formed values\<close>

text \<open>
  What a parsed value can be: text is valid UTF-8 of at most 16 MiB, a retained array holds at
  most 64 elements, an array of another length was at most \<open>MAX_ARRAY_LEN\<close> long, and arrays
  nest at most \<open>d\<close> deep.
\<close>

fun wf_value :: "nat \<Rightarrow> metadata_value \<Rightarrow> bool" where
  "wf_value d (MString s) \<longleftrightarrow> valid_utf8 (bytes_of s) \<and> length s \<le> unat MAX_STRING_BYTES"
| "wf_value 0 (MArray xs) \<longleftrightarrow> False"
| "wf_value (Suc d) (MArray xs) \<longleftrightarrow>
     length xs \<le> MAX_RETAINED_ARRAY_LEN \<and> list_all (wf_value d) xs"
| "wf_value d (LargeArray t n) \<longleftrightarrow>
     d > 0 \<and> MAX_RETAINED_ARRAY_LEN < unat n \<and> n \<le> MAX_ARRAY_LEN"
| "wf_value d _ \<longleftrightarrow> True"

definition wf_key :: "string \<Rightarrow> bool" where
  "wf_key k \<longleftrightarrow> valid_utf8 (bytes_of k) \<and> length k \<le> unat MAX_STRING_BYTES"

definition wf_header :: "gguf_header \<Rightarrow> bool" where
  "wf_header h \<longleftrightarrow> version h \<in> set SUPPORTED_VERSIONS
     \<and> tensor_count h \<le> MAX_TENSOR_COUNT \<and> metadata_count h \<le> MAX_METADATA_ENTRIES
     \<and> bt_inv (metadata h) \<and> length (metadata h) \<le> unat (metadata_count h)
     \<and> list_all (\<lambda>(k, v). wf_key k \<and> wf_value MAX_ARRAY_DEPTH v) (metadata h)"

lemma read_string_wf: "read_string what r = Inr (s, r') \<Longrightarrow> wf_key s"
  by (auto simp: read_string_def wf_key_def read_exact_or_truncated_def not_less word_le_nat_alt
      elim!: rbind_InrE split: if_splits option.splits)

lemma read_value_cases:
  assumes "read_value r t d = Inr (v, r')"
  shows "wf_value k v \<or> (t = 9 \<and> read_array r d = Inr (v, r'))"
  using assms read_string_wf
  by (auto simp: read_value.simps rmap_def wf_key_def elim!: rbind_InrE split: if_splits)

lemma read_elements_wf:
  assumes "read_elements r t d n retain acc = Inr (xs, r')"
    and "\<And>r v r'. read_value r t (d + 1) = Inr (v, r') \<Longrightarrow> wf_value k v"
    and "list_all (wf_value k) acc"
  shows "list_all (wf_value k) xs \<and> length xs = length acc + (if retain then n else 0)"
  using assms
proof (induction n arbitrary: r acc)
  case 0
  then show ?case by simp
next
  case (Suc n)
  from Suc.prems(1) obtain v r1 where v: "read_value r t (d + 1) = Inr (v, r1)"
    and rest: "read_elements r1 t d n retain (if retain then acc @ [v] else acc) = Inr (xs, r')"
    by (auto elim!: rbind_InrE)
  have "list_all (wf_value k) (if retain then acc @ [v] else acc)"
    using Suc.prems(2) [OF v] Suc.prems(3) by simp
  from Suc.IH [OF rest Suc.prems(2) this] show ?case by auto
qed

lemma read_array_wf:
  "read_array r d = Inr (v, r') \<Longrightarrow> wf_value (MAX_ARRAY_DEPTH - d) v"
proof (induction "MAX_ARRAY_DEPTH - d" arbitrary: d r v r')
  case 0
  then show ?case by (simp add: read_array.simps)
next
  case (Suc k)
  from Suc.prems Suc.hyps(2) obtain t len r1 xs where
    len: "len \<le> MAX_ARRAY_LEN"
    and xs: "read_elements r1 t d (unat len) (unat len \<le> MAX_RETAINED_ARRAY_LEN) [] = Inr (xs, r')"
    and v: "v = (if unat len \<le> MAX_RETAINED_ARRAY_LEN then MArray xs else LargeArray t len)"
    by (auto simp: read_array.simps Let_def not_less elim!: rbind_InrE split: if_splits)
  have k: "k = MAX_ARRAY_DEPTH - (d + 1)" using Suc.hyps(2) by simp
  have "wf_value k w" if "read_value ra t (d + 1) = Inr (w, rb)" for ra w rb
    using read_value_cases [OF that, of k] Suc.hyps(1) [OF k] k by auto
  from read_elements_wf [OF xs this] have "list_all (wf_value k) xs"
    and "unat len \<le> MAX_RETAINED_ARRAY_LEN \<Longrightarrow> length xs = unat len" by auto
  with len v Suc.hyps(2) [symmetric] show ?case by auto
qed

lemma read_value_wf: "read_value r t 0 = Inr (v, r') \<Longrightarrow> wf_value MAX_ARRAY_DEPTH v"
  using read_value_cases [of r t 0 v r' MAX_ARRAY_DEPTH] read_array_wf [of r 0 v r'] by auto

lemma set_bt_insert_subset: "set (bt_insert k v m) \<subseteq> insert (k, v) (set m)"
  by (induction k v m rule: bt_insert.induct) auto

lemma read_entries_wf:
  assumes "read_entries n m r = Inr (m', r')" and "bt_inv m"
    and "list_all (\<lambda>(k, v). wf_key k \<and> wf_value MAX_ARRAY_DEPTH v) m"
  shows "bt_inv m' \<and> length m' \<le> length m + n
     \<and> list_all (\<lambda>(k, v). wf_key k \<and> wf_value MAX_ARRAY_DEPTH v) m'"
  using assms
proof (induction n arbitrary: m r)
  case 0
  then show ?case by simp
next
  case (Suc n)
  from Suc.prems(1) obtain key v r1 r2 r3 t where key: "read_string ''metadata key'' r = Inr (key, r1)"
    and v: "read_value r2 t 0 = Inr (v, r3)"
    and rest: "read_entries n (bt_insert key v m) r3 = Inr (m', r')"
    by (auto elim!: rbind_InrE)
  have "list_all (\<lambda>(k, v). wf_key k \<and> wf_value MAX_ARRAY_DEPTH v) (bt_insert key v m)"
    using Suc.prems(3) read_string_wf [OF key] read_value_wf [OF v] set_bt_insert_subset [of key v m]
    by (fastforce simp: list_all_iff)
  moreover have "length (bt_insert key v m) \<le> Suc (length m)"
    using bt.length_keys_insert [OF Suc.prems(2)] by (simp add: bt_keys_def)
  ultimately show ?case
    using Suc.IH [OF rest bt_inv_insert [OF Suc.prems(2)]] by auto
qed

lemma parse_reader_wf: "parse_reader r = Inr (h, r') \<Longrightarrow> wf_header h"
  unfolding parse_reader_def
  by (elim rbind_InrE) (auto simp: wf_header_def bt_inv_def not_less elim!: rbind_InrE
      split: if_splits dest!: read_entries_wf)

section \<open>The container format\<close>

text \<open>
  The byte layout the parser accepts, as an encoder: little-endian integers, length-prefixed
  text, and each value after its type identifier. \<open>encodable\<close> holds of the values that
  have an encoding of their own: arrays are homogeneous and short enough to be retained.
\<close>

fun le :: "nat \<Rightarrow> nat \<Rightarrow> u8 list" where
  "le 0 n = []"
| "le (Suc k) n = of_nat (n mod 256) # le k (n div 256)"

fun type_tag :: "metadata_value \<Rightarrow> u32" where
  "type_tag (U8 _) = 0" | "type_tag (I8 _) = 1" | "type_tag (U16 _) = 2" | "type_tag (I16 _) = 3"
| "type_tag (U32 _) = 4" | "type_tag (I32 _) = 5" | "type_tag (F32 _) = 6" | "type_tag (MBool _) = 7"
| "type_tag (MString _) = 8" | "type_tag (MArray _) = 9" | "type_tag (LargeArray _ _) = 9"
| "type_tag (U64 _) = 10" | "type_tag (I64 _) = 11" | "type_tag (F64 _) = 12"

definition element_tag :: "metadata_value list \<Rightarrow> u32" where
  "element_tag xs = (case xs of [] \<Rightarrow> 0 | x # _ \<Rightarrow> type_tag x)"

definition enc_string :: "string \<Rightarrow> u8 list" where
  "enc_string s = le 8 (length s) @ bytes_of s"

fun enc_value :: "metadata_value \<Rightarrow> u8 list" where
  "enc_value (U8 v) = [v]" | "enc_value (I8 v) = [v]"
| "enc_value (U16 v) = le 2 (unat v)" | "enc_value (I16 v) = le 2 (unat v)"
| "enc_value (U32 v) = le 4 (unat v)" | "enc_value (I32 v) = le 4 (unat v)"
| "enc_value (F32 v) = le 4 (unat v)"
| "enc_value (U64 v) = le 8 (unat v)" | "enc_value (I64 v) = le 8 (unat v)"
| "enc_value (F64 v) = le 8 (unat v)"
| "enc_value (MBool b) = [if b then 1 else 0]"
| "enc_value (MString s) = enc_string s"
| "enc_value (MArray xs) =
     le 4 (unat (element_tag xs)) @ le 8 (length xs) @ concat (map enc_value xs)"
| "enc_value (LargeArray _ _) = []"

fun encodable :: "nat \<Rightarrow> metadata_value \<Rightarrow> bool" where
  "encodable d (MString s) \<longleftrightarrow> wf_key s"
| "encodable 0 (MArray xs) \<longleftrightarrow> False"
| "encodable (Suc d) (MArray xs) \<longleftrightarrow> length xs \<le> MAX_RETAINED_ARRAY_LEN
     \<and> list_all (\<lambda>x. type_tag x = element_tag xs \<and> encodable d x) xs"
| "encodable d (LargeArray _ _) \<longleftrightarrow> False"
| "encodable d _ \<longleftrightarrow> True"

definition enc_entry :: "string \<times> metadata_value \<Rightarrow> u8 list" where
  "enc_entry e = enc_string (fst e) @ le 4 (unat (type_tag (snd e))) @ enc_value (snd e)"

definition enc_header :: "gguf_header \<Rightarrow> u8 list" where
  "enc_header h = MAGIC @ le 4 (unat (version h)) @ le 8 (unat (tensor_count h))
     @ le 8 (unat (metadata_count h)) @ concat (map enc_entry (metadata h))"

definition encodable_header :: "gguf_header \<Rightarrow> bool" where
  "encodable_header h \<longleftrightarrow> version h \<in> set SUPPORTED_VERSIONS
     \<and> tensor_count h \<le> MAX_TENSOR_COUNT \<and> metadata_count h \<le> MAX_METADATA_ENTRIES
     \<and> unat (metadata_count h) = length (metadata h) \<and> bt_inv (metadata h)
     \<and> list_all (\<lambda>e. wf_key (fst e) \<and> encodable MAX_ARRAY_DEPTH (snd e)) (metadata h)
     \<and> length (enc_header h) \<le> unat MAX_HEADER_BYTES"

lemma length_le [simp]: "length (le k n) = k"
  by (induction k arbitrary: n) auto

lemma le_value_le: "le_value (le k n) = n mod 256 ^ k"
proof (induction k arbitrary: n)
  case 0
  then show ?case by simp
next
  case (Suc k)
  have "unat (of_nat (n mod 256) :: u8) = n mod 256"
    by (simp add: unat_of_nat)
  moreover have "n mod 256 ^ Suc k = n mod 256 + 256 * (n div 256 mod 256 ^ k)"
    by (simp add: mod_mult2_eq)
  ultimately show ?case using Suc.IH [of "n div 256"] by simp
qed

text \<open>Reading an encoding back: the reader pays for it and moves past it.\<close>

definition past :: "u8 list \<Rightarrow> u8 list \<Rightarrow> reader \<Rightarrow> reader" where
  "past p s r = r\<lparr>src := s, remaining := remaining r - of_nat (length p)\<rparr>"

definition at :: "u8 list \<Rightarrow> u8 list \<Rightarrow> reader \<Rightarrow> bool" where
  "at p s r \<longleftrightarrow> src r = p @ s \<and> length p \<le> unat (remaining r)"

lemma at_append:
  "at (p @ q) s r \<longleftrightarrow> at p (q @ s) r \<and> at q s (past p (q @ s) r)"
proof (cases "length p \<le> unat (remaining r)")
  case True
  then have "unat (of_nat (length p) :: u64) = length p"
    using unat_less_pow [of "remaining r"] by (simp add: unat_of_nat)
  with True have "unat (remaining r - of_nat (length p)) = unat (remaining r) - length p"
    by (simp add: unat_sub word_le_nat_alt)
  with True show ?thesis by (auto simp: at_def past_def)
next
  case False
  then show ?thesis by (simp add: at_def)
qed

lemma past_append: "past q s (past p (q @ s) r) = past (p @ q) s r"
  by (simp add: past_def algebra_simps)

lemma past_Nil: "src r = s \<Longrightarrow> past [] s r = r"
  by (simp add: past_def)

lemma take_read_at:
  assumes "at p s r" and "unat n = k" and "length p = k"
  shows "rbind (take_budget n w r) (read_exact_or_truncated k what) = Inr (p, past p s r)"
proof -
  have "of_nat (unat n) = n" by simp
  then have "n = of_nat k" by (simp only: assms(2))
  moreover have "n \<le> remaining r"
    using assms by (simp add: at_def word_le_nat_alt)
  ultimately show ?thesis using assms
    by (auto simp: take_budget_def checked_sub_def read_exact_or_truncated_def at_def past_def)
qed

lemma take_read_at_then:
  assumes "at p s r" and "unat n = k" and "length p = k"
  shows "rbind (take_budget n w r) (\<lambda>r. rbind (read_exact_or_truncated k what r) g)
    = g (p, past p s r)"
proof -
  have "rbind (rbind (take_budget n w r) (read_exact_or_truncated k what)) g = g (p, past p s r)"
    by (simp only: take_read_at [OF assms] rbind.simps)
  then show ?thesis by (simp only: rbind_assoc)
qed

lemma read_u8_at: "at [v] s r \<Longrightarrow> read_u8 what r = Inr (v, past [v] s r)"
  unfolding read_u8_def by (subst take_read_at_then) auto

lemma read_u16_at: "at (le 2 (unat v)) s r \<Longrightarrow> read_u16 what r = Inr (v, past (le 2 (unat v)) s r)"
  unfolding read_u16_def using unat_less_pow [of v]
  by (subst take_read_at_then) (auto simp: le_value_le)

lemma read_u32_at: "at (le 4 (unat v)) s r \<Longrightarrow> read_u32 what r = Inr (v, past (le 4 (unat v)) s r)"
  unfolding read_u32_def using unat_less_pow [of v]
  by (subst take_read_at_then) (auto simp: le_value_le)

lemma read_u64_at: "at (le 8 (unat v)) s r \<Longrightarrow> read_u64 what r = Inr (v, past (le 8 (unat v)) s r)"
  unfolding read_u64_def using unat_less_pow [of v]
  by (subst take_read_at_then) (auto simp: le_value_le)

lemma read_length_at:
  assumes "at (le 8 n) s r" and "n < 2 ^ 64"
  shows "read_u64 what r = Inr (of_nat n, past (le 8 n) s r)"
proof -
  have "unat (of_nat n :: u64) = n" using assms(2) by (simp add: unat_of_nat)
  with read_u64_at [of "of_nat n" s r what] assms(1) show ?thesis by simp
qed

lemma read_string_at:
  assumes "at (enc_string t) s r" and "wf_key t"
  shows "read_string what r = Inr (t, past (enc_string t) s r)"
proof -
  let ?n = "of_nat (length t) :: u64"
  from assms(1) have at1: "at (le 8 (length t)) (bytes_of t @ s) r"
    and at2: "at (bytes_of t) s (past (le 8 (length t)) (bytes_of t @ s) r)"
    by (auto simp: enc_string_def at_append)
  have small: "length t \<le> 16777216" using assms(2) by (simp add: wf_key_def MAX_STRING_BYTES_def)
  then have n: "unat ?n = length t" by (simp add: unat_of_nat)
  then have "\<not> ?n > MAX_STRING_BYTES"
    using assms(2) by (simp add: wf_key_def word_less_nat_alt not_less)
  moreover have "read_u64 what r = Inr (?n, past (le 8 (length t)) (bytes_of t @ s) r)"
    using at1 small by (intro read_length_at) auto
  ultimately show ?thesis
    using assms(2) n at2
    by (simp add: read_string_def take_read_at_then wf_key_def past_append enc_string_def)
qed

lemma read_elements_at:
  assumes "\<And>x s r. x \<in> set xs \<Longrightarrow> at (enc_value x) s r \<Longrightarrow>
      read_value r t (d + 1) = Inr (x, past (enc_value x) s r)"
    and "at (concat (map enc_value xs)) s r"
  shows "read_elements r t d (length xs) True acc
    = Inr (acc @ xs, past (concat (map enc_value xs)) s r)"
  using assms
proof (induction xs arbitrary: acc r)
  case Nil
  then show ?case by (simp add: past_Nil at_def)
next
  case (Cons x xs)
  from Cons.prems(2) have x: "at (enc_value x) (concat (map enc_value xs) @ s) r"
    and xs: "at (concat (map enc_value xs)) s (past (enc_value x) (concat (map enc_value xs) @ s) r)"
    by (auto simp: at_append)
  show ?case
    using Cons.prems(1) [OF _ x] Cons.IH [OF Cons.prems(1) xs] by (simp add: past_append)
qed

lemma read_array_at:
  assumes "\<And>x s r. x \<in> set xs \<Longrightarrow> at (enc_value x) s r \<Longrightarrow>
      read_value r (element_tag xs) (d + 1) = Inr (x, past (enc_value x) s r)"
    and "d < MAX_ARRAY_DEPTH" and "length xs \<le> MAX_RETAINED_ARRAY_LEN"
    and "at (enc_value (MArray xs)) s r"
  shows "read_array r d = Inr (MArray xs, past (enc_value (MArray xs)) s r)"
proof -
  let ?t = "le 4 (unat (element_tag xs))" and ?n = "le 8 (length xs)"
  let ?es = "concat (map enc_value xs)"
  from assms(4) have a1: "at ?t (?n @ ?es @ s) r"
    and a2: "at ?n (?es @ s) (past ?t (?n @ ?es @ s) r)"
    and a3: "at ?es s (past ?n (?es @ s) (past ?t (?n @ ?es @ s) r))"
    by (simp_all only: enc_value.simps at_append append_assoc)
  have small: "length xs \<le> 64" using assms(3) by (simp add: MAX_RETAINED_ARRAY_LEN_def)
  then have n: "unat (of_nat (length xs) :: u64) = length xs" by (simp add: unat_of_nat)
  have "\<not> (of_nat (length xs) :: u64) > MAX_ARRAY_LEN"
    unfolding word_less_nat_alt n using small by (simp add: MAX_ARRAY_LEN_def)
  then show ?thesis
    using assms(2,3) n read_u32_at [OF a1] read_length_at [OF a2] small
      read_elements_at [OF assms(1) a3]
    by (simp add: read_array.simps past_append)
qed

lemma read_value_at:
  "encodable k v \<Longrightarrow> k + d \<le> MAX_ARRAY_DEPTH \<Longrightarrow> at (enc_value v) s r \<Longrightarrow>
   read_value r (type_tag v) d = Inr (v, past (enc_value v) s r)"
proof (induction v arbitrary: k d s r)
  case (MArray xs)
  then obtain k' where k: "k = Suc k'" by (cases k) auto
  have "read_value r (element_tag xs) (d + 1) = Inr (x, past (enc_value x) s r)"
    if "x \<in> set xs" and "at (enc_value x) s r" for x s r
    using MArray.IH [OF that(1) _ _ that(2), of k' "d + 1"] MArray.prems(1,2) that(1) k
    by (auto simp: list_all_iff)
  then have "read_array r d = Inr (MArray xs, past (enc_value (MArray xs)) s r)"
    using MArray.prems k by (intro read_array_at) auto
  then show ?case by (simp add: read_value.simps)
next
  case (MBool b)
  then show ?case
    using read_u8_at [of "if b then 1 else 0"] by (cases b) (auto simp: read_value.simps rmap_def)
next
  case (LargeArray t n)
  then show ?case by (cases k) auto
qed (auto simp: read_value.simps rmap_def read_u8_at read_u16_at read_u32_at read_u64_at
       read_string_at)

lemma read_entries_at:
  assumes "list_all (\<lambda>e. wf_key (fst e) \<and> encodable MAX_ARRAY_DEPTH (snd e)) es"
    and "at (concat (map enc_entry es)) s r"
  shows "read_entries (length es) m r
    = Inr (fold (\<lambda>(k, v). bt_insert k v) es m, past (concat (map enc_entry es)) s r)"
  using assms
proof (induction es arbitrary: m r)
  case Nil
  then show ?case by (simp add: past_Nil at_def)
next
  case (Cons e es)
  obtain k v where e: "e = (k, v)" by (cases e)
  let ?k = "enc_string k" and ?t = "le 4 (unat (type_tag v))" and ?v = "enc_value v"
  let ?es = "concat (map enc_entry es)"
  from Cons.prems(2) have a1: "at ?k (?t @ ?v @ ?es @ s) r"
    and a2: "at ?t (?v @ ?es @ s) (past ?k (?t @ ?v @ ?es @ s) r)"
    and a3: "at ?v (?es @ s) (past ?t (?v @ ?es @ s) (past ?k (?t @ ?v @ ?es @ s) r))"
    and a4: "at ?es s (past ?v (?es @ s) (past ?t (?v @ ?es @ s) (past ?k (?t @ ?v @ ?es @ s) r)))"
    by (simp_all only: e enc_entry_def [of "(k, v)"] fst_conv snd_conv list.map concat.simps
        at_append append_assoc)
  have key: "wf_key k" and v: "encodable MAX_ARRAY_DEPTH v" using Cons.prems(1) e by auto
  show ?case
    using Cons.IH [OF _ a4] Cons.prems(1) e
      read_string_at [OF a1 key] read_u32_at [OF a2] read_value_at [OF v _ a3, of 0]
    by (simp add: past_append enc_entry_def [of "(k, v)"])
qed

lemma bt_insert_greater:
  "\<forall>k' \<in> fst ` set m. k' < k \<Longrightarrow> bt_insert k v m = m @ [(k, v)]"
  by (induction k v m rule: bt_insert.induct) auto

lemma fold_bt_insert_sorted:
  "bt_inv (m @ es) \<Longrightarrow> fold (\<lambda>(k, v). bt_insert k v) es m = m @ es"
proof (induction es arbitrary: m)
  case Nil
  then show ?case by simp
next
  case (Cons e es)
  then have "\<forall>k' \<in> fst ` set m. k' < fst e"
    by (auto simp: bt_inv_def sorted_wrt_append)
  then have "bt_insert (fst e) (snd e) m = m @ [e]" by (simp add: bt_insert_greater)
  with Cons show ?case by (simp add: case_prod_beta)
qed

lemma parse_reader_at:
  assumes "encodable_header h" and "at (enc_header h) s r"
  shows "parse_reader r = Inr (h, past (enc_header h) s r)"
proof -
  let ?v = "le 4 (unat (version h))" and ?t = "le 8 (unat (tensor_count h))"
  let ?n = "le 8 (unat (metadata_count h))" and ?es = "concat (map enc_entry (metadata h))"
  let ?r1 = "past MAGIC (?v @ ?t @ ?n @ ?es @ s) r"
  let ?r2 = "past ?v (?t @ ?n @ ?es @ s) ?r1"
  let ?r3 = "past ?t (?n @ ?es @ s) ?r2"
  let ?r4 = "past ?n (?es @ s) ?r3"
  from assms(2) have a: "at MAGIC (?v @ ?t @ ?n @ ?es @ s) r" "at ?v (?t @ ?n @ ?es @ s) ?r1"
    "at ?t (?n @ ?es @ s) ?r2" "at ?n (?es @ s) ?r3" "at ?es s ?r4"
    by (simp_all only: enc_header_def at_append append_assoc)
  note h = assms(1) [unfolded encodable_header_def]
  have magic: "rbind (take_budget 4 w r) (\<lambda>r. rbind (read_exact_or_truncated 4 what r) g)
      = g (MAGIC, ?r1)" for w what and g :: "_ \<Rightarrow> gguf_error + gguf_header \<times> reader"
    using a(1) by (intro take_read_at_then) (auto simp: MAGIC_def)
  have entries: "read_entries (unat (metadata_count h)) [] ?r4
      = Inr (metadata h, past ?es s ?r4)"
    using read_entries_at [OF _ a(5), of "[]"] h fold_bt_insert_sorted [of "[]" "metadata h"] by simp
  show ?thesis
    using h read_u32_at [OF a(2)] read_u64_at [OF a(3)] read_u64_at [OF a(4)] entries
    by (auto simp: parse_reader_def magic not_less past_append enc_header_def)
qed

section \<open>Properties\<close>

definition sample_header :: gguf_header where
  "sample_header = \<lparr>version = 3, tensor_count = 0, metadata_count = 2,
     metadata = [(''arch'', MString ''llama''), (''dims'', MArray [U32 4096, U32 7])]\<rparr>"

lemma encodable_sample_header: "encodable_header sample_header"
  unfolding encodable_header_def
  by (simp add: sample_header_def SUPPORTED_VERSIONS_def MAX_TENSOR_COUNT_def
      MAX_METADATA_ENTRIES_def MAX_HEADER_BYTES_def MAX_ARRAY_DEPTH_def MAX_STRING_BYTES_def
      MAX_RETAINED_ARRAY_LEN_def bt_inv_def wf_key_def bytes_of_def element_tag_def enc_header_def
      enc_entry_def enc_string_def MAGIC_def
      encodable.simps(3) [of 3, simplified])

lemma at_budgeted_new:
  "length p \<le> unat b \<Longrightarrow> at p s (budgeted_new (p @ s) en b)"
  by (simp add: at_def budgeted_new_def)

lemma parse_eq_Inr:
  "parse bs en = Inr h \<longleftrightarrow> (\<exists>r. parse_reader (budgeted_new bs en MAX_HEADER_BYTES) = Inr (h, r))"
  by (auto simp: parse_def rbind_eq_Inr)

lemma parse_encodable:
  assumes "encodable_header h"
  shows "parse (enc_header h @ rest) en = Inr h"
proof -
  have "at (enc_header h) rest (budgeted_new (enc_header h @ rest) en MAX_HEADER_BYTES)"
    using assms by (simp add: at_budgeted_new encodable_header_def)
  from parse_reader_at [OF assms this] show ?thesis by (auto simp: parse_eq_Inr)
qed

text \<open>C14: parsing is the inverse of the container format: the bytes of an encodable header,
  followed by anything at all (the tensor data, and whatever ends the source), parse to exactly
  that header.\<close>

theorem parse_encode:
  assumes "encodable_header h"
  shows "parse (enc_header h @ rest) en = Inr h"
  by (rule parse_encodable [OF assms])

theorem parse_encode_witness:
  "parse (enc_header sample_header @ [1, 2, 3]) (Some ''disk error'') = Inr sample_header"
  by (rule parse_encode [OF encodable_sample_header])

text \<open>C40: whatever bytes it is given, a header the parser returns is well formed: a supported
  version, counts within their limits, no more entries than declared, keys in order, text that
  is valid UTF-8 of bounded length, no retained array above 64 elements, and arrays nested at
  most four deep.\<close>

theorem parse_wf: "parse bs en = Inr h \<Longrightarrow> wf_header h"
  by (auto simp: parse_eq_Inr dest: parse_reader_wf)

theorem parse_wf_witness: "wf_header sample_header"
  by (rule parse_wf [OF parse_encodable [OF encodable_sample_header]])

text \<open>C15: a successful parse consumes a prefix of at most 64 MiB and depends on nothing else:
  the same prefix before any other data parses to the same header, and every shorter prefix is
  reported as truncated rather than as something else.\<close>

theorem parse_bounded_prefix:
  assumes "parse bs en = Inr h"
  shows "\<exists>n \<le> length bs. n \<le> 67108864
    \<and> (\<forall>rest en'. parse (take n bs @ rest) en' = Inr h)
    \<and> (\<forall>m < n. \<exists>what. parse (take m bs) None = Inl (Truncated what))"
proof -
  let ?r = "budgeted_new bs en MAX_HEADER_BYTES"
  from assms obtain r' where "parse_reader ?r = Inr (h, r')" by (auto simp: parse_eq_Inr)
  with law_parse_reader obtain p where p: "reads ?r p r'"
    "\<And>s en. parse_reader (?r\<lparr>src := p @ s, src_end := en\<rparr>) = Inr (h, r'\<lparr>src := s, src_end := en\<rparr>)"
    "\<And>q. strict_prefix q p \<Longrightarrow>
      \<exists>what. parse_reader (?r\<lparr>src := q, src_end := None\<rparr>) = Inl (Truncated what)"
    by (rule lawE) blast
  have src: "bs = p @ src r'" and len: "length p \<le> 67108864"
    using p(1) by (auto simp: reads_def budgeted_new_def MAX_HEADER_BYTES_def)
  have new: "?r\<lparr>src := q, src_end := e\<rparr> = budgeted_new q e MAX_HEADER_BYTES" for q e
    by (simp add: budgeted_new_def)
  have same: "parse (take (length p) bs @ rest) en' = Inr h" for rest en'
    using p(2) [unfolded new] by (auto simp: parse_eq_Inr src)
  have cut: "\<exists>what. parse (take m bs) None = Inl (Truncated what)" if "m < length p" for m
  proof -
    have "strict_prefix (take m p) p"
      using that by (rule strict_prefix_take)
    from p(3) [OF this, unfolded new] have "\<exists>what. parse (take m p) None = Inl (Truncated what)"
      by (auto simp: parse_def)
    then show ?thesis using that by (simp add: src)
  qed
  from src len same cut show ?thesis by (intro exI [of _ "length p"]) simp
qed

theorem parse_bounded_prefix_witness:
  "\<exists>n \<le> length (enc_header sample_header @ [1, 2, 3]). n \<le> 67108864
    \<and> (\<forall>rest en'. parse (take n (enc_header sample_header @ [1, 2, 3]) @ rest) en' = Inr sample_header)
    \<and> (\<forall>m < n. \<exists>what. parse (take m (enc_header sample_header @ [1, 2, 3])) None
          = Inl (Truncated what))"
  using parse_bounded_prefix [OF parse_encodable [OF encodable_sample_header]] .

end
