(* ===== verification/Artifact.thy ===== *)
theory Artifact
  imports Gguf
begin

text \<open>
  Model artifacts (\<open>mehoy-registry/src/artifact.rs\<close>): what a container is, its fingerprint,
  what is known of its contents, and the comparison of a record with the file as it is now.

  The file system is a parameter: \<open>fs path\<close> is what \<open>std::fs::metadata\<close> reports of a path, or
  \<open>None\<close> when it fails. A \<open>SystemTime\<close> is the signed number of nanoseconds since the Unix
  epoch. The decimal rendering of floating point values is a parameter of \<open>render_value\<close>.
\<close>

type_synonym path = string
type_synonym system_time = int
type_synonym artifact_id = string

record file_meta =
  fm_len :: u64
  fm_modified :: "system_time option"

type_synonym file_system = "path \<Rightarrow> file_meta option"

definition artifact_id_generate :: "string + u8 list \<Rightarrow> string + artifact_id" where
  "artifact_id_generate drawn = generate_hex drawn"

datatype artifact_format = Gguf

fun format_as_str :: "artifact_format \<Rightarrow> string" where
  "format_as_str Gguf = ''gguf''"

definition format_from_stored :: "string \<Rightarrow> artifact_format option" where
  "format_from_stored v = (if v = ''gguf'' then Some Gguf else None)"

record fingerprint =
  fp_size :: u64
  fp_modified :: "system_time option"

definition observe :: "file_system \<Rightarrow> path \<Rightarrow> fingerprint option" where
  "observe fs p = (case fs p of None \<Rightarrow> None
     | Some m \<Rightarrow> Some \<lparr>fp_size = fm_len m, fp_modified = fm_modified m\<rparr>)"

datatype digest_algorithm = Sha256

fun digest_as_str :: "digest_algorithm \<Rightarrow> string" where
  "digest_as_str Sha256 = ''sha256''"

definition digest_from_stored :: "string \<Rightarrow> digest_algorithm option" where
  "digest_from_stored v = (if v = ''sha256'' then Some Sha256 else None)"

datatype integrity = Unverified | Verified digest_algorithm "u8 list"

fun integrity_is_verified :: "integrity \<Rightarrow> bool" where
  "integrity_is_verified (Verified _ _) = True"
| "integrity_is_verified Unverified = False"

record artifact_metadata =
  container_version :: u32
  am_tensor_count :: u64
  am_metadata_count :: u64
  am_architecture :: "string option"
  am_name :: "string option"
  file_type :: "u64 option"
  context_length :: "u64 option"
  embedding_length :: "u64 option"
  tokenizer_model :: "string option"
  chat_template :: "string option"

definition from_header :: "gguf_header \<Rightarrow> artifact_metadata" where
  "from_header h = \<lparr>
     container_version = version h,
     am_tensor_count = tensor_count h,
     am_metadata_count = metadata_count h,
     am_architecture = architecture h,
     am_name = header_text h ''general.name'',
     file_type = header_number h ''general.file_type'',
     context_length = architecture_number h ''context_length'',
     embedding_length = architecture_number h ''embedding_length'',
     tokenizer_model = header_text h ''tokenizer.ggml.model'',
     chat_template = header_text h ''tokenizer.chat_template''\<rparr>"

definition has_chat_template :: "artifact_metadata \<Rightarrow> bool" where
  "has_chat_template m = (chat_template m \<noteq> None)"

record model_artifact =
  a_id :: artifact_id
  a_path :: path
  a_format :: artifact_format
  a_size :: u64
  a_meta :: artifact_metadata
  a_integrity :: integrity
  a_fingerprint :: fingerprint
  a_registered_at :: system_time

datatype artifact_state = Unchanged | Changed string | Missing

fun state_is_usable :: "artifact_state \<Rightarrow> bool" where
  "state_is_usable Unchanged = True"
| "state_is_usable _ = False"

fun show_artifact_state :: "artifact_state \<Rightarrow> string" where
  "show_artifact_state Unchanged = ''unchanged''"
| "show_artifact_state (Changed reason) = ''changed: '' @ reason"
| "show_artifact_state Missing = ''missing''"

definition detect_drift :: "file_system \<Rightarrow> model_artifact \<Rightarrow> artifact_state" where
  "detect_drift fs a = (case observe fs (a_path a) of
     None \<Rightarrow> Missing
   | Some current \<Rightarrow>
      if fp_size current \<noteq> fp_size (a_fingerprint a) then
        Changed (''size is now '' @ show_u64 (fp_size current) @ '' bytes, was ''
          @ show_u64 (fp_size (a_fingerprint a)) @ '' at registration'')
      else (case (fp_modified current, fp_modified (a_fingerprint a)) of
          (Some now, Some then_) \<Rightarrow>
            if now \<noteq> then_ then Changed ''modification time has changed since registration''
            else Unchanged
        | _ \<Rightarrow> Unchanged))"

fun render_value :: "(u32 \<Rightarrow> string) \<Rightarrow> (u64 \<Rightarrow> string) \<Rightarrow> metadata_value \<Rightarrow> string" where
  "render_value f32 f64 (MString text) = text"
| "render_value f32 f64 (MBool flag) = (if flag then ''true'' else ''false'')"
| "render_value f32 f64 (U8 v) = show_nat (unat v)"
| "render_value f32 f64 (I8 v) = show_int (sint v)"
| "render_value f32 f64 (U16 v) = show_nat (unat v)"
| "render_value f32 f64 (I16 v) = show_int (sint v)"
| "render_value f32 f64 (U32 v) = show_nat (unat v)"
| "render_value f32 f64 (I32 v) = show_int (sint v)"
| "render_value f32 f64 (U64 v) = show_nat (unat v)"
| "render_value f32 f64 (I64 v) = show_int (sint v)"
| "render_value f32 f64 (F32 v) = f32 v"
| "render_value f32 f64 (F64 v) = f64 v"
| "render_value f32 f64 (MArray items) = ''['' @ show_nat (length items) @ '' items]''"
| "render_value f32 f64 (LargeArray _ len) = ''['' @ show_nat (unat len) @ '' items]''"

section \<open>Lemmas\<close>

lemma format_round_trip [simp]: "format_from_stored (format_as_str f) = Some f"
  by (cases f) (simp add: format_from_stored_def)

lemma digest_round_trip [simp]: "digest_from_stored (digest_as_str d) = Some d"
  by (cases d) (simp add: digest_from_stored_def)

text \<open>
  The three outcomes of drift detection, each as an equivalence: \<open>Missing\<close> exactly when the
  file cannot be inspected, usable exactly when size agrees and no two known modification times
  disagree.
\<close>

lemma detect_drift_Missing_iff: "detect_drift fs a = Missing \<longleftrightarrow> fs (a_path a) = None"
  by (auto simp: detect_drift_def observe_def split: option.splits)

lemma detect_drift_usable_iff:
  "state_is_usable (detect_drift fs a) \<longleftrightarrow>
     (\<exists>m. fs (a_path a) = Some m \<and> fm_len m = fp_size (a_fingerprint a)
        \<and> (\<forall>t t'. fm_modified m = Some t \<longrightarrow> fp_modified (a_fingerprint a) = Some t' \<longrightarrow> t = t'))"
  by (auto simp: detect_drift_def observe_def split: option.splits)

lemma state_is_usable_iff: "state_is_usable s \<longleftrightarrow> s = Unchanged"
  by (cases s) auto

lemma detect_drift_cases:
  obtains "detect_drift fs a = Missing" "fs (a_path a) = None"
  | "detect_drift fs a = Unchanged" "fs (a_path a) \<noteq> None"
  | reason where "detect_drift fs a = Changed reason" "fs (a_path a) \<noteq> None"
  by (cases "detect_drift fs a") (auto simp: detect_drift_Missing_iff [symmetric])

text \<open>The architecture-qualified dimensions need the architecture.\<close>

lemma from_header_dimensions:
  "am_architecture (from_header h) = None \<Longrightarrow>
   context_length (from_header h) = None \<and> embedding_length (from_header h) = None"
  by (simp add: from_header_def architecture_number_def)

end
