(* ===== verification/Store.thy ===== *)
theory Store
  imports Artifact
begin

text \<open>
  The durable registry (\<open>mehoy-registry/src/store.rs\<close>). The database is the two tables of the
  schema: the rows of \<open>artifacts\<close> in insertion order and the rows of \<open>artifact_metadata\<close>. Each
  SQL statement of the source is one operation on the tables, with the constraints the schema
  declares (primary key, unique path, cascading delete). A SQLite integer column is an \<open>int\<close>.

  The environment of an operation is a record: what each file-system call answers, the random
  bytes drawn, the clock, and the storage errors, each of which may be present.
\<close>

section \<open>Errors\<close>

datatype registry_error =
  NotFound path
| NotAFile path string
| NotAnArtifact path gguf_error
| UnknownArtifact artifact_id
| Storage string
| RegIo string

text \<open>Rendering; \<open>dbg\<close> is the quoting and escaping of \<open>{:?}\<close> on text.\<close>

definition show_gguf_error :: "(string \<Rightarrow> string) \<Rightarrow> gguf_error \<Rightarrow> string" where
  "show_gguf_error dbg e = (case e of
     NotGguf found \<Rightarrow> ''not a GGUF container: expected magic '' @ dbg (text_of MAGIC)
       @ '', found '' @ dbg (text_of found)
   | UnsupportedVersion v \<Rightarrow>
       ''GGUF version '' @ show_nat (unat v) @ '' is not supported (supported: [2, 3])''
   | Implausible what v limit \<Rightarrow>
       ''GGUF '' @ what @ '' of '' @ show_u64 v @ '' exceeds the limit of '' @ show_u64 limit
   | Truncated what \<Rightarrow> ''GGUF file ended while reading '' @ what
   | Overflow what \<Rightarrow> ''GGUF '' @ what @ '' overflowed''
   | UnknownValueType t \<Rightarrow>
       ''GGUF metadata value type '' @ show_nat (unat t) @ '' is not recognised''
   | InvalidText key \<Rightarrow> ''GGUF metadata key '' @ dbg key @ '' is not valid UTF-8''
   | GgufIo err \<Rightarrow> ''cannot read GGUF container: '' @ err)"

fun show_registry_error :: "(string \<Rightarrow> string) \<Rightarrow> registry_error \<Rightarrow> string" where
  "show_registry_error dbg (NotFound p) = ''no such file: '' @ p"
| "show_registry_error dbg (NotAFile p reason) = p @ '' is not a model file: '' @ reason"
| "show_registry_error dbg (NotAnArtifact p source) =
     p @ '' cannot be read: '' @ show_gguf_error dbg source"
| "show_registry_error dbg (UnknownArtifact i) = ''no artifact registered with id '' @ i"
| "show_registry_error dbg (Storage err) = ''artifact registry storage failure: '' @ err"
| "show_registry_error dbg (RegIo err) = ''artifact registry filesystem failure: '' @ err"

datatype registration = Registered model_artifact | AlreadyRegistered model_artifact

fun registration_artifact :: "registration \<Rightarrow> model_artifact" where
  "registration_artifact (Registered a) = a"
| "registration_artifact (AlreadyRegistered a) = a"

fun registration_is_new :: "registration \<Rightarrow> bool" where
  "registration_is_new (Registered _) = True"
| "registration_is_new (AlreadyRegistered _) = False"

section \<open>The tables\<close>

record row =
  c_id :: string
  c_path :: string
  c_format :: string
  c_size :: int
  c_version :: int
  c_tensors :: int
  c_entries :: int
  c_architecture :: "string option"
  c_name :: "string option"
  c_file_type :: "int option"
  c_context :: "int option"
  c_embedding :: "int option"
  c_tokenizer :: "string option"
  c_template :: "string option"
  c_registered_at :: int
  c_mtime :: "int option"
  c_integrity :: string
  c_algorithm :: "string option"
  c_digest :: "u8 list option"

record database =
  artifacts :: "row list"
  entries :: "((string \<times> string) \<times> string) list"

definition empty_database :: database where
  "empty_database = \<lparr>artifacts = [], entries = []\<rparr>"

section \<open>Conversions at the storage boundary\<close>

definition i64_max :: int where
  "i64_max = 9223372036854775807"

definition to_signed :: "u64 \<Rightarrow> int" where
  "to_signed v = (if uint v \<le> i64_max then uint v else i64_max)"

definition from_signed :: "int \<Rightarrow> u64" where
  "from_signed v = word_of_int (max v 0)"

definition to_epoch :: "system_time \<Rightarrow> int" where
  "to_epoch t = (if t < 0 then 0 else min (t div 1000000000) i64_max)"

definition from_epoch :: "int \<Rightarrow> system_time" where
  "from_epoch seconds = max seconds 0 * 1000000000"

definition to_epoch_nanos :: "system_time \<Rightarrow> int" where
  "to_epoch_nanos t = (if t < 0 then 0 else min t i64_max)"

definition from_epoch_nanos :: "int \<Rightarrow> system_time" where
  "from_epoch_nanos nanos = max nanos 0"

text \<open>The parameters of the first INSERT, and the inverse mapping of a row. Reading a column of
  the wrong range is a storage error, which only \<open>container_version\<close>, a \<open>u32\<close>, can show.\<close>

definition artifact_row :: "(path \<Rightarrow> string) \<Rightarrow> model_artifact \<Rightarrow> row" where
  "artifact_row lossy a = \<lparr>
     c_id = a_id a,
     c_path = lossy (a_path a),
     c_format = format_as_str (a_format a),
     c_size = to_signed (a_size a),
     c_version = uint (container_version (a_meta a)),
     c_tensors = to_signed (am_tensor_count (a_meta a)),
     c_entries = to_signed (am_metadata_count (a_meta a)),
     c_architecture = am_architecture (a_meta a),
     c_name = am_name (a_meta a),
     c_file_type = map_option to_signed (file_type (a_meta a)),
     c_context = map_option to_signed (context_length (a_meta a)),
     c_embedding = map_option to_signed (embedding_length (a_meta a)),
     c_tokenizer = tokenizer_model (a_meta a),
     c_template = chat_template (a_meta a),
     c_registered_at = to_epoch (a_registered_at a),
     c_mtime = map_option to_epoch_nanos (fp_modified (a_fingerprint a)),
     c_integrity = ''unverified'',
     c_algorithm = None,
     c_digest = None\<rparr>"

definition row_to_artifact :: "row \<Rightarrow> string + model_artifact" where
  "row_to_artifact r =
     (if c_version r < 0 \<or> c_version r > 4294967295 then Inl ''integer out of range''
      else Inr \<lparr>
        a_id = c_id r,
        a_path = c_path r,
        a_format = (case format_from_stored (c_format r) of Some f \<Rightarrow> f | None \<Rightarrow> Gguf),
        a_size = from_signed (c_size r),
        a_meta = \<lparr>
          container_version = word_of_int (c_version r),
          am_tensor_count = from_signed (c_tensors r),
          am_metadata_count = from_signed (c_entries r),
          am_architecture = c_architecture r,
          am_name = c_name r,
          file_type = map_option from_signed (c_file_type r),
          context_length = map_option from_signed (c_context r),
          embedding_length = map_option from_signed (c_embedding r),
          tokenizer_model = c_tokenizer r,
          chat_template = c_template r\<rparr>,
        a_integrity =
          (case (c_algorithm r, c_digest r) of
             (Some algorithm, Some digest) \<Rightarrow>
               if c_integrity r = ''verified'' then
                 (case digest_from_stored algorithm of
                    Some alg \<Rightarrow> Verified alg digest | None \<Rightarrow> Unverified)
               else Unverified
           | _ \<Rightarrow> Unverified),
        a_fingerprint = \<lparr>
          fp_size = from_signed (c_size r),
          fp_modified = map_option from_epoch_nanos (c_mtime r)\<rparr>,
        a_registered_at = from_epoch (c_registered_at r)\<rparr>)"

section \<open>Statements\<close>

definition query_optional :: "(row \<Rightarrow> bool) \<Rightarrow> database \<Rightarrow> registry_error + model_artifact option" where
  "query_optional p db = (case find p (artifacts db) of
     None \<Rightarrow> Inr None
   | Some r \<Rightarrow> (case row_to_artifact r of Inl e \<Rightarrow> Inl (Storage e) | Inr a \<Rightarrow> Inr (Some a)))"

definition get_artifact :: "database \<Rightarrow> artifact_id \<Rightarrow> registry_error + model_artifact option" where
  "get_artifact db i = query_optional (\<lambda>r. c_id r = i) db"

definition find_by_path :: "database \<Rightarrow> string \<Rightarrow> registry_error + model_artifact option" where
  "find_by_path db p = query_optional (\<lambda>r. c_path r = p) db"

definition metadata_rows ::
    "(metadata_value \<Rightarrow> string) \<Rightarrow> artifact_id \<Rightarrow> gguf_header \<Rightarrow> ((string \<times> string) \<times> string) list" where
  "metadata_rows render i h = map (\<lambda>(k, v). ((i, k), render v)) (metadata h)"

text \<open>One transaction: the artifact row, refused when it breaks a key, then its metadata.\<close>

definition insert_artifact ::
    "(path \<Rightarrow> string) \<Rightarrow> (metadata_value \<Rightarrow> string) \<Rightarrow> string option \<Rightarrow> database \<Rightarrow> model_artifact \<Rightarrow>
     gguf_header \<Rightarrow> registry_error + database" where
  "insert_artifact lossy render fault db a h =
     (case fault of Some e \<Rightarrow> Inl (Storage e)
      | None \<Rightarrow>
        if \<exists>r \<in> set (artifacts db). c_id r = a_id a then
          Inl (Storage ''UNIQUE constraint failed: artifacts.id'')
        else if \<exists>r \<in> set (artifacts db). c_path r = lossy (a_path a) then
          Inl (Storage ''UNIQUE constraint failed: artifacts.canonical_path'')
        else Inr (db\<lparr>artifacts := artifacts db @ [artifact_row lossy a],
                     entries := fold (\<lambda>(k, v) m. hm_insert k v m)
                       (metadata_rows render (a_id a) h) (entries db)\<rparr>))"

section \<open>Operations\<close>

datatype path_kind = PathAbsent | PathError string | PathDir | PathOther

record environment =
  e_kind :: "path \<Rightarrow> path_kind"
  e_canonical :: "path \<Rightarrow> string + path"
  e_lossy :: "path \<Rightarrow> string"
  e_open :: "path \<Rightarrow> string + (u8 list \<times> string option)"
  e_stat :: file_system
  e_stat_error :: string
  e_random :: "string + u8 list"
  e_now :: system_time
  e_query_fault :: "string option"
  e_write_fault :: "string option"
  e_f32 :: "u32 \<Rightarrow> string"
  e_f64 :: "u64 \<Rightarrow> string"

definition io_err :: "string + 'a \<Rightarrow> registry_error + 'a" where
  "io_err x = map_err RegIo x"

definition new_artifact ::
    "environment \<Rightarrow> path \<Rightarrow> gguf_header \<Rightarrow> registry_error + model_artifact" where
  "new_artifact env canonical h =
     rbind (ok_or (observe (e_stat env) canonical) (RegIo (e_stat_error env))) (\<lambda>fp.
     rbind (io_err (artifact_id_generate (e_random env))) (\<lambda>i.
     Inr \<lparr>a_id = i, a_path = canonical, a_format = Gguf, a_size = fp_size fp,
          a_meta = from_header h, a_integrity = Unverified, a_fingerprint = fp,
          a_registered_at = e_now env\<rparr>))"

definition register ::
    "environment \<Rightarrow> database \<Rightarrow> path \<Rightarrow> registry_error + (registration \<times> database)" where
  "register env db path =
     (case e_kind env path of
        PathAbsent \<Rightarrow> Inl (NotFound path)
      | PathError e \<Rightarrow> Inl (RegIo e)
      | PathDir \<Rightarrow> Inl (NotAFile path ''path is a directory'')
      | PathOther \<Rightarrow>
        rbind (io_err (e_canonical env path)) (\<lambda>canonical.
        rbind (case e_query_fault env of Some e \<Rightarrow> Inl (Storage e)
               | None \<Rightarrow> find_by_path db (e_lossy env canonical)) (\<lambda>found.
        case found of
          Some existing \<Rightarrow> Inr (AlreadyRegistered existing, db)
        | None \<Rightarrow>
          rbind (io_err (e_open env canonical)) (\<lambda>(bytes, en).
          rbind (map_err (NotAnArtifact canonical) (parse bytes en)) (\<lambda>h.
          rbind (new_artifact env canonical h) (\<lambda>a.
          rbind (insert_artifact (e_lossy env) (render_value (e_f32 env) (e_f64 env))
                   (e_write_fault env) db a h) (\<lambda>db'.
          Inr (Registered a, db'))))))))"

definition check_artifact ::
    "file_system \<Rightarrow> database \<Rightarrow> artifact_id \<Rightarrow> registry_error + artifact_state" where
  "check_artifact fs db i =
     rbind (get_artifact db i) (\<lambda>found.
     rbind (ok_or found (UnknownArtifact i)) (\<lambda>a.
     Inr (detect_drift fs a)))"

definition update_digest :: "artifact_id \<Rightarrow> u8 list \<Rightarrow> database \<Rightarrow> database" where
  "update_digest i digest db = db\<lparr>artifacts := map (\<lambda>r. if c_id r = i
     then r\<lparr>c_integrity := ''verified'', c_algorithm := Some (digest_as_str Sha256),
            c_digest := Some digest\<rparr> else r) (artifacts db)\<rparr>"

definition verify ::
    "(u8 list \<Rightarrow> u8 list) \<Rightarrow> (path \<Rightarrow> string + u8 list) \<Rightarrow> string option \<Rightarrow> database \<Rightarrow>
     artifact_id \<Rightarrow> registry_error + (integrity \<times> database)" where
  "verify sha256 read_file fault db i =
     rbind (get_artifact db i) (\<lambda>found.
     rbind (ok_or found (UnknownArtifact i)) (\<lambda>a.
     rbind (io_err (read_file (a_path a))) (\<lambda>contents.
     let digest = sha256 contents in
     (case fault of Some e \<Rightarrow> Inl (Storage e)
      | None \<Rightarrow> Inr (Verified Sha256 digest, update_digest i digest db)))))"

definition forget ::
    "string option \<Rightarrow> database \<Rightarrow> artifact_id \<Rightarrow> registry_error + (bool \<times> database)" where
  "forget fault db i =
     (case fault of Some e \<Rightarrow> Inl (Storage e)
      | None \<Rightarrow> Inr (\<exists>r \<in> set (artifacts db). c_id r = i,
          db\<lparr>artifacts := filter (\<lambda>r. c_id r \<noteq> i) (artifacts db),
             entries := filter (\<lambda>((a, k), v). a \<noteq> i) (entries db)\<rparr>))"

fun rows_to_artifacts :: "row list \<Rightarrow> registry_error + model_artifact list" where
  "rows_to_artifacts [] = Inr []"
| "rows_to_artifacts (r # rs) =
     rbind (map_err Storage (row_to_artifact r)) (\<lambda>a.
     rbind (rows_to_artifacts rs) (\<lambda>as. Inr (a # as)))"

definition list_artifacts :: "database \<Rightarrow> registry_error + model_artifact list" where
  "list_artifacts db = rows_to_artifacts (sort_key (\<lambda>r. - c_registered_at r) (artifacts db))"

definition artifact_entries :: "database \<Rightarrow> artifact_id \<Rightarrow> (string \<times> string) list" where
  "artifact_entries db i =
     sort_key fst (map (\<lambda>((a, k), v). (k, v)) (filter (\<lambda>((a, k), v). a = i) (entries db)))"

section \<open>What survives storage\<close>

text \<open>
  The specification of a round trip through the artifacts table: unsigned values are clamped to
  the signed range, the registration time loses its sub-second part, the modification time keeps
  its nanoseconds but not a position before the epoch, and the path becomes text.
\<close>

definition clamp_u64 :: "u64 \<Rightarrow> u64" where
  "clamp_u64 v = (if uint v \<le> i64_max then v else word_of_int i64_max)"

definition stored :: "(path \<Rightarrow> string) \<Rightarrow> model_artifact \<Rightarrow> model_artifact" where
  "stored lossy a = a\<lparr>
     a_path := lossy (a_path a),
     a_size := clamp_u64 (a_size a),
     a_meta := (a_meta a)\<lparr>
       am_tensor_count := clamp_u64 (am_tensor_count (a_meta a)),
       am_metadata_count := clamp_u64 (am_metadata_count (a_meta a)),
       file_type := map_option clamp_u64 (file_type (a_meta a)),
       context_length := map_option clamp_u64 (context_length (a_meta a)),
       embedding_length := map_option clamp_u64 (embedding_length (a_meta a))\<rparr>,
     a_integrity := Unverified,
     a_fingerprint := \<lparr>fp_size = clamp_u64 (a_size a),
       fp_modified = map_option (\<lambda>t. max 0 (min t i64_max)) (fp_modified (a_fingerprint a))\<rparr>,
     a_registered_at :=
       max 0 (min (a_registered_at a div 1000000000) i64_max) * 1000000000\<rparr>"

lemma from_to_signed: "from_signed (to_signed v) = clamp_u64 v"
proof -
  have "max (uint v) 0 = uint v" by simp
  then show ?thesis
    by (simp add: from_signed_def to_signed_def clamp_u64_def i64_max_def del: max_less_iff_conj)
qed

lemma from_to_epoch_nanos: "from_epoch_nanos (to_epoch_nanos t) = max 0 (min t i64_max)"
  by (auto simp: from_epoch_nanos_def to_epoch_nanos_def i64_max_def)

lemma from_to_epoch:
  "from_epoch (to_epoch t) = max 0 (min (t div 1000000000) i64_max) * 1000000000"
  by (auto simp: from_epoch_def to_epoch_def i64_max_def max_def pos_imp_zdiv_neg_iff)

lemma uint_u32_bounds: "0 \<le> uint (v :: u32) \<and> uint v \<le> 4294967295"
  using uint_bounded [of v] by simp

lemma row_round_trip:
  "row_to_artifact (artifact_row lossy a) = Inr (stored lossy a)"
  using uint_u32_bounds [of "container_version (a_meta a)"]
  by (cases a, cases "a_meta a")
     (auto simp: row_to_artifact_def artifact_row_def stored_def from_to_signed from_to_epoch
      from_to_epoch_nanos option.map_comp comp_def option.map_id)

section \<open>The database invariant\<close>

definition row_ok :: "row \<Rightarrow> bool" where
  "row_ok r \<longleftrightarrow> 0 \<le> c_version r \<and> c_version r \<le> 4294967295"

definition db_inv :: "database \<Rightarrow> bool" where
  "db_inv db \<longleftrightarrow> distinct (map c_id (artifacts db)) \<and> distinct (map c_path (artifacts db))
     \<and> list_all row_ok (artifacts db) \<and> hm_inv (entries db)
     \<and> (\<forall>e \<in> set (entries db). fst (fst e) \<in> c_id ` set (artifacts db))"

lemma row_ok_decodes: "row_ok r \<Longrightarrow> \<exists>a. row_to_artifact r = Inr a \<and> a_id a = c_id r"
  by (auto simp: row_ok_def row_to_artifact_def)

lemma row_ok_artifact_row: "row_ok (artifact_row lossy a)"
  using uint_u32_bounds [of "container_version (a_meta a)"]
  by (simp add: row_ok_def artifact_row_def)

lemma db_inv_empty: "db_inv empty_database"
  by (simp add: db_inv_def empty_database_def hm_inv_def)

lemma fst_set_hm_insert: "fst ` set (hm_insert k v m) = insert k (fst ` set m)"
  by (auto simp: hm_insert_def hm_remove_def)

lemma hm_inv_fold_insert: "hm_inv m \<Longrightarrow> hm_inv (fold (\<lambda>(k, v). hm_insert k v) es m)"
  by (induction es arbitrary: m) (auto simp: hm.inv_insert)

lemma fst_set_fold_insert:
  "fst ` set (fold (\<lambda>(k, v). hm_insert k v) es m) = fst ` set es \<union> fst ` set m"
proof (induction es arbitrary: m)
  case (Cons e es)
  show ?case
    by (cases e) (simp only: fold.simps comp_apply case_prod_conv Cons.IH fst_set_hm_insert, simp)
qed simp

lemma insert_artifact_Inr:
  assumes "insert_artifact lossy render fault db a h = Inr db'"
  shows "artifacts db' = artifacts db @ [artifact_row lossy a]"
    and "entries db' = fold (\<lambda>(k, v). hm_insert k v) (metadata_rows render (a_id a) h) (entries db)"
    and "a_id a \<notin> c_id ` set (artifacts db)"
    and "lossy (a_path a) \<notin> c_path ` set (artifacts db)"
  using assms by (auto simp: insert_artifact_def split: option.splits if_splits)

lemma insert_artifact_inv:
  assumes "insert_artifact lossy render fault db a h = Inr db'" and "db_inv db"
  shows "db_inv db'"
proof -
  note ins = insert_artifact_Inr [OF assms(1)]
  have keys: "fst ` set (entries db') \<subseteq> {a_id a} \<times> UNIV \<union> fst ` set (entries db)"
    unfolding ins(2) fst_set_fold_insert by (auto simp: metadata_rows_def)
  have "fst (fst e) \<in> c_id ` set (artifacts db')" if "e \<in> set (entries db')" for e
  proof -
    have "fst e \<in> {a_id a} \<times> UNIV \<union> fst ` set (entries db)" using that keys by blast
    then show ?thesis
      using assms(2) by (auto simp: ins(1) db_inv_def artifact_row_def)
  qed
  moreover have "hm_inv (entries db')"
    using assms(2) by (simp add: ins(2) hm_inv_fold_insert db_inv_def)
  moreover have "c_id (artifact_row lossy a) = a_id a" "c_path (artifact_row lossy a) = lossy (a_path a)"
    by (simp_all add: artifact_row_def)
  ultimately show ?thesis
    using assms(2) ins(1,3,4) row_ok_artifact_row [of lossy a]
    by (auto simp: db_inv_def)
qed

lemma find_distinct_Some:
  "distinct (map f xs) \<Longrightarrow> x \<in> set xs \<Longrightarrow> find (\<lambda>y. f y = f x) xs = Some x"
  by (induction xs) (auto simp: rev_image_eqI)

lemma query_optional_Some:
  assumes "db_inv db" and "r \<in> set (artifacts db)" and "row_to_artifact r = Inr a"
    and "f = c_id \<or> f = c_path"
  shows "query_optional (\<lambda>q. f q = f r) db = Inr (Some a)"
proof -
  have "distinct (map f (artifacts db))" using assms(1,4) by (auto simp: db_inv_def)
  from find_distinct_Some [OF this assms(2)] assms(3) show ?thesis by (simp add: query_optional_def)
qed

lemma query_optional_None: "\<forall>r \<in> set (artifacts db). \<not> p r \<Longrightarrow> query_optional p db = Inr None"
  by (auto simp: query_optional_def split: option.splits dest!: find_Some_iff [THEN iffD1])

lemma query_optional_total:
  assumes "db_inv db"
  obtains "query_optional p db = Inr None" "\<forall>r \<in> set (artifacts db). \<not> p r"
  | r a where "query_optional p db = Inr (Some a)" "r \<in> set (artifacts db)" "p r"
      "row_to_artifact r = Inr a" "a_id a = c_id r"
proof (cases "find p (artifacts db)")
  case None
  then have "query_optional p db = Inr None" by (simp add: query_optional_def)
  with None show ?thesis using that(1) by (auto simp: find_None_iff)
next
  case (Some r)
  then have r: "r \<in> set (artifacts db)" "p r" by (auto simp: find_Some_iff in_set_conv_nth)
  with assms obtain a where "row_to_artifact r = Inr a" "a_id a = c_id r"
    by (auto simp: db_inv_def list_all_iff dest!: row_ok_decodes)
  with r Some show ?thesis using that(2) by (simp add: query_optional_def)
qed

section \<open>Reachable registries\<close>

text \<open>A registry is what any sequence of its operations makes of the empty database.\<close>

inductive registry_step :: "database \<Rightarrow> database \<Rightarrow> bool" where
  step_register: "register env db path = Inr (reg, db') \<Longrightarrow> registry_step db db'"
| step_verify: "verify sha256 read_file fault db i = Inr (v, db') \<Longrightarrow> registry_step db db'"
| step_forget: "forget fault db i = Inr (b, db') \<Longrightarrow> registry_step db db'"

definition registry :: "database \<Rightarrow> bool" where
  "registry db \<longleftrightarrow> registry_step\<^sup>*\<^sup>* empty_database db"

lemma registry_empty: "registry empty_database"
  by (simp add: registry_def)

lemma registry_next: "registry db \<Longrightarrow> registry_step db db' \<Longrightarrow> registry db'"
  unfolding registry_def by (rule rtranclp.rtrancl_into_rtrancl)

inductive_cases registry_stepE: "registry_step db db'"

lemma register_cases:
  assumes "register env db path = Inr (reg, db')"
  obtains canonical a where "e_canonical env path = Inr canonical"
      "find_by_path db (e_lossy env canonical) = Inr (Some a)"
      "reg = AlreadyRegistered a" "db' = db"
  | canonical bytes en h a where "e_canonical env path = Inr canonical"
      "find_by_path db (e_lossy env canonical) = Inr None"
      "e_open env canonical = Inr (bytes, en)" "parse bytes en = Inr h"
      "new_artifact env canonical h = Inr a" "reg = Registered a"
      "insert_artifact (e_lossy env) (render_value (e_f32 env) (e_f64 env)) (e_write_fault env) db a h
         = Inr db'"
proof -
  from assms have "e_kind env path = PathOther"
    by (cases "e_kind env path") (simp_all add: register_def)
  with assms obtain canonical found where can: "e_canonical env path = Inr canonical"
    and found: "find_by_path db (e_lossy env canonical) = Inr found"
    and rest: "(case found of Some existing \<Rightarrow> Inr (AlreadyRegistered existing, db)
        | None \<Rightarrow>
          rbind (io_err (e_open env canonical)) (\<lambda>(bytes, en).
          rbind (map_err (NotAnArtifact canonical) (parse bytes en)) (\<lambda>h.
          rbind (new_artifact env canonical h) (\<lambda>a.
          rbind (insert_artifact (e_lossy env) (render_value (e_f32 env) (e_f64 env))
                   (e_write_fault env) db a h) (\<lambda>db'. Inr (Registered a, db')))))) = Inr (reg, db')"
    by (auto simp: register_def io_err_def elim!: rbind_InrE split: option.splits)
  show thesis
  proof (cases found)
    case None
    with rest obtain bytes en h a where "e_open env canonical = Inr (bytes, en)"
      "parse bytes en = Inr h" "new_artifact env canonical h = Inr a" "reg = Registered a"
      "insert_artifact (e_lossy env) (render_value (e_f32 env) (e_f64 env)) (e_write_fault env) db a h
         = Inr db'"
      by (auto simp: io_err_def elim!: rbind_InrE)
    with can found None show thesis by (intro that(2)) simp_all
  next
    case (Some a)
    with rest can found show thesis by (intro that(1)) auto
  qed
qed

lemma new_artifact_Inr:
  assumes "new_artifact env canonical h = Inr a"
  obtains fp where "observe (e_stat env) canonical = Some fp" "a_path a = canonical"
    "a_fingerprint a = fp" "a_size a = fp_size fp" "a_integrity a = Unverified"
    "a_meta a = from_header h" "a_registered_at a = e_now env"
  using assms by (auto simp: new_artifact_def ok_or_def elim!: rbind_InrE split: option.splits)

lemma artifacts_update_digest:
  "map c_id (artifacts (update_digest i d db)) = map c_id (artifacts db)"
  "map c_path (artifacts (update_digest i d db)) = map c_path (artifacts db)"
  "entries (update_digest i d db) = entries db"
  by (auto simp: update_digest_def)

lemma update_digest_inv: "db_inv db \<Longrightarrow> db_inv (update_digest i d db)"
proof -
  assume inv: "db_inv db"
  have "c_id ` set (artifacts (update_digest i d db)) = c_id ` set (artifacts db)"
    by (metis artifacts_update_digest(1) list.set_map)
  moreover have "list_all row_ok (artifacts (update_digest i d db))"
    using inv by (auto simp: db_inv_def update_digest_def list_all_iff row_ok_def)
  ultimately show ?thesis using inv by (simp add: db_inv_def artifacts_update_digest)
qed

lemma verify_Inr:
  assumes "verify sha256 read_file fault db i = Inr (v, db')"
  obtains a contents where "get_artifact db i = Inr (Some a)" "read_file (a_path a) = Inr contents"
    "v = Verified Sha256 (sha256 contents)" "db' = update_digest i (sha256 contents) db"
  using assms by (auto simp: verify_def io_err_def ok_or_def Let_def elim!: rbind_InrE
      split: option.splits)

lemma forget_inv: "forget fault db i = Inr (b, db') \<Longrightarrow> db_inv db \<Longrightarrow> db_inv db'"
proof -
  assume f: "forget fault db i = Inr (b, db')" and inv: "db_inv db"
  then have db': "db' = db\<lparr>artifacts := filter (\<lambda>r. c_id r \<noteq> i) (artifacts db),
      entries := filter (\<lambda>((a, k), v). a \<noteq> i) (entries db)\<rparr>"
    by (simp add: forget_def split: option.splits)
  have "fst (fst e) \<in> c_id ` set (artifacts db')" if "e \<in> set (entries db')" for e
  proof -
    have "fst (fst e) \<noteq> i" "fst (fst e) \<in> c_id ` set (artifacts db)"
      using that inv by (auto simp: db' db_inv_def)
    then show ?thesis by (auto simp: db')
  qed
  then show ?thesis
    using inv by (simp add: db_inv_def db' hm_inv_def distinct_map_filter list_all_iff
        distinct_map_filter_fst)
qed

interpretation operations: preserved registry_step db_inv
  by unfold_locales (auto elim!: registry_stepE register_cases verify_Inr
      intro: insert_artifact_inv update_digest_inv forget_inv)

lemma registry_inv: "registry db \<Longrightarrow> db_inv db"
  unfolding registry_def using operations.run.runs db_inv_empty by blast

lemma get_after_insert:
  assumes "insert_artifact lossy render fault db a h = Inr db'" and "db_inv db"
  shows "get_artifact db' (a_id a) = Inr (Some (stored lossy a))"
proof -
  let ?r = "artifact_row lossy a"
  have "?r \<in> set (artifacts db')" using insert_artifact_Inr(1) [OF assms(1)] by simp
  from query_optional_Some [OF insert_artifact_inv [OF assms] this row_round_trip, of c_id]
  show ?thesis by (simp add: get_artifact_def artifact_row_def)
qed

lemma find_append: "find p (xs @ ys) = (case find p xs of None \<Rightarrow> find p ys | Some x \<Rightarrow> Some x)"
  by (induction xs) auto

lemma get_other_after_insert:
  assumes "insert_artifact lossy render fault db a h = Inr db'" and "i \<noteq> a_id a"
  shows "get_artifact db' i = get_artifact db i"
  using insert_artifact_Inr(1) [OF assms(1)] assms(2)
  by (simp add: get_artifact_def query_optional_def find_append artifact_row_def split: option.splits)

lemma find_path_after_insert:
  assumes "insert_artifact lossy render fault db a h = Inr db'" and "db_inv db"
  shows "find_by_path db' (lossy (a_path a)) = Inr (Some (stored lossy a))"
proof -
  let ?r = "artifact_row lossy a"
  have "?r \<in> set (artifacts db')" using insert_artifact_Inr(1) [OF assms(1)] by simp
  from query_optional_Some [OF insert_artifact_inv [OF assms] this row_round_trip, of c_path]
  show ?thesis by (simp add: find_by_path_def artifact_row_def)
qed

section \<open>Properties\<close>

text \<open>An environment in which \<open>/m/a.gguf\<close> holds the sample container, last modified at \<open>t\<close>.\<close>

definition sample_environment :: "system_time \<Rightarrow> environment" where
  "sample_environment t = \<lparr>
     e_kind = (\<lambda>p. if p = ''/m/a.gguf'' \<or> p = ''a.gguf'' then PathOther else PathAbsent),
     e_canonical = (\<lambda>p. Inr ''/m/a.gguf''),
     e_lossy = (\<lambda>p. p),
     e_open = (\<lambda>p. Inr (enc_header sample_header, None)),
     e_stat = (\<lambda>p. Some \<lparr>fm_len = 200, fm_modified = Some t\<rparr>),
     e_stat_error = ''stat failed'',
     e_random = Inr [1, 2, 3],
     e_now = 5000000007,
     e_query_fault = None,
     e_write_fault = None,
     e_f32 = (\<lambda>_. ''f''),
     e_f64 = (\<lambda>_. ''f'')\<rparr>"

definition sample_artifact :: "system_time \<Rightarrow> model_artifact" where
  "sample_artifact t = \<lparr>a_id = hex_encode [1, 2, 3], a_path = ''/m/a.gguf'', a_format = Gguf,
     a_size = 200, a_meta = from_header sample_header, a_integrity = Unverified,
     a_fingerprint = \<lparr>fp_size = 200, fp_modified = Some t\<rparr>, a_registered_at = 5000000007\<rparr>"

definition sample_database :: "system_time \<Rightarrow> database" where
  "sample_database t = \<lparr>
     artifacts = [artifact_row (\<lambda>p. p) (sample_artifact t)],
     entries = fold (\<lambda>(k, v) m. hm_insert k v m)
       (metadata_rows (render_value (\<lambda>_. ''f'') (\<lambda>_. ''f'')) (hex_encode [1, 2, 3]) sample_header) []\<rparr>"

lemma register_sample:
  "register (sample_environment t) empty_database ''a.gguf''
     = Inr (Registered (sample_artifact t), sample_database t)"
  using parse_reader_at [OF encodable_sample_header at_budgeted_new, of _ "[]"]
    encodable_sample_header
  by (simp add: register_def sample_environment_def io_err_def find_by_path_def query_optional_def
      empty_database_def parse_def encodable_header_def new_artifact_def observe_def
      artifact_id_generate_def generate_hex_def insert_artifact_def sample_artifact_def
      sample_database_def)

lemma registry_sample: "registry (sample_database t)"
  by (rule registry_next [OF registry_empty step_register [OF register_sample]])

lemma register_inserted:
  assumes "register env db path = Inr (Registered a, db')"
  obtains h where "insert_artifact (e_lossy env) (render_value (e_f32 env) (e_f64 env))
      (e_write_fault env) db a h = Inr db'" and "a_integrity a = Unverified"
  using assms by (cases rule: register_cases) (auto elim!: new_artifact_Inr)

lemma register_stored:
  assumes "registry db" and "register env db path = Inr (Registered a, db')"
  shows "get_artifact db' (a_id a) = Inr (Some (stored (e_lossy env) a))"
  using register_inserted [OF assms(2)] get_after_insert registry_inv [OF assms(1)] by metis

text \<open>C22: in every registry reachable from the empty one by registering, verifying and
  forgetting, under any behaviour of the file system, the clock, the randomness and the storage,
  identifiers are unique, paths are unique, every row can be read back, and every metadata row
  belongs to a registered artifact.\<close>

theorem registry_invariant: "registry db \<Longrightarrow> db_inv db"
  by (rule registry_inv)

theorem registry_invariant_witness: "db_inv (sample_database 7)"
  by (rule registry_invariant [OF registry_sample])

text \<open>registering a new path records exactly what was observed: looking the returned
  identifier up yields the returned artifact as storage renders it, every other identifier
  answers as before, and the artifact is unverified.\<close>

theorem register_then_get:
  assumes "registry db" and "register env db path = Inr (Registered a, db')"
  shows "get_artifact db' (a_id a) = Inr (Some (stored (e_lossy env) a))
    \<and> (\<forall>i. i \<noteq> a_id a \<longrightarrow> get_artifact db' i = get_artifact db i)
    \<and> get_artifact db (a_id a) = Inr None \<and> a_integrity a = Unverified"
proof (intro conjI allI impI)
  from register_inserted [OF assms(2)] obtain h
    where ins: "insert_artifact (e_lossy env) (render_value (e_f32 env) (e_f64 env))
      (e_write_fault env) db a h = Inr db'" and unverified: "a_integrity a = Unverified" .
  show "get_artifact db (a_id a) = Inr None"
    unfolding get_artifact_def using insert_artifact_Inr(3) [OF ins]
    by (intro query_optional_None) (metis image_eqI)
  show "a_integrity a = Unverified" by (rule unverified)
  show "get_artifact db' i = get_artifact db i" if "i \<noteq> a_id a" for i
    using get_other_after_insert [OF ins] that by blast
qed (rule register_stored [OF assms])

theorem register_then_get_witness:
  "get_artifact (sample_database 7) (hex_encode [1, 2, 3])
     = Inr (Some (stored (\<lambda>p. p) (sample_artifact 7)))"
  using register_then_get [OF registry_empty register_sample [of 7]]
  by (simp add: sample_artifact_def sample_environment_def)

text \<open>a path is registered once. However the file or the environment has changed since,
  registering any path that canonicalises to a registered one returns the recorded artifact with
  its original identifier, and changes nothing.\<close>

theorem register_again:
  assumes "registry db" and "register env db path = Inr (reg, db1)"
    and "e_canonical env path = Inr canonical"
    and "e_kind env' path' = PathOther" and "e_canonical env' path' = Inr canonical'"
    and "e_lossy env' canonical' = e_lossy env canonical" and "e_query_fault env' = None"
  shows "\<exists>b. register env' db1 path' = Inr (AlreadyRegistered b, db1)
    \<and> a_id b = a_id (registration_artifact reg)"
proof -
  have "\<exists>b. find_by_path db1 (e_lossy env canonical) = Inr (Some b)
      \<and> a_id b = a_id (registration_artifact reg)"
    using assms(2)
  proof (cases rule: register_cases)
    case (1 c a)
    with assms(3) show ?thesis by auto
  next
    case (2 c bytes en h a)
    then have "a_path a = canonical" using assms(3) by (auto elim!: new_artifact_Inr)
    with find_path_after_insert [OF 2(7) registry_inv [OF assms(1)]] 2(6) show ?thesis
      by (auto simp: stored_def)
  qed
  then show ?thesis using assms(4-7) by (auto simp: register_def io_err_def)
qed

theorem register_again_witness:
  "\<exists>b. register (sample_environment 99) (sample_database 7) ''/m/a.gguf''
     = Inr (AlreadyRegistered b, sample_database 7) \<and> a_id b = hex_encode [1, 2, 3]"
proof -
  have "\<exists>b. register (sample_environment 99) (sample_database 7) ''/m/a.gguf''
     = Inr (AlreadyRegistered b, sample_database 7)
     \<and> a_id b = a_id (registration_artifact (Registered (sample_artifact 7)))"
    by (rule register_again [OF registry_empty register_sample, of _ _ _ _ "''/m/a.gguf''"])
       (simp_all add: sample_environment_def)
  then show ?thesis by (simp add: sample_artifact_def)
qed

text \<open>an artifact whose file is left alone is reported unchanged right after registration,
  when its size and modification time are ones the table can hold: sizes below \<open>2^63\<close> and times
  from the epoch on.\<close>

theorem register_then_check:
  assumes "registry db" and "register env db path = Inr (Registered a, db')"
    and "e_lossy env (a_path a) = a_path a" and "uint (a_size a) \<le> i64_max"
    and "\<And>t. fp_modified (a_fingerprint a) = Some t \<Longrightarrow> 0 \<le> t \<and> t \<le> i64_max"
  shows "check_artifact (e_stat env) db' (a_id a) = Inr Unchanged"
proof -
  obtain canonical h where new: "new_artifact env canonical h = Inr a"
    using assms(2) by (auto elim: register_cases)
  then have obs: "observe (e_stat env) (a_path a) = Some (a_fingerprint a)"
    and size: "a_size a = fp_size (a_fingerprint a)"
    by (auto elim: new_artifact_Inr)
  have "detect_drift (e_stat env) (stored (e_lossy env) a) = Unchanged"
    using obs size assms(3-5)
    by (auto simp: detect_drift_def stored_def clamp_u64_def split: option.splits)
  then show ?thesis
    using register_stored [OF assms(1,2)] by (simp add: check_artifact_def)
qed

theorem register_then_check_witness:
  "check_artifact (e_stat (sample_environment 7)) (sample_database 7) (hex_encode [1, 2, 3])
     = Inr Unchanged"
  using register_then_check [OF registry_empty register_sample [of 7]]
  by (simp add: sample_artifact_def sample_environment_def i64_max_def)

text \<open>a file whose modification time the table cannot hold (before the Unix epoch, or past
  \<open>i64::MAX\<close> nanoseconds) is reported changed right after it was registered, although nothing
  touched it: the stored time is clamped, and the comparison is with the exact one.\<close>

theorem register_then_check_unrepresentable:
  assumes "registry db" and "register env db path = Inr (Registered a, db')"
    and "e_lossy env (a_path a) = a_path a" and "uint (a_size a) \<le> i64_max"
    and "fp_modified (a_fingerprint a) = Some t" and "t < 0 \<or> i64_max < t"
  shows "check_artifact (e_stat env) db' (a_id a)
    = Inr (Changed ''modification time has changed since registration'')"
proof -
  obtain canonical h where new: "new_artifact env canonical h = Inr a"
    using assms(2) by (auto elim: register_cases)
  then have obs: "observe (e_stat env) (a_path a) = Some (a_fingerprint a)"
    and size: "a_size a = fp_size (a_fingerprint a)"
    by (auto elim: new_artifact_Inr)
  have "t \<noteq> max 0 (min t i64_max)" using assms(6) by (auto simp: i64_max_def)
  then have "detect_drift (e_stat env) (stored (e_lossy env) a)
      = Changed ''modification time has changed since registration''"
    using obs size assms(3-5)
    by (auto simp: detect_drift_def stored_def clamp_u64_def)
  then show ?thesis
    using register_stored [OF assms(1,2)] by (simp add: check_artifact_def)
qed

theorem register_then_check_unrepresentable_witness:
  "check_artifact (e_stat (sample_environment (- 1))) (sample_database (- 1)) (hex_encode [1, 2, 3])
     = Inr (Changed ''modification time has changed since registration'')"
  using register_then_check_unrepresentable [OF registry_empty register_sample [of "- 1"]]
  by (simp add: sample_artifact_def sample_environment_def i64_max_def)

lemma find_map_same:
  "(\<And>x. p (f x) = p x) \<Longrightarrow> find p (map f xs) = map_option f (find p xs)"
  by (induction xs) auto

lemma row_to_artifact_digest:
  "row_to_artifact (r\<lparr>c_integrity := ''verified'', c_algorithm := Some (digest_as_str Sha256),
      c_digest := Some d\<rparr>)
    = rbind (row_to_artifact r) (\<lambda>a. Inr (a\<lparr>a_integrity := Verified Sha256 d\<rparr>))"
  by (simp add: row_to_artifact_def digest_from_stored_def)

lemma get_after_update_digest:
  "get_artifact (update_digest i d db) j = rbind (get_artifact db j) (\<lambda>found.
     Inr (map_option (\<lambda>a. if j = i then a\<lparr>a_integrity := Verified Sha256 d\<rparr> else a) found))"
proof -
  let ?f = "\<lambda>r. if c_id r = i then r\<lparr>c_integrity := ''verified'',
      c_algorithm := Some (digest_as_str Sha256), c_digest := Some d\<rparr> else r"
  have found: "find (\<lambda>r. c_id r = j) (artifacts (update_digest i d db))
      = map_option ?f (find (\<lambda>r. c_id r = j) (artifacts db))"
    unfolding update_digest_def by (simp add: find_map_same)
  show ?thesis
  proof (cases "find (\<lambda>r. c_id r = j) (artifacts db)")
    case None
    with found show ?thesis by (simp add: get_artifact_def query_optional_def)
  next
    case (Some r)
    then have "c_id r = j" by (auto simp: find_Some_iff)
    with Some found show ?thesis
      by (cases "row_to_artifact r"; cases "j = i")
        (simp_all add: get_artifact_def query_optional_def row_to_artifact_digest del: digest_as_str.simps)
  qed
qed

text \<open>verifying records the digest of the bytes that were read for that one artifact: it is
  reported verified with exactly that digest from then on, and nothing else about it or about
  any other artifact changes.\<close>

theorem verify_records_digest:
  assumes "verify sha256 read_file fault db i = Inr (v, db')"
  shows "\<exists>a contents. get_artifact db i = Inr (Some a) \<and> read_file (a_path a) = Inr contents
    \<and> v = Verified Sha256 (sha256 contents)
    \<and> get_artifact db' i = Inr (Some (a\<lparr>a_integrity := v\<rparr>))
    \<and> (\<forall>j. j \<noteq> i \<longrightarrow> get_artifact db' j = get_artifact db j) \<and> entries db' = entries db"
proof -
  obtain a contents where a: "get_artifact db i = Inr (Some a)" "read_file (a_path a) = Inr contents"
    "v = Verified Sha256 (sha256 contents)" "db' = update_digest i (sha256 contents) db"
    using assms by (rule verify_Inr)
  have other: "get_artifact db' j = get_artifact db j" if "j \<noteq> i" for j
    using that by (cases "get_artifact db j") (auto simp: a(4) get_after_update_digest option.map_ident)
  show ?thesis
    using a other by (auto simp: get_after_update_digest artifacts_update_digest)
qed

theorem verify_records_digest_witness:
  "\<exists>db'. verify (\<lambda>bs. [of_nat (length bs)]) (\<lambda>p. Inr [9, 9]) None (sample_database 7) (hex_encode [1, 2, 3])
      = Inr (Verified Sha256 [2], db') \<and> entries db' = entries (sample_database 7)"
proof -
  have "get_artifact (sample_database 7) (hex_encode [1, 2, 3])
      = Inr (Some (stored (\<lambda>p. p) (sample_artifact 7)))"
    by (simp add: get_artifact_def query_optional_def sample_database_def row_round_trip)
      (simp add: artifact_row_def sample_artifact_def)
  then have v: "verify (\<lambda>bs. [of_nat (length bs)]) (\<lambda>p. Inr [9, 9]) None (sample_database 7)
      (hex_encode [1, 2, 3])
    = Inr (Verified Sha256 [2], update_digest (hex_encode [1, 2, 3]) [2] (sample_database 7))"
    by (simp add: verify_def io_err_def Let_def)
  from verify_records_digest [OF v] v show ?thesis by auto
qed

text \<open>forgetting removes exactly one artifact: it is unknown afterwards and none of its
  metadata remains, every other artifact and its metadata answer as before, and the operation
  says whether there was anything to remove.\<close>

theorem forget_removes:
  assumes "forget fault db i = Inr (removed, db')"
  shows "get_artifact db' i = Inr None \<and> artifact_entries db' i = []
    \<and> (\<forall>j. j \<noteq> i \<longrightarrow> get_artifact db' j = get_artifact db j
          \<and> artifact_entries db' j = artifact_entries db j)
    \<and> (removed \<longleftrightarrow> i \<in> c_id ` set (artifacts db))"
proof -
  have db': "db' = db\<lparr>artifacts := filter (\<lambda>r. c_id r \<noteq> i) (artifacts db),
      entries := filter (\<lambda>((a, k), v). a \<noteq> i) (entries db)\<rparr>"
    and removed: "removed = (\<exists>r \<in> set (artifacts db). c_id r = i)"
    using assms by (auto simp: forget_def split: option.splits)
  have gone: "get_artifact db' i = Inr None"
    unfolding get_artifact_def by (rule query_optional_None) (simp add: db')
  have keep: "find (\<lambda>r. c_id r = j) (filter (\<lambda>r. c_id r \<noteq> i) rs) = find (\<lambda>r. c_id r = j) rs"
    if "j \<noteq> i" for j and rs :: "row list"
    using that by (induction rs) auto
  have "filter (\<lambda>((a, k), v). a = i) (filter (\<lambda>((a, k), v). a \<noteq> i) es) = []"
    for es :: "((string \<times> string) \<times> string) list"
    by (induction es) auto
  moreover have "filter (\<lambda>((a, k), v). a = j) (filter (\<lambda>((a, k), v). a \<noteq> i) es)
      = filter (\<lambda>((a, k), v). a = j) es" if "j \<noteq> i" for j and es :: "((string \<times> string) \<times> string) list"
    using that by (induction es) auto
  ultimately show ?thesis
    using gone keep removed
    by (auto simp: get_artifact_def query_optional_def artifact_entries_def db')
qed

theorem forget_removes_witness:
  "\<exists>db'. forget None (sample_database 7) (hex_encode [1, 2, 3]) = Inr (True, db')
     \<and> get_artifact db' (hex_encode [1, 2, 3]) = Inr None"
proof -
  obtain db' where f: "forget None (sample_database 7) (hex_encode [1, 2, 3]) = Inr (True, db')"
    by (auto simp: forget_def sample_database_def artifact_row_def sample_artifact_def)
  from forget_removes [OF f] f show ?thesis by blast
qed

end
