(* ===== verification/Ids.thy ===== *)
theory Ids
  imports Prelude
begin

text \<open>
  Opaque runtime identifiers (\<open>mehoy-core/src/id.rs\<close>). The three identifier types wrap a
  \<open>u64\<close>; the allocator is an atomic counter whose \<open>fetch_add\<close> wraps.
\<close>

datatype request_id = RequestId u64
datatype worker_id = WorkerId u64
datatype model_id = ModelId u64

fun request_raw :: "request_id \<Rightarrow> u64" where
  "request_raw (RequestId raw) = raw"

fun show_request_id :: "request_id \<Rightarrow> string" where
  "show_request_id (RequestId raw) = ''req'' @ ''-'' @ show_u64 raw"

fun show_worker_id :: "worker_id \<Rightarrow> string" where
  "show_worker_id (WorkerId raw) = ''wrk'' @ ''-'' @ show_u64 raw"

fun show_model_id :: "model_id \<Rightarrow> string" where
  "show_model_id (ModelId raw) = ''mdl'' @ ''-'' @ show_u64 raw"

record id_allocator =
  next_id :: u64

definition new_allocator :: id_allocator where
  "new_allocator = \<lparr>next_id = 1\<rparr>"

definition next_raw :: "id_allocator \<Rightarrow> u64 \<times> id_allocator" where
  "next_raw a = (next_id a, a\<lparr>next_id := next_id a + 1\<rparr>)"

definition allocate_request :: "id_allocator \<Rightarrow> request_id \<times> id_allocator" where
  "allocate_request a = (let (raw, a') = next_raw a in (RequestId raw, a'))"

definition allocate_worker :: "id_allocator \<Rightarrow> worker_id \<times> id_allocator" where
  "allocate_worker a = (let (raw, a') = next_raw a in (WorkerId raw, a'))"

definition allocate_model :: "id_allocator \<Rightarrow> model_id \<times> id_allocator" where
  "allocate_model a = (let (raw, a') = next_raw a in (ModelId raw, a'))"

text \<open>The identifiers of \<open>n\<close> consecutive allocations.\<close>

fun allocate_many :: "nat \<Rightarrow> id_allocator \<Rightarrow> u64 list \<times> id_allocator" where
  "allocate_many 0 a = ([], a)"
| "allocate_many (Suc n) a =
     (let (raw, a') = next_raw a; (raws, a'') = allocate_many n a' in (raw # raws, a''))"

lemma allocate_many_from:
  "allocate_many n a = (map (\<lambda>k. next_id a + of_nat k) [0..<n], a\<lparr>next_id := next_id a + of_nat n\<rparr>)"
proof (induction n arbitrary: a)
  case 0
  then show ?case by simp
next
  case (Suc n)
  have "map (\<lambda>k. next_id a + of_nat k) [0..<Suc n]
      = next_id a # map (\<lambda>k. (next_id a + 1) + of_nat k) [0..<n]"
    by (rule nth_equalityI) (auto simp: nth_Cons' algebra_simps simp del: upt_Suc)
  then show ?case
    by (simp add: Suc.IH next_raw_def algebra_simps del: upt_Suc)
qed

lemma unat_of_nat_u64: "n < 2 ^ 64 \<Longrightarrow> unat (of_nat n :: u64) = n"
  by (simp add: unat_of_nat)

lemma of_nat_u64_inject:
  "m < 2 ^ 64 \<Longrightarrow> n < 2 ^ 64 \<Longrightarrow> (of_nat m :: u64) = of_nat n \<longleftrightarrow> m = n"
  using unat_of_nat_u64 [of m] unat_of_nat_u64 [of n] by metis

text \<open>identifiers are unique for the whole life of a process: no \<open>2^64 - 1\<close> consecutive
  allocations repeat one, and none of them is zero.\<close>

theorem allocated_ids_distinct:
  assumes "n < 2 ^ 64"
  shows "distinct (fst (allocate_many n new_allocator)) \<and> 0 \<notin> set (fst (allocate_many n new_allocator))"
proof -
  have list: "fst (allocate_many n new_allocator) = map (\<lambda>k. of_nat (Suc k)) [0..<n]"
    by (simp add: allocate_many_from new_allocator_def)
  have "inj_on (\<lambda>k. of_nat (Suc k) :: u64) {0..<n}"
  proof (rule inj_onI)
    fix x y
    assume "x \<in> {0..<n}" "y \<in> {0..<n}" "of_nat (Suc x) = (of_nat (Suc y) :: u64)"
    then show "x = y" using of_nat_u64_inject [of "Suc x" "Suc y"] assms by auto
  qed
  moreover have "of_nat (Suc k) \<noteq> (0 :: u64)" if "k < n" for k
    using of_nat_u64_inject [of "Suc k" 0] that assms by simp
  ultimately show ?thesis unfolding list by (auto simp: distinct_map)
qed

theorem allocated_ids_distinct_witness:
  "distinct (fst (allocate_many 3 new_allocator)) \<and> 0 \<notin> set (fst (allocate_many 3 new_allocator))"
  by (rule allocated_ids_distinct) simp

end
