(* ===== verification/Cancel.thy ===== *)
theory Cancel
  imports Ids
begin

text \<open>
  Stopping work that is already running (\<open>mehoy-core/src/cancel.rs\<close>): causes, budgets, request
  states, the one-way cancellation token and the request handle. Every operation of a token or
  a handle happens under one lock, so it is a function from the shared state to the shared
  state; clones share that state. A \<open>Duration\<close> is its number of nanoseconds.

  \<open>RequestHandle::finish\<close> asserts in debug builds that the outcome is terminal; the model is the
  release build, and the theorems name that condition where they need it.
\<close>

type_synonym duration = nat

definition seconds :: "nat \<Rightarrow> duration" where
  "seconds n = n * 1000000000"

datatype cancellation_cause = User | StreamIdleTimeout | ConsumerGone | InstanceUnloading

fun show_cause :: "cancellation_cause \<Rightarrow> string" where
  "show_cause User = ''cancelled''"
| "show_cause StreamIdleTimeout = ''idle for longer than allowed''"
| "show_cause ConsumerGone = ''nothing was reading the output''"
| "show_cause InstanceUnloading = ''the model was being unloaded''"

record request_budget =
  stream_idle :: duration

definition DEFAULT_STREAM_IDLE :: duration where
  "DEFAULT_STREAM_IDLE = seconds 120"

definition default_request_budget :: request_budget where
  "default_request_budget = \<lparr>stream_idle = DEFAULT_STREAM_IDLE\<rparr>"

record unload_budget =
  drain_budget :: duration

definition DEFAULT_DRAIN :: duration where
  "DEFAULT_DRAIN = seconds 10"

definition default_unload_budget :: unload_budget where
  "default_unload_budget = \<lparr>drain_budget = DEFAULT_DRAIN\<rparr>"

datatype request_state = Starting | Running | Cancelling | Completed | Cancelled | Failed

fun is_terminal :: "request_state \<Rightarrow> bool" where
  "is_terminal Completed = True"
| "is_terminal Cancelled = True"
| "is_terminal Failed = True"
| "is_terminal _ = False"

fun show_request_state :: "request_state \<Rightarrow> string" where
  "show_request_state Starting = ''starting''"
| "show_request_state Running = ''running''"
| "show_request_state Cancelling = ''cancelling''"
| "show_request_state Completed = ''completed''"
| "show_request_state Cancelled = ''cancelled''"
| "show_request_state Failed = ''failed''"

datatype cancellation_strategy = ConnectionAbort

fun show_strategy :: "cancellation_strategy \<Rightarrow> string" where
  "show_strategy ConnectionAbort = ''by closing the request's connection''"

section \<open>Token and handle\<close>

type_synonym token = "cancellation_cause option"

definition new_token :: token where
  "new_token = None"

definition token_cancel :: "cancellation_cause \<Rightarrow> token \<Rightarrow> bool \<times> token" where
  "token_cancel cause t = (case t of None \<Rightarrow> (True, Some cause) | Some c \<Rightarrow> (False, Some c))"

definition token_is_cancelled :: "token \<Rightarrow> bool" where
  "token_is_cancelled t = (t \<noteq> None)"

record request_handle =
  h_id :: request_id
  h_state :: request_state
  h_token :: token

definition new_handle :: "request_id \<Rightarrow> request_handle" where
  "new_handle i = \<lparr>h_id = i, h_state = Starting, h_token = new_token\<rparr>"

definition handle_is_terminal :: "request_handle \<Rightarrow> bool" where
  "handle_is_terminal h = is_terminal (h_state h)"

definition mark_running :: "request_handle \<Rightarrow> request_handle" where
  "mark_running h = (if h_state h = Starting then h\<lparr>h_state := Running\<rparr> else h)"

definition request_cancellation ::
    "cancellation_cause \<Rightarrow> request_handle \<Rightarrow> bool \<times> request_handle" where
  "request_cancellation cause h =
     (if is_terminal (h_state h) then (False, h)
      else
        let (claimed, t) = token_cancel cause (h_token h);
            h = h\<lparr>h_token := t\<rparr>
        in (claimed, if claimed then h\<lparr>h_state := Cancelling\<rparr> else h))"

definition finish :: "request_state \<Rightarrow> request_handle \<Rightarrow> bool \<times> request_handle" where
  "finish outcome h =
     (if is_terminal (h_state h) then (False, h) else (True, h\<lparr>h_state := outcome\<rparr>))"

text \<open>The execution task also cancels the token directly, when its idle budget runs out.\<close>

definition handle_token_cancel ::
    "cancellation_cause \<Rightarrow> request_handle \<Rightarrow> bool \<times> request_handle" where
  "handle_token_cancel cause h =
     (let (claimed, t) = token_cancel cause (h_token h) in (claimed, h\<lparr>h_token := t\<rparr>))"

section \<open>Cells that are written once\<close>

text \<open>
  The interface both the token and the handle offer: a cell that is empty at first, and of all
  the writes that race for it exactly the first that claims it counts. \<open>step\<close> is any operation
  of the object, \<open>writes\<close> the value an operation tries to store, and \<open>cell\<close> what is stored.
\<close>

locale write_once =
  fixes step :: "'op \<Rightarrow> 's \<Rightarrow> bool \<times> 's"
    and writes :: "'op \<Rightarrow> 'v option"
    and cell :: "'s \<Rightarrow> 'v option"
    and legal :: "'op \<Rightarrow> bool"
  assumes keeps: "legal op \<Longrightarrow> cell s = Some v \<Longrightarrow> step op s = (b, s') \<Longrightarrow>
      cell s' = Some v \<and> (b \<longrightarrow> writes op = None)"
    and claims: "legal op \<Longrightarrow> cell s = None \<Longrightarrow> step op s = (True, s') \<Longrightarrow> writes op = Some v \<Longrightarrow>
      cell s' = Some v"
    and ignores: "legal op \<Longrightarrow> cell s = None \<Longrightarrow> step op s = (b, s') \<Longrightarrow>
      \<not> b \<or> writes op = None \<Longrightarrow> cell s' = None"
begin

fun run :: "'op list \<Rightarrow> 's \<Rightarrow> ('op \<times> bool) list \<times> 's" where
  "run [] s = ([], s)"
| "run (op # ops) s =
     (let (b, s') = step op s; (log, s'') = run ops s' in ((op, b) # log, s''))"

fun claimed :: "('op \<times> bool) list \<Rightarrow> 'v list" where
  "claimed [] = []"
| "claimed ((op, b) # log) =
     (case writes op of Some v \<Rightarrow> if b then v # claimed log else claimed log
      | None \<Rightarrow> claimed log)"

lemma run_written:
  "list_all legal ops \<Longrightarrow> cell s = Some v \<Longrightarrow> run ops s = (log, s') \<Longrightarrow>
   cell s' = Some v \<and> claimed log = []"
proof (induction ops arbitrary: s log s')
  case Nil
  then show ?case by auto
next
  case (Cons op ops)
  obtain b s1 where st: "step op s = (b, s1)" by (cases "step op s")
  obtain log1 s2 where run: "run ops s1 = (log1, s2)" by (cases "run ops s1")
  have "cell s1 = Some v" and b: "b \<longrightarrow> writes op = None"
    using keeps [OF _ Cons.prems(2) st] Cons.prems(1) by auto
  with Cons.IH [OF _ _ run] Cons.prems(1) have "cell s2 = Some v \<and> claimed log1 = []" by simp
  with b Cons.prems(3) st run show ?case by (auto split: option.splits)
qed

lemma run_first_claim_wins:
  "list_all legal ops \<Longrightarrow> cell s = None \<Longrightarrow> run ops s = (log, s') \<Longrightarrow>
   claimed log = (case cell s' of None \<Rightarrow> [] | Some v \<Rightarrow> [v])"
proof (induction ops arbitrary: s log s')
  case Nil
  then show ?case by auto
next
  case (Cons op ops)
  obtain b s1 where st: "step op s = (b, s1)" by (cases "step op s")
  obtain log1 s2 where run: "run ops s1 = (log1, s2)" by (cases "run ops s1")
  from Cons.prems(3) st run have log: "log = (op, b) # log1" "s' = s2" by auto
  have legal: "legal op" "list_all legal ops" using Cons.prems(1) by auto
  show ?case
  proof (cases "b \<and> writes op \<noteq> None")
    case True
    then obtain v where v: "writes op = Some v" by blast
    then have "cell s1 = Some v" using claims [OF legal(1) Cons.prems(2)] st True by auto
    from run_written [OF legal(2) this run] True v log show ?thesis by simp
  next
    case False
    then have "cell s1 = None" using ignores [OF legal(1) Cons.prems(2) st] by auto
    from Cons.IH [OF legal(2) this run] False log show ?thesis by (auto split: option.splits)
  qed
qed

end

section \<open>Runs of a handle\<close>

datatype handle_op =
  MarkRunning | RequestCancel cancellation_cause | Finish request_state
| TokenCancel cancellation_cause

fun handle_step :: "handle_op \<Rightarrow> request_handle \<Rightarrow> bool \<times> request_handle" where
  "handle_step MarkRunning h = (False, mark_running h)"
| "handle_step (RequestCancel c) h = request_cancellation c h"
| "handle_step (Finish st) h = finish st h"
| "handle_step (TokenCancel c) h = handle_token_cancel c h"

fun writes_outcome :: "handle_op \<Rightarrow> request_state option" where
  "writes_outcome (Finish st) = Some st"
| "writes_outcome _ = None"

fun writes_cause :: "handle_op \<Rightarrow> cancellation_cause option" where
  "writes_cause (RequestCancel c) = Some c"
| "writes_cause (TokenCancel c) = Some c"
| "writes_cause _ = None"

definition outcome_of :: "request_handle \<Rightarrow> request_state option" where
  "outcome_of h = (if is_terminal (h_state h) then Some (h_state h) else None)"

fun legal_op :: "handle_op \<Rightarrow> bool" where
  "legal_op (Finish st) = is_terminal st"
| "legal_op _ = True"

lemmas handle_op_defs = mark_running_def request_cancellation_def finish_def
  handle_token_cancel_def token_cancel_def

interpretation outcome: write_once handle_step writes_outcome outcome_of legal_op
proof (unfold_locales, goal_cases)
  case (1 op s v b s')
  then show ?case by (cases op)
    (auto simp: outcome_of_def handle_op_defs Let_def split: if_splits option.splits)
next
  case (2 op s s' v)
  then show ?case by (cases op) (auto simp: outcome_of_def handle_op_defs split: if_splits)
next
  case (3 op s b s')
  then show ?case by (cases op)
    (auto simp: outcome_of_def handle_op_defs Let_def split: if_splits option.splits)
qed

interpretation cause: write_once handle_step writes_cause h_token "\<lambda>_. True"
proof (unfold_locales, goal_cases)
  case (1 op s v b s')
  then show ?case by (cases op)
    (auto simp: handle_op_defs Let_def split: if_splits option.splits)
next
  case (2 op s s' v)
  then show ?case by (cases op) (auto simp: handle_op_defs Let_def split: if_splits)
next
  case (3 op s b s')
  then show ?case by (cases op)
    (auto simp: handle_op_defs Let_def split: if_splits option.splits)
qed

fun run_handle :: "handle_op list \<Rightarrow> request_handle \<Rightarrow> (handle_op \<times> bool) list \<times> request_handle" where
  "run_handle [] h = ([], h)"
| "run_handle (op # ops) h =
     (let (b, h') = handle_step op h; (log, h'') = run_handle ops h' in ((op, b) # log, h''))"

fun claimed_outcomes :: "(handle_op \<times> bool) list \<Rightarrow> request_state list" where
  "claimed_outcomes [] = []"
| "claimed_outcomes ((op, b) # log) =
     (case writes_outcome op of
        Some v \<Rightarrow> if b then v # claimed_outcomes log else claimed_outcomes log
      | None \<Rightarrow> claimed_outcomes log)"

fun claimed_causes :: "(handle_op \<times> bool) list \<Rightarrow> cancellation_cause list" where
  "claimed_causes [] = []"
| "claimed_causes ((op, b) # log) =
     (case writes_cause op of
        Some v \<Rightarrow> if b then v # claimed_causes log else claimed_causes log
      | None \<Rightarrow> claimed_causes log)"

lemma outcome_run [simp]: "outcome.run ops h = run_handle ops h"
  by (induction ops arbitrary: h) (auto simp: Let_def split: prod.splits)

lemma cause_run [simp]: "cause.run ops h = run_handle ops h"
  by (induction ops arbitrary: h) (auto simp: Let_def split: prod.splits)

lemma outcome_claimed [simp]: "outcome.claimed log = claimed_outcomes log"
  by (induction log rule: claimed_outcomes.induct) (auto split: option.splits)

lemma cause_claimed [simp]: "cause.claimed log = claimed_causes log"
  by (induction log rule: claimed_causes.induct) (auto split: option.splits)

text \<open>How far a request has got: no operation ever moves it back.\<close>

fun progress :: "request_state \<Rightarrow> nat" where
  "progress Starting = 0"
| "progress Running = 1"
| "progress Cancelling = 2"
| "progress _ = 3"

lemma progress_3_iff: "progress s = 3 \<longleftrightarrow> is_terminal s"
  by (cases s) auto

lemma progress_le_3: "progress s \<le> 3"
  by (cases s) auto

lemma handle_step_progress:
  assumes "legal_op op" and "handle_step op h = (b, h')"
  shows "progress (h_state h) \<le> progress (h_state h')"
proof (cases op)
  case (Finish st)
  then have "progress st = 3" using assms(1) progress_3_iff by simp
  with Finish assms(2) progress_le_3 show ?thesis by (auto simp: finish_def split: if_splits)
next
  case MarkRunning
  with assms(2) show ?thesis by (auto simp: mark_running_def)
next
  case (RequestCancel c)
  with assms(2) show ?thesis
    by (cases "h_state h")
      (auto simp: request_cancellation_def token_cancel_def Let_def split: option.splits)
next
  case (TokenCancel c)
  with assms(2) show ?thesis
    by (auto simp: handle_token_cancel_def token_cancel_def split: option.splits)
qed

definition handle_inv :: "request_handle \<Rightarrow> bool" where
  "handle_inv h \<longleftrightarrow> (h_state h = Cancelling \<longrightarrow> h_token h \<noteq> None)"

lemma handle_step_inv:
  "legal_op op \<Longrightarrow> handle_step op h = (b, h') \<Longrightarrow> handle_inv h \<Longrightarrow> handle_inv h'"
  by (cases op)
     (auto simp: handle_op_defs handle_inv_def Let_def split: if_splits option.splits)

lemma handle_step_id: "handle_step op h = (b, h') \<Longrightarrow> h_id h' = h_id h"
  by (cases op) (auto simp: handle_op_defs Let_def split: if_splits option.splits)

lemma run_handle_inv:
  "list_all legal_op ops \<Longrightarrow> run_handle ops h = (log, h') \<Longrightarrow> handle_inv h \<Longrightarrow>
   handle_inv h' \<and> h_id h' = h_id h \<and> progress (h_state h) \<le> progress (h_state h')"
proof (induction ops arbitrary: h log h')
  case Nil
  then show ?case by simp
next
  case (Cons op ops)
  obtain b h1 where st: "handle_step op h = (b, h1)" by (cases "handle_step op h")
  obtain log1 h2 where run: "run_handle ops h1 = (log1, h2)" by (cases "run_handle ops h1")
  have legal: "legal_op op" "list_all legal_op ops" using Cons.prems(1) by auto
  have "h' = h2" using Cons.prems(2) st run by simp
  with Cons.IH [OF legal(2) run handle_step_inv [OF legal(1) st Cons.prems(3)]]
    handle_step_id [OF st] handle_step_progress [OF legal(1) st]
  show ?case by (metis order_trans)
qed

section \<open>Properties\<close>

text \<open>C7: a request has one outcome. Whatever operations race on a fresh handle, in any order,
  at most one \<open>finish\<close> reports that it decided the outcome, exactly one does once the request
  has ended, and the state the request ends in is the one that call recorded.\<close>

theorem one_outcome:
  assumes "list_all legal_op ops" and "run_handle ops (new_handle i) = (log, h)"
  shows "claimed_outcomes log = (if is_terminal (h_state h) then [h_state h] else [])"
  using outcome.run_first_claim_wins [of ops "new_handle i"] assms
  by (auto simp: outcome_of_def new_handle_def)

theorem one_outcome_witness:
  "claimed_outcomes (fst (run_handle
     [MarkRunning, RequestCancel User, Finish Cancelled, Finish Completed] (new_handle (RequestId 1))))
   = [Cancelled]"
proof -
  obtain log h where r: "run_handle [MarkRunning, RequestCancel User, Finish Cancelled, Finish Completed]
      (new_handle (RequestId 1)) = (log, h)" and h: "h_state h = Cancelled"
    by (simp add: new_handle_def new_token_def handle_op_defs)
  have "list_all legal_op [MarkRunning, RequestCancel User, Finish Cancelled, Finish Completed]" by simp
  from one_outcome [OF this r] r h show ?thesis by simp
qed

text \<open>
  The attempts to stop a request that come in time, in order: a handle refuses one once the request
  has ended, the token itself takes one at any time.
\<close>

fun attempts :: "handle_op list \<Rightarrow> request_handle \<Rightarrow> cancellation_cause list" where
  "attempts [] h = []"
| "attempts (op # ops) h =
     (case op of
        RequestCancel c \<Rightarrow> if is_terminal (h_state h) then [] else [c]
      | TokenCancel c \<Rightarrow> [c]
      | _ \<Rightarrow> []) @ attempts ops (snd (handle_step op h))"

lemma first_attempt_claims:
  "h_token h = None \<Longrightarrow> run_handle ops h = (log, h') \<Longrightarrow>
   claimed_causes log = take 1 (attempts ops h)
   \<and> h_token h' = (case attempts ops h of [] \<Rightarrow> None | c # _ \<Rightarrow> Some c)"
proof (induction ops arbitrary: h log)
  case (Cons op ops)
  obtain b h1 where st: "handle_step op h = (b, h1)" by (cases "handle_step op h")
  obtain log1 where run: "run_handle ops h1 = (log1, h')" and log: "log = (op, b) # log1"
    using Cons.prems(2) st by (auto split: prod.splits)
  have written: "claimed_causes log1 = [] \<and> h_token h' = Some c" if "h_token h1 = Some c" for c
    using cause.run_written [of ops h1 c log1 h'] run that by (simp add: list_all_iff)
  note IH = Cons.IH [OF _ run]
  show ?case
  proof (cases op)
    case MarkRunning
    with st Cons.prems(1) IH log show ?thesis by (auto simp: mark_running_def)
  next
    case (Finish st')
    with st Cons.prems(1) IH log show ?thesis by (auto simp: finish_def split: if_splits)
  next
    case (TokenCancel c)
    with st Cons.prems(1) written [of c] log show ?thesis
      by (auto simp: handle_token_cancel_def token_cancel_def)
  next
    case (RequestCancel c)
    with st Cons.prems(1) IH written [of c] log show ?thesis
      by (auto simp: request_cancellation_def token_cancel_def Let_def split: if_splits)
  qed
qed simp

text \<open>C8: the first cause wins. Of all the attempts to stop a request that come in time, by a caller,
  by its idle budget, by a vanished consumer or by an unload, the first is told that it was the
  one, and nobody else is; its cause is the one the request reports from then on, and only a request
  that nobody tried to stop in time reports none.\<close>

theorem first_cause_wins:
  assumes "run_handle ops (new_handle i) = (log, h)"
  shows "claimed_causes log = take 1 (attempts ops (new_handle i))
    \<and> h_token h = (case attempts ops (new_handle i) of [] \<Rightarrow> None | c # _ \<Rightarrow> Some c)"
  using first_attempt_claims [OF _ assms] by (simp add: new_handle_def new_token_def)

theorem first_cause_wins_witness:
  "claimed_causes (fst (run_handle [TokenCancel StreamIdleTimeout, RequestCancel User]
     (new_handle (RequestId 1)))) = [StreamIdleTimeout]"
proof -
  obtain log h where r: "run_handle [TokenCancel StreamIdleTimeout, RequestCancel User]
      (new_handle (RequestId 1)) = (log, h)" by fastforce
  from first_cause_wins [OF r] r show ?thesis by simp
qed

text \<open>a request only moves forward (starting, running, cancelling, ended), whatever races on
  its handle; one that is being cancelled has a recorded cause; and its identity never changes.\<close>

theorem request_moves_forward:
  assumes "list_all legal_op (before @ after)"
    and "run_handle before (new_handle i) = (log1, h1)" and "run_handle after h1 = (log2, h2)"
  shows "progress (h_state h1) \<le> progress (h_state h2) \<and> h_id h2 = i
    \<and> (h_state h2 = Cancelling \<longrightarrow> h_token h2 \<noteq> None)
    \<and> (is_terminal (h_state h1) \<longrightarrow> h_state h2 = h_state h1)"
proof -
  have legal: "list_all legal_op before" "list_all legal_op after" using assms(1) by auto
  have "handle_inv (new_handle i)" by (simp add: handle_inv_def new_handle_def)
  from run_handle_inv [OF legal(1) assms(2) this] have h1: "handle_inv h1" "h_id h1 = i"
    by (simp_all add: new_handle_def)
  from run_handle_inv [OF legal(2) assms(3) h1(1)] have h2: "handle_inv h2" "h_id h2 = h_id h1"
    "progress (h_state h1) \<le> progress (h_state h2)" by simp_all
  have "h_state h2 = h_state h1" if "is_terminal (h_state h1)"
    using outcome.run_written [OF legal(2), of h1 "h_state h1"] assms(3) that
    by (auto simp: outcome_of_def split: if_splits)
  with h1 h2 show ?thesis by (simp add: handle_inv_def)
qed

theorem request_moves_forward_witness:
  "h_state (snd (run_handle [MarkRunning, RequestCancel User]
     (snd (run_handle [Finish Completed] (new_handle (RequestId 4)))))) = Completed"
proof -
  obtain log1 h1 log2 h2 where r1: "run_handle [Finish Completed] (new_handle (RequestId 4)) = (log1, h1)"
    and r2: "run_handle [MarkRunning, RequestCancel User] h1 = (log2, h2)" by fastforce
  have "list_all legal_op ([Finish Completed] @ [MarkRunning, RequestCancel User])" by simp
  from request_moves_forward [OF this r1 r2] r1 r2 show ?thesis
    by (auto simp: finish_def new_handle_def)
qed

end
