(* ===== verification/Inference.thy ===== *)
theory Inference
  imports Cancel
begin

text \<open>
  The runtime's own representation of requests and results (\<open>mehoy-core/src/inference.rs\<close>):
  tasks, embedding requests and results with their structural validation, text generation
  requests with the validation of their parameters, and generation results.

  An \<open>f32\<close> is its IEEE bit pattern; the one thing about floating point that needs more than the
  pattern, its decimal rendering in an error message, is the argument \<open>show_f32\<close>.
\<close>

section \<open>Tasks\<close>

datatype task = Embed | GenerateText | Custom string

fun show_task :: "task \<Rightarrow> string" where
  "show_task Embed = ''embed''"
| "show_task GenerateText = ''generate-text''"
| "show_task (Custom i) = ''custom:'' @ i"

section \<open>Floating point patterns\<close>

type_synonym f32 = u32

definition f32_is_finite :: "f32 \<Rightarrow> bool" where
  "f32_is_finite w = (unat w div 8388608 mod 256 \<noteq> 255)"

text \<open>\<open>x < 0.0\<close>: the sign bit is set and the value is neither negative zero nor NaN.\<close>

definition f32_is_negative :: "f32 \<Rightarrow> bool" where
  "f32_is_negative w = (2147483648 < w \<and> w \<le> 4286578688)"

section \<open>Embedding\<close>

record embed_request =
  inputs :: "string list"

definition embed_single :: "string \<Rightarrow> embed_request" where
  "embed_single s = \<lparr>inputs = [s]\<rparr>"

definition embed_batch :: "string list \<Rightarrow> embed_request" where
  "embed_batch ss = \<lparr>inputs = ss\<rparr>"

definition embed_len :: "embed_request \<Rightarrow> nat" where
  "embed_len r = length (inputs r)"

definition embed_is_empty :: "embed_request \<Rightarrow> bool" where
  "embed_is_empty r = (inputs r = [])"

record embedding =
  e_index :: nat
  e_vector :: "f32 list"

definition embedding_dimension :: "embedding \<Rightarrow> nat" where
  "embedding_dimension e = length (e_vector e)"

definition embedding_is_finite :: "embedding \<Rightarrow> bool" where
  "embedding_is_finite e = list_all f32_is_finite (e_vector e)"

type_synonym embedding_result = "embedding list"

definition for_input :: "nat \<Rightarrow> embedding_result \<Rightarrow> embedding option" where
  "for_input i r = find (\<lambda>e. e_index e = i) r"

definition result_dimension :: "embedding_result \<Rightarrow> nat option" where
  "result_dimension r = (case map embedding_dimension r of
     [] \<Rightarrow> None
   | first # rest \<Rightarrow> if list_all (\<lambda>d. d = first) rest then Some first else None)"

datatype result_defect =
  CountMismatch nat nat
| EmptyVector nat
| NonFiniteValue nat
| InconsistentDimension
| UnattributableIndex nat

fun show_result_defect :: "result_defect \<Rightarrow> string" where
  "show_result_defect (CountMismatch expected actual) =
     ''expected '' @ show_nat expected @ '' embedding(s) for '' @ show_nat expected
     @ '' input(s), got '' @ show_nat actual"
| "show_result_defect (EmptyVector i) = ''the embedding for input '' @ show_nat i @ '' is empty''"
| "show_result_defect (NonFiniteValue i) =
     ''the embedding for input '' @ show_nat i @ '' contains a value that is not finite''"
| "show_result_defect InconsistentDimension =
     ''the embeddings in one response have differing dimensions''"
| "show_result_defect (UnattributableIndex i) =
     ''the response contains an unexpected or duplicate index '' @ show_nat i"

text \<open>The loop of \<open>validate\<close>: \<open>seen\<close> is its vector of flags.\<close>

fun validate_embeddings :: "bool list \<Rightarrow> embedding list \<Rightarrow> result_defect + unit" where
  "validate_embeddings seen [] = Inr ()"
| "validate_embeddings seen (e # es) =
     (if length seen \<le> e_index e then Inl (UnattributableIndex (e_index e))
      else if seen ! e_index e then Inl (UnattributableIndex (e_index e))
      else if e_vector e = [] then Inl (EmptyVector (e_index e))
      else if \<not> embedding_is_finite e then Inl (NonFiniteValue (e_index e))
      else validate_embeddings (seen[e_index e := True]) es)"

definition validate :: "embed_request \<Rightarrow> embedding_result \<Rightarrow> result_defect + unit" where
  "validate request result =
     (if length result \<noteq> embed_len request
      then Inl (CountMismatch (embed_len request) (length result))
      else rbind (validate_embeddings (replicate (embed_len request) False) result)
        (\<lambda>_. if result_dimension result = None then Inl InconsistentDimension else Inr ()))"

section \<open>Text generation\<close>

datatype text_input = Continuation string

fun text_input_as_str :: "text_input \<Rightarrow> string" where
  "text_input_as_str (Continuation t) = t"

definition MAX_STOP_SEQUENCES :: nat where
  "MAX_STOP_SEQUENCES = 8"

definition MAX_STOP_SEQUENCE_BYTES :: nat where
  "MAX_STOP_SEQUENCE_BYTES = 256"

record generation_parameters =
  max_output_tokens :: "u32 option"
  temperature :: "f32 option"
  seed :: "u64 option"
  stop :: "string list"

definition default_parameters :: generation_parameters where
  "default_parameters =
     \<lparr>max_output_tokens = None, temperature = None, seed = None, stop = []\<rparr>"

datatype invalid_generation_parameter =
  Temperature string
| MaxOutputTokens string
| StopSequences string

fun show_invalid_parameter :: "invalid_generation_parameter \<Rightarrow> string" where
  "show_invalid_parameter (Temperature reason) = ''temperature is invalid: '' @ reason"
| "show_invalid_parameter (MaxOutputTokens reason) = ''max_output_tokens is invalid: '' @ reason"
| "show_invalid_parameter (StopSequences reason) = ''stop sequences are invalid: '' @ reason"

definition validate_temperature ::
    "(f32 \<Rightarrow> string) \<Rightarrow> f32 option \<Rightarrow> invalid_generation_parameter + unit" where
  "validate_temperature show_f32 t = (case t of
     None \<Rightarrow> Inr ()
   | Some w \<Rightarrow>
       if \<not> f32_is_finite w then Inl (Temperature (show_f32 w @ '' is not a finite number''))
       else if f32_is_negative w then Inl (Temperature (show_f32 w @ '' is negative''))
       else Inr ())"

fun validate_stops :: "string list \<Rightarrow> invalid_generation_parameter + unit" where
  "validate_stops [] = Inr ()"
| "validate_stops (s # ss) =
     (if s = [] then Inl (StopSequences ''an empty sequence would stop generation immediately'')
      else if MAX_STOP_SEQUENCE_BYTES < length s
      then Inl (StopSequences (''a sequence of '' @ show_nat (length s)
        @ '' bytes exceeds the limit of '' @ show_nat MAX_STOP_SEQUENCE_BYTES))
      else validate_stops ss)"

definition validate_parameters ::
    "(f32 \<Rightarrow> string) \<Rightarrow> generation_parameters \<Rightarrow> invalid_generation_parameter + unit" where
  "validate_parameters show_f32 p =
     rbind (validate_temperature show_f32 (temperature p)) (\<lambda>_.
       if max_output_tokens p = Some 0
       then Inl (MaxOutputTokens ''zero asks for no output at all'')
       else if MAX_STOP_SEQUENCES < length (stop p)
       then Inl (StopSequences (show_nat (length (stop p)) @ '' sequences exceeds the limit of ''
         @ show_nat MAX_STOP_SEQUENCES))
       else validate_stops (stop p))"

record generate_text_request =
  gt_input :: text_input
  gt_parameters :: generation_parameters

definition continuation :: "string \<Rightarrow> generate_text_request" where
  "continuation s = \<lparr>gt_input = Continuation s, gt_parameters = default_parameters\<rparr>"

definition with_parameters ::
    "generation_parameters \<Rightarrow> generate_text_request \<Rightarrow> generate_text_request" where
  "with_parameters p r = r\<lparr>gt_parameters := p\<rparr>"

datatype finish_reason = Stop | Length | Other string

fun show_finish_reason :: "finish_reason \<Rightarrow> string" where
  "show_finish_reason Stop = ''stop''"
| "show_finish_reason Length = ''length''"
| "show_finish_reason (Other reason) = ''other:'' @ reason"

record generation_usage =
  input_tokens :: u64
  output_tokens :: u64

record generation_result =
  g_text :: string
  g_finish_reason :: finish_reason
  g_usage :: "generation_usage option"

datatype generation_defect = NoContent | ImplausibleUsage string

fun show_generation_defect :: "generation_defect \<Rightarrow> string" where
  "show_generation_defect NoContent = ''the backend reported success but generated no content''"
| "show_generation_defect (ImplausibleUsage reason) =
     ''the reported token usage is not plausible: '' @ reason"

definition validate_generation :: "generation_result \<Rightarrow> generation_defect + unit" where
  "validate_generation r =
     (if g_text r = [] then Inl NoContent
      else case g_usage r of
        Some u \<Rightarrow>
          if output_tokens u = 0
          then Inl (ImplausibleUsage ''content was returned but no output tokens were reported'')
          else Inr ()
      | None \<Rightarrow> Inr ())"

section \<open>Lemmas\<close>

lemma validate_embeddings_ok:
  "validate_embeddings seen es = Inr () \<longleftrightarrow>
     distinct (map e_index es)
     \<and> (\<forall>e\<in>set es. e_index e < length seen \<and> \<not> seen ! e_index e
          \<and> e_vector e \<noteq> [] \<and> embedding_is_finite e)"
proof (induction es arbitrary: seen)
  case (Cons e es)
  show ?case
  proof (cases "e_index e < length seen \<and> \<not> seen ! e_index e \<and> e_vector e \<noteq> [] \<and> embedding_is_finite e")
    case True
    then have "validate_embeddings seen (e # es) = Inr () \<longleftrightarrow>
        distinct (map e_index es) \<and>
        (\<forall>x\<in>set es. e_index x < length seen \<and> \<not> seen[e_index e := True] ! e_index x
          \<and> e_vector x \<noteq> [] \<and> embedding_is_finite x)"
      using Cons.IH [of "seen[e_index e := True]"] by simp
    also have "\<dots> \<longleftrightarrow> distinct (map e_index es) \<and>
        (\<forall>x\<in>set es. e_index x < length seen \<and> (e_index x \<noteq> e_index e \<and> \<not> seen ! e_index x)
          \<and> e_vector x \<noteq> [] \<and> embedding_is_finite x)"
      using True by (intro conj_cong ball_cong refl) (auto simp: nth_list_update)
    finally show ?thesis using True by auto (metis imageI)+
  next
    case False
    then show ?thesis by auto
  qed
qed simp

lemma result_dimension_Some:
  "result_dimension r = Some d \<longleftrightarrow> r \<noteq> [] \<and> (\<forall>e\<in>set r. embedding_dimension e = d)"
  by (cases r) (auto simp: result_dimension_def list_all_iff)

lemma result_dimension_not_None:
  "result_dimension r \<noteq> None \<longleftrightarrow> r \<noteq> [] \<and> (\<exists>d. \<forall>e\<in>set r. embedding_dimension e = d)"
  using result_dimension_Some [of r] by (cases "result_dimension r") auto

text \<open>\<open>n\<close> distinct indices below \<open>n\<close> are all of them.\<close>

lemma distinct_indices_cover:
  assumes "distinct is" and "\<forall>i\<in>set is. i < length is"
  shows "set is = {0..<length is}"
  using assms by (intro card_subset_eq) (auto simp: distinct_card)

lemma validate_ok_iff:
  "validate request result = Inr () \<longleftrightarrow>
     length result = embed_len request \<and> result \<noteq> [] \<and> distinct (map e_index result)
     \<and> (\<forall>e\<in>set result. e_index e < embed_len request \<and> e_vector e \<noteq> [] \<and> embedding_is_finite e)
     \<and> (\<exists>d. \<forall>e\<in>set result. embedding_dimension e = d)"
proof (cases "length result = embed_len request")
  case False
  then show ?thesis by (auto simp: validate_def)
next
  case True
  have "validate request result = Inr () \<longleftrightarrow>
      validate_embeddings (replicate (embed_len request) False) result = Inr ()
      \<and> result_dimension result \<noteq> None"
    using True by (auto simp: validate_def rbind_eq_Inr)
  then show ?thesis
    unfolding validate_embeddings_ok result_dimension_not_None using True by auto
qed

lemma for_input_found:
  "distinct (map e_index r) \<Longrightarrow> e \<in> set r \<Longrightarrow> for_input (e_index e) r = Some e"
proof (induction r)
  case (Cons x r)
  then show ?case by (cases "x = e") (auto simp: for_input_def)
qed simp

lemma validate_stops_ok:
  "validate_stops ss = Inr () \<longleftrightarrow> (\<forall>s\<in>set ss. s \<noteq> [] \<and> length s \<le> MAX_STOP_SEQUENCE_BYTES)"
  by (induction ss) auto

section \<open>Properties\<close>

text \<open>an embedding response that passes validation answers the request: it is not empty,
  there is exactly one vector for each input and none for anything else, looking an input up
  finds its own vector, and all the vectors are non-empty, finite and of the one dimension the
  result reports. In particular no response to an empty request ever validates.\<close>

theorem validated_embeddings:
  assumes "validate request result = Inr ()"
  shows "0 < embed_len request \<and> length result = embed_len request
    \<and> (\<exists>d > 0. result_dimension result = Some d \<and>
        (\<forall>i < embed_len request. \<exists>e. for_input i result = Some e \<and> e_index e = i
           \<and> embedding_dimension e = d \<and> embedding_is_finite e))
    \<and> (\<forall>i \<ge> embed_len request. for_input i result = None)"
proof -
  let ?n = "embed_len request"
  from assms have len: "length result = ?n" and ne: "result \<noteq> []"
    and dist: "distinct (map e_index result)"
    and each: "\<And>e. e \<in> set result \<Longrightarrow> e_index e < ?n \<and> e_vector e \<noteq> [] \<and> embedding_is_finite e"
    and "\<exists>d. \<forall>e\<in>set result. embedding_dimension e = d"
    unfolding validate_ok_iff by auto
  then obtain d where d: "\<forall>e\<in>set result. embedding_dimension e = d" by blast
  have cover: "set (map e_index result) = {0..<?n}"
    using distinct_indices_cover [OF dist] each len by simp
  have "\<exists>e. for_input i result = Some e \<and> e_index e = i \<and> embedding_dimension e = d
      \<and> embedding_is_finite e" if "i < ?n" for i
  proof -
    have "i \<in> set (map e_index result)" using that unfolding cover by simp
    then obtain e where "e \<in> set result" "e_index e = i" by auto
    with for_input_found [OF dist] d each show ?thesis by auto
  qed
  moreover have "for_input i result = None" if "?n \<le> i" for i
    using each that by (force simp: for_input_def find_None_iff)
  moreover have "0 < d" using d each ne by (cases result) (auto simp: embedding_dimension_def)
  moreover have "result_dimension result = Some d" using d ne by (simp add: result_dimension_Some)
  moreover have "0 < ?n" using len ne by (cases result) auto
  ultimately show ?thesis using len by auto
qed

theorem validated_embeddings_witness:
  "validate (embed_batch [''a'', ''b''])
     [\<lparr>e_index = 1, e_vector = [0, 1]\<rparr>, \<lparr>e_index = 0, e_vector = [2, 3]\<rparr>] = Inr ()
   \<and> result_dimension [\<lparr>e_index = 1, e_vector = [0, 1]\<rparr>, \<lparr>e_index = 0, e_vector = [2, 3]\<rparr>] \<noteq> None"
proof -
  have v: "validate (embed_batch [''a'', ''b''])
     [\<lparr>e_index = 1, e_vector = [0, 1]\<rparr>, \<lparr>e_index = 0, e_vector = [2, 3]\<rparr>] = Inr ()"
    by (simp add: validate_def embed_batch_def embed_len_def embedding_is_finite_def
        f32_is_finite_def result_dimension_def embedding_dimension_def)
  with validated_embeddings [OF v] show ?thesis by auto
qed

text \<open>generation parameters are accepted exactly when the temperature, if given, is a
  non-negative finite number, the token budget is not zero, and there are at most eight stop
  sequences of 1 to 256 bytes each; nothing is clamped, so anything else is an error.\<close>

theorem validate_parameters_ok_iff:
  "validate_parameters show_f32 p = Inr () \<longleftrightarrow>
     (case temperature p of None \<Rightarrow> True | Some w \<Rightarrow> f32_is_finite w \<and> \<not> f32_is_negative w)
     \<and> max_output_tokens p \<noteq> Some 0
     \<and> length (stop p) \<le> 8
     \<and> list_all (\<lambda>s. s \<noteq> [] \<and> length s \<le> 256) (stop p)"
proof -
  have "validate_temperature show_f32 (temperature p) = Inr () \<longleftrightarrow>
      (case temperature p of None \<Rightarrow> True | Some w \<Rightarrow> f32_is_finite w \<and> \<not> f32_is_negative w)"
    by (auto simp: validate_temperature_def split: option.splits)
  then show ?thesis
    by (auto simp: validate_parameters_def rbind_eq_Inr validate_stops_ok MAX_STOP_SEQUENCES_def
        MAX_STOP_SEQUENCE_BYTES_def list_all_iff)
qed

end
