(* ===== verification/Stream.thy ===== *)
theory Stream
  imports Inference
begin

text \<open>
  Generation streams (second half of \<open>mehoy-core/src/inference.rs\<close>): the events of a generation
  in progress, the sink a backend emits into, the stream a consumer reads, and the bounded
  channel between them.

  One value of \<open>generation\<close> holds everything the two halves share: the request handle, the
  channel (its queue and whether either end has been dropped) and the fields of both halves.
  An \<open>async\<close> operation that has to wait is \<open>None\<close>: nothing has happened and the caller tries
  again when the state has changed. A terminal operation of the sink has two steps, as in the
  code: recording the outcome, and sending the last event, which waits for room; the task may
  be dropped between the two.
\<close>

record generation_summary =
  s_finish_reason :: finish_reason
  s_usage :: "generation_usage option"

datatype generation_event =
  Started request_id
| TextDelta request_id string
| CompletedEvent request_id generation_summary
| CancelledEvent request_id cancellation_cause

fun event_request_id :: "generation_event \<Rightarrow> request_id" where
  "event_request_id (Started i) = i"
| "event_request_id (TextDelta i _) = i"
| "event_request_id (CompletedEvent i _) = i"
| "event_request_id (CancelledEvent i _) = i"

datatype generation_stream_error =
  Refused string | MalformedEvent string | UnexpectedEnd string | Transport string

fun show_stream_error :: "generation_stream_error \<Rightarrow> string" where
  "show_stream_error (Refused d) = ''the backend refused the request: '' @ d"
| "show_stream_error (MalformedEvent d) = ''a backend stream event was not usable: '' @ d"
| "show_stream_error (UnexpectedEnd d) = ''the backend stream ended before completing: '' @ d"
| "show_stream_error (Transport d) = ''the generation stream failed: '' @ d"

definition GENERATION_STREAM_BUFFER :: nat where
  "GENERATION_STREAM_BUFFER = 32"

type_synonym stream_item = "generation_stream_error + generation_event"

record generation =
  gn_handle :: request_handle
  gn_queue :: "stream_item list"
  gn_sender :: bool
  gn_receiver :: bool
  gn_pending :: "stream_item option"
  gn_sink_finished :: bool
  gn_deltas :: nat
  gn_completed :: bool
  gn_cancelled :: "cancellation_cause option"
  gn_stream_finished :: bool

definition generation_stream :: "request_handle \<Rightarrow> generation" where
  "generation_stream h =
     \<lparr>gn_handle = h, gn_queue = [Inr (Started (h_id h))], gn_sender = True, gn_receiver = True,
      gn_pending = None, gn_sink_finished = False,
      gn_deltas = 0, gn_completed = False, gn_cancelled = None, gn_stream_finished = False\<rparr>"

section \<open>The sink\<close>

definition channel_send :: "stream_item \<Rightarrow> generation \<Rightarrow> (bool \<times> generation) option" where
  "channel_send item g =
     (if \<not> gn_receiver g then Some (False, g)
      else if length (gn_queue g) < GENERATION_STREAM_BUFFER
      then Some (True, g\<lparr>gn_queue := gn_queue g @ [item]\<rparr>)
      else None)"

definition sink_delta :: "string \<Rightarrow> generation \<Rightarrow> (bool \<times> generation) option" where
  "sink_delta t g =
     (if gn_sink_finished g then Some (False, g)
      else if t = [] then Some (True, g)
      else channel_send (Inr (TextDelta (h_id (gn_handle g)) t)) g)"

text \<open>\<open>Drop\<close>: a sink that goes away without an outcome records a failure.\<close>

definition sink_drop :: "generation \<Rightarrow> generation" where
  "sink_drop g =
     g\<lparr>gn_handle := (if gn_sink_finished g then gn_handle g else snd (finish Failed (gn_handle g))),
       gn_sender := False, gn_pending := None\<rparr>"

definition sink_complete :: "generation_summary \<Rightarrow> generation \<Rightarrow> generation" where
  "sink_complete summary g =
     (if gn_sink_finished g then sink_drop g
      else g\<lparr>gn_sink_finished := True,
             gn_handle := snd (finish Completed (gn_handle g)),
             gn_pending := Some (Inr (CompletedEvent (h_id (gn_handle g)) summary))\<rparr>)"

definition sink_cancel :: "cancellation_cause \<Rightarrow> generation \<Rightarrow> generation" where
  "sink_cancel cause g =
     (if gn_sink_finished g then sink_drop g
      else g\<lparr>gn_sink_finished := True,
             gn_handle := snd (finish Cancelled (snd (request_cancellation cause (gn_handle g)))),
             gn_pending := Some (Inr (CancelledEvent (h_id (gn_handle g)) cause))\<rparr>)"

definition sink_fail :: "generation_stream_error \<Rightarrow> generation \<Rightarrow> generation" where
  "sink_fail err g =
     (if gn_sink_finished g then sink_drop g
      else g\<lparr>gn_sink_finished := True,
             gn_handle := snd (finish Failed (gn_handle g)),
             gn_pending := Some (Inl err)\<rparr>)"

text \<open>The send that ends each of the three, after which the sink is dropped.\<close>

definition sink_flush :: "generation \<Rightarrow> generation option" where
  "sink_flush g = (case gn_pending g of
     None \<Rightarrow> None
   | Some item \<Rightarrow> (case channel_send item g of
       None \<Rightarrow> None
     | Some (_, g') \<Rightarrow> Some (sink_drop g')))"

section \<open>The stream\<close>

fun note_item :: "stream_item \<Rightarrow> generation \<Rightarrow> generation" where
  "note_item (Inr (TextDelta _ _)) g = g\<lparr>gn_deltas := gn_deltas g + 1\<rparr>"
| "note_item (Inr (CompletedEvent _ _)) g = g\<lparr>gn_completed := True, gn_stream_finished := True\<rparr>"
| "note_item (Inr (CancelledEvent _ cause)) g =
     g\<lparr>gn_cancelled := Some cause, gn_stream_finished := True\<rparr>"
| "note_item (Inr (Started _)) g = g"
| "note_item (Inl _) g = g\<lparr>gn_stream_finished := True\<rparr>"

definition unexpected_end :: generation_stream_error where
  "unexpected_end = UnexpectedEnd ''the backend stream stopped without reporting an outcome''"

definition stream_next :: "generation \<Rightarrow> (stream_item option \<times> generation) option" where
  "stream_next g =
     (if gn_stream_finished g then Some (None, g)
      else case gn_queue g of
        item # rest \<Rightarrow> Some (Some item, note_item item (g\<lparr>gn_queue := rest\<rparr>))
      | [] \<Rightarrow>
          if gn_sender g then None
          else Some (Some (Inl unexpected_end),
            g\<lparr>gn_stream_finished := True, gn_handle := snd (finish Failed (gn_handle g))\<rparr>))"

definition stream_drop :: "generation \<Rightarrow> generation" where
  "stream_drop g = g\<lparr>gn_receiver := False, gn_queue := []\<rparr>"

definition demonstrated_generation :: "generation \<Rightarrow> bool" where
  "demonstrated_generation g \<longleftrightarrow> gn_completed g \<and> 0 < gn_deltas g"

datatype generation_outcome =
  CompletedOutcome generation_result
| CancelledOutcome string cancellation_cause

fun outcome_text :: "generation_outcome \<Rightarrow> string" where
  "outcome_text (CompletedOutcome r) = g_text r"
| "outcome_text (CancelledOutcome t _) = t"

fun outcome_completed :: "generation_outcome \<Rightarrow> generation_result option" where
  "outcome_completed (CompletedOutcome r) = Some r"
| "outcome_completed (CancelledOutcome _ _) = None"

text \<open>\<open>collect\<close>, over the items successive calls of \<open>next\<close> return.\<close>

fun collect_items :: "string \<Rightarrow> stream_item list \<Rightarrow> generation_stream_error + generation_outcome" where
  "collect_items t [] = Inl (UnexpectedEnd ''the stream ended without a terminal event'')"
| "collect_items t (Inl err # items) = Inl err"
| "collect_items t (Inr (Started _) # items) = collect_items t items"
| "collect_items t (Inr (TextDelta _ delta) # items) = collect_items (t @ delta) items"
| "collect_items t (Inr (CompletedEvent _ s) # items) =
     Inr (CompletedOutcome \<lparr>g_text = t, g_finish_reason = s_finish_reason s, g_usage = s_usage s\<rparr>)"
| "collect_items t (Inr (CancelledEvent _ cause) # items) = Inr (CancelledOutcome t cause)"

section \<open>Interleavings\<close>

text \<open>
  Whatever the producer, the consumer and everybody who shares the request handle do, in any
  order. \<open>seen\<close> is what \<open>next\<close> has returned to the consumer so far. A sink that has ended has
  only its pending send left, and a dropped half does nothing any more.
\<close>

inductive gen_step :: "generation \<times> stream_item list \<Rightarrow> generation \<times> stream_item list \<Rightarrow> bool" where
  delta: "gn_sender g \<Longrightarrow> gn_pending g = None \<Longrightarrow> sink_delta t g = Some (b, g') \<Longrightarrow>
    gen_step (g, seen) (g', seen)"
| complete: "gn_sender g \<Longrightarrow> gn_pending g = None \<Longrightarrow> gen_step (g, seen) (sink_complete s g, seen)"
| cancel: "gn_sender g \<Longrightarrow> gn_pending g = None \<Longrightarrow> gen_step (g, seen) (sink_cancel cause g, seen)"
| fail: "gn_sender g \<Longrightarrow> gn_pending g = None \<Longrightarrow> gen_step (g, seen) (sink_fail err g, seen)"
| flush: "gn_sender g \<Longrightarrow> sink_flush g = Some g' \<Longrightarrow> gen_step (g, seen) (g', seen)"
| drop_sink: "gn_sender g \<Longrightarrow> gen_step (g, seen) (sink_drop g, seen)"
| next_item: "gn_receiver g \<Longrightarrow> stream_next g = Some (Some item, g') \<Longrightarrow>
    gen_step (g, seen) (g', seen @ [item])"
| next_none: "gn_receiver g \<Longrightarrow> stream_next g = Some (None, g') \<Longrightarrow> gen_step (g, seen) (g', seen)"
| drop_stream: "gn_receiver g \<Longrightarrow> gen_step (g, seen) (stream_drop g, seen)"
| running: "gen_step (g, seen) (g\<lparr>gn_handle := mark_running (gn_handle g)\<rparr>, seen)"
| request_cancel:
    "gen_step (g, seen) (g\<lparr>gn_handle := snd (request_cancellation cause (gn_handle g))\<rparr>, seen)"
| token_cancel:
    "gen_step (g, seen) (g\<lparr>gn_handle := snd (handle_token_cancel cause (gn_handle g))\<rparr>, seen)"

inductive gen_reachable :: "request_id \<Rightarrow> generation \<times> stream_item list \<Rightarrow> bool" for i where
  start: "gen_reachable i (generation_stream (new_handle i), [])"
| step: "gen_reachable i s \<Longrightarrow> gen_step s s' \<Longrightarrow> gen_reachable i s'"

text \<open>The order a consumer may rely on, as an automaton over what it has seen.\<close>

datatype trace_phase = Opening | Open | Ended | Broken

fun ends :: "stream_item \<Rightarrow> bool" where
  "ends (Inl _) = True"
| "ends (Inr (CompletedEvent _ _)) = True"
| "ends (Inr (CancelledEvent _ _)) = True"
| "ends _ = False"

fun advance :: "request_id \<Rightarrow> trace_phase \<Rightarrow> stream_item \<Rightarrow> trace_phase" where
  "advance i Opening (Inr (Started j)) = (if j = i then Open else Broken)"
| "advance i Open (Inr (TextDelta j t)) = (if j = i \<and> t \<noteq> [] then Open else Broken)"
| "advance i Open (Inr (CompletedEvent j s)) = (if j = i then Ended else Broken)"
| "advance i Open (Inr (CancelledEvent j c)) = (if j = i then Ended else Broken)"
| "advance i Open (Inl err) = Ended"
| "advance i _ _ = Broken"

definition phase_of :: "request_id \<Rightarrow> stream_item list \<Rightarrow> trace_phase" where
  "phase_of i items = foldl (advance i) Opening items"

lemma phase_of_simps [simp]:
  "phase_of i [] = Opening" "phase_of i (items @ [x]) = advance i (phase_of i items) x"
  by (simp_all add: phase_of_def)

lemma advance_Broken [simp]: "advance i Broken x = Broken"
  by (cases x rule: ends.cases) auto

lemma foldl_Broken [simp]: "foldl (advance i) Broken items = Broken"
  by (induction items) auto

lemma phase_prefix: "phase_of i (xs @ ys) \<noteq> Broken \<Longrightarrow> phase_of i xs \<noteq> Broken"
  by (auto simp: phase_of_def)

lemma advance_eq_Open: "advance i p x = Open \<longleftrightarrow>
    (p = Opening \<and> x = Inr (Started i)) \<or> (p = Open \<and> (\<exists>t. t \<noteq> [] \<and> x = Inr (TextDelta i t)))"
  by (cases "(i, p, x)" rule: advance.cases) auto

lemma advance_eq_Ended: "advance i p x = Ended \<longleftrightarrow>
    p = Open \<and> ends x \<and> (\<forall>e. x = Inr e \<longrightarrow> event_request_id e = i)"
  by (cases "(i, p, x)" rule: advance.cases) auto

lemma advance_not_Opening: "advance i p x \<noteq> Opening"
  by (cases "(i, p, x)" rule: advance.cases) auto

lemma phase_Opening: "phase_of i items = Opening \<longleftrightarrow> items = []"
  by (cases items rule: rev_cases) (auto simp: advance_not_Opening)

definition delta_items :: "request_id \<Rightarrow> string list \<Rightarrow> stream_item list" where
  "delta_items i ts = map (\<lambda>t. Inr (TextDelta i t)) ts"

lemma phase_Open:
  "phase_of i items = Open \<Longrightarrow> \<exists>ts. [] \<notin> set ts \<and> items = Inr (Started i) # delta_items i ts"
proof (induction items rule: rev_induct)
  case Nil
  then show ?case by simp
next
  case (snoc x items)
  then consider "items = []" "x = Inr (Started i)"
    | t where "phase_of i items = Open" "t \<noteq> []" "x = Inr (TextDelta i t)"
    by (auto simp: advance_eq_Open phase_Opening)
  then show ?case
  proof cases
    case 1
    then show ?thesis by (intro exI [of _ "[]"]) (simp add: delta_items_def)
  next
    case 2
    with snoc.IH obtain ts where ts: "[] \<notin> set ts" "items = Inr (Started i) # delta_items i ts"
      by blast
    then show ?thesis using 2 by (intro exI [of _ "ts @ [t]"]) (simp add: delta_items_def)
  qed
qed

lemma phase_Ended:
  assumes "phase_of i items = Ended"
  obtains ts x where "[] \<notin> set ts" and "ends x" and "\<And>e. x = Inr e \<Longrightarrow> event_request_id e = i"
    and "items = Inr (Started i) # delta_items i ts @ [x]"
proof (cases items rule: rev_cases)
  case Nil
  with assms show ?thesis by simp
next
  case (snoc before x)
  with assms have "phase_of i before = Open" "ends x" "\<forall>e. x = Inr e \<longrightarrow> event_request_id e = i"
    by (auto simp: advance_eq_Ended)
  with phase_Open [of i before] snoc that show ?thesis by auto
qed

section \<open>Invariant\<close>

definition in_flight :: "generation \<Rightarrow> stream_item list" where
  "in_flight g = gn_queue g @ (case gn_pending g of None \<Rightarrow> [] | Some x \<Rightarrow> [x])"

definition channel_inv :: "generation \<Rightarrow> bool" where
  "channel_inv g \<longleftrightarrow> length (gn_queue g) \<le> GENERATION_STREAM_BUFFER
     \<and> (\<not> gn_receiver g \<longrightarrow> gn_queue g = [])
     \<and> (gn_pending g \<noteq> None \<longrightarrow> gn_sink_finished g \<and> gn_sender g)
     \<and> (gn_sink_finished g \<longrightarrow> gn_sender g \<longrightarrow> gn_pending g \<noteq> None)
     \<and> (is_terminal (h_state (gn_handle g)) \<longleftrightarrow> gn_sink_finished g \<or> \<not> gn_sender g)"

definition trace_inv :: "request_id \<Rightarrow> generation \<Rightarrow> stream_item list \<Rightarrow> bool" where
  "trace_inv i g seen \<longleftrightarrow> h_id (gn_handle g) = i
     \<and> phase_of i seen \<noteq> Broken
     \<and> (phase_of i seen = Ended \<longleftrightarrow> gn_stream_finished g)
     \<and> (\<forall>x. gn_pending g = Some x \<longrightarrow> ends x)
     \<and> (gn_receiver g \<longrightarrow> phase_of i (seen @ in_flight g) \<in> {Open, Ended})
     \<and> (gn_receiver g \<longrightarrow> gn_sender g \<longrightarrow> \<not> gn_sink_finished g \<longrightarrow>
          phase_of i (seen @ in_flight g) = Open)"

fun promised :: "stream_item \<Rightarrow> request_state option" where
  "promised (Inr (CompletedEvent _ _)) = Some Completed"
| "promised (Inr (CancelledEvent _ _)) = Some Cancelled"
| "promised _ = None"

definition outcome_inv :: "generation \<Rightarrow> stream_item list \<Rightarrow> bool" where
  "outcome_inv g seen \<longleftrightarrow> (\<forall>x\<in>set (seen @ in_flight g). \<forall>st. promised x = Some st \<longrightarrow>
     h_state (gn_handle g) = st)"

fun is_delta :: "stream_item \<Rightarrow> bool" where
  "is_delta (Inr (TextDelta _ _)) = True"
| "is_delta _ = False"

definition count_inv :: "generation \<Rightarrow> stream_item list \<Rightarrow> bool" where
  "count_inv g seen \<longleftrightarrow> gn_deltas g = length (filter is_delta seen)
     \<and> (gn_completed g \<longleftrightarrow> (\<exists>x\<in>set seen. promised x = Some Completed))"

lemmas sink_defs = sink_complete_def sink_cancel_def sink_fail_def sink_drop_def sink_flush_def
  sink_delta_def channel_send_def

lemma finish_state: "h_state (snd (finish st h)) = (if is_terminal (h_state h) then h_state h else st)"
  by (simp add: finish_def)

lemma finish_id [simp]: "h_id (snd (finish st h)) = h_id h"
  by (simp add: finish_def)

lemma request_cancellation_id [simp]: "h_id (snd (request_cancellation c h)) = h_id h"
  by (simp add: request_cancellation_def Let_def split: prod.splits)

lemma request_cancellation_terminal [simp]:
  "is_terminal (h_state (snd (request_cancellation c h))) = is_terminal (h_state h)"
  by (simp add: request_cancellation_def Let_def split: prod.splits)

lemma request_cancellation_keeps:
  "is_terminal (h_state h) \<Longrightarrow> request_cancellation c h = (False, h)"
  by (simp add: request_cancellation_def)

lemma token_cancel_handle [simp]:
  "h_id (snd (handle_token_cancel c h)) = h_id h"
  "h_state (snd (handle_token_cancel c h)) = h_state h"
  by (simp_all add: handle_token_cancel_def split: prod.splits)

lemma mark_running_handle [simp]:
  "h_id (mark_running h) = h_id h"
  "is_terminal (h_state (mark_running h)) = is_terminal (h_state h)"
  "is_terminal (h_state h) \<Longrightarrow> mark_running h = h"
  by (auto simp: mark_running_def)

lemma note_item_fields [simp]:
  "gn_handle (note_item x g) = gn_handle g" "gn_queue (note_item x g) = gn_queue g"
  "gn_sender (note_item x g) = gn_sender g" "gn_receiver (note_item x g) = gn_receiver g"
  "gn_pending (note_item x g) = gn_pending g"
  "gn_sink_finished (note_item x g) = gn_sink_finished g"
  "gn_stream_finished (note_item x g) \<longleftrightarrow> gn_stream_finished g \<or> ends x"
  "gn_deltas (note_item x g) = gn_deltas g + (if is_delta x then 1 else 0)"
  "gn_completed (note_item x g) \<longleftrightarrow> gn_completed g \<or> promised x = Some Completed"
  by (cases "(x, g)" rule: note_item.cases; simp)+

lemma promised_terminal: "promised x = Some st \<Longrightarrow> is_terminal st"
  by (cases x rule: promised.cases) auto

lemma promised_ends: "promised x = Some st \<Longrightarrow> ends x"
  by (cases x rule: promised.cases) auto

text \<open>The two ways \<open>next\<close> returns an item.\<close>

lemma stream_next_cases:
  assumes "stream_next g = Some (Some x, g')"
  obtains (item) rest where "\<not> gn_stream_finished g" and "gn_queue g = x # rest"
      and "g' = note_item x (g\<lparr>gn_queue := rest\<rparr>)"
  | (gone) "\<not> gn_stream_finished g" and "gn_queue g = []" and "\<not> gn_sender g"
      and "x = Inl unexpected_end"
      and "g' = g\<lparr>gn_stream_finished := True, gn_handle := snd (finish Failed (gn_handle g))\<rparr>"
  using assms by (auto simp: stream_next_def split: if_splits list.splits)

lemma stream_next_None:
  "stream_next g = Some (None, g') \<Longrightarrow> g' = g"
  by (auto simp: stream_next_def split: if_splits list.splits)

lemma sink_flush_cases:
  assumes "sink_flush g = Some g'"
  obtains x b g1 where "gn_pending g = Some x" and "channel_send x g = Some (b, g1)"
    and "g' = sink_drop g1"
  using assms by (auto simp: sink_flush_def split: option.splits)

lemma sink_delta_cases:
  assumes "sink_delta t g = Some (b, g')"
  obtains (same) "g' = g"
  | (sent) "t \<noteq> []" "\<not> gn_sink_finished g" "gn_receiver g"
      "length (gn_queue g) < GENERATION_STREAM_BUFFER"
      "g' = g\<lparr>gn_queue := gn_queue g @ [Inr (TextDelta (h_id (gn_handle g)) t)]\<rparr>"
  using assms by (auto simp: sink_delta_def channel_send_def split: if_splits)

lemma channel_send_cases:
  assumes "channel_send x g = Some (b, g')"
  obtains (closed) "\<not> gn_receiver g" "g' = g"
  | (sent) "gn_receiver g" "length (gn_queue g) < GENERATION_STREAM_BUFFER"
      "g' = g\<lparr>gn_queue := gn_queue g @ [x]\<rparr>"
  using assms by (auto simp: channel_send_def split: if_splits)

lemma channel_inv_step:
  assumes "gen_step s s'" and "channel_inv (fst s)"
  shows "channel_inv (fst s')"
  using assms
proof cases
  case (delta g t b g' seen)
  from delta(5) assms(2) delta show ?thesis
    by (cases rule: sink_delta_cases) (auto simp: channel_inv_def)
next
  case (flush g g' seen)
  from flush(4) obtain x b g1 where f: "gn_pending g = Some x" "channel_send x g = Some (b, g1)"
    "g' = sink_drop g1" by (rule sink_flush_cases)
  from f(2) f assms(2) flush show ?thesis
    by (cases rule: channel_send_cases) (auto simp: channel_inv_def sink_drop_def finish_state)
next
  case (next_item g item g' seen)
  from next_item(4) assms(2) next_item show ?thesis
    by (cases rule: stream_next_cases) (auto simp: channel_inv_def finish_state)
next
  case (next_none g g' seen)
  then show ?thesis using assms(2) stream_next_None by auto
qed (auto simp: channel_inv_def sink_complete_def sink_cancel_def sink_fail_def sink_drop_def
    stream_drop_def finish_state)

lemma outcome_inv_mono:
  assumes "outcome_inv g seen"
    and sub: "set (seen' @ in_flight g') \<subseteq> set (seen @ in_flight g) \<union> {x. promised x = None}"
    and st: "is_terminal (h_state (gn_handle g)) \<Longrightarrow> h_state (gn_handle g') = h_state (gn_handle g)"
  shows "outcome_inv g' seen'"
  unfolding outcome_inv_def
proof (intro ballI allI impI)
  fix x st'
  assume x: "x \<in> set (seen' @ in_flight g')" and p: "promised x = Some st'"
  with sub have "x \<in> set (seen @ in_flight g)" by auto
  with assms(1) p have "h_state (gn_handle g) = st'" unfolding outcome_inv_def by blast
  with st p promised_terminal show "h_state (gn_handle g') = st'" by auto
qed

text \<open>A terminal operation promises the outcome it records.\<close>

lemma outcome_inv_terminal:
  assumes o: "outcome_inv g seen" and nt: "\<not> is_terminal (h_state (gn_handle g))"
    and p: "gn_pending g = None" and x: "promised x = None \<or> promised x = Some (h_state h)"
  shows "outcome_inv (g\<lparr>gn_sink_finished := True, gn_handle := h, gn_pending := Some x\<rparr>) seen"
proof -
  have "promised y = None" if "y \<in> set (seen @ in_flight g)" for y
    using that o nt promised_terminal unfolding outcome_inv_def by (cases "promised y") blast+
  then show ?thesis using x p by (auto simp: outcome_inv_def in_flight_def)
qed

lemma count_inv_step:
  assumes "gen_step s s'" and "count_inv (fst s) (snd s)"
  shows "count_inv (fst s') (snd s')"
  using assms
proof cases
  case (delta g t b g' seen)
  from delta(5) assms(2) delta show ?thesis
    by (cases rule: sink_delta_cases) (auto simp: count_inv_def)
next
  case (flush g g' seen)
  from flush(4) obtain x b g1 where f: "gn_pending g = Some x" "channel_send x g = Some (b, g1)"
    "g' = sink_drop g1" by (rule sink_flush_cases)
  from f(2) f assms(2) flush show ?thesis
    by (cases rule: channel_send_cases) (auto simp: count_inv_def sink_drop_def)
next
  case (next_item g item g' seen)
  from next_item(4) assms(2) next_item show ?thesis
    by (cases rule: stream_next_cases) (auto simp: count_inv_def)
next
  case (next_none g g' seen)
  then show ?thesis using assms(2) stream_next_None by auto
qed (auto simp: count_inv_def sink_complete_def sink_cancel_def sink_fail_def sink_drop_def
    stream_drop_def)

lemma phase_append: "phase_of i (xs @ ys) = foldl (advance i) (phase_of i xs) ys"
  by (simp add: phase_of_def)

lemma advance_ends: "ends x \<Longrightarrow> advance i p x \<in> {Open, Ended} \<Longrightarrow> p = Open"
  by (auto simp: advance_eq_Open advance_eq_Ended)

lemma advance_Ended_iff: "advance i p x \<noteq> Broken \<Longrightarrow> advance i p x = Ended \<longleftrightarrow> ends x"
  by (cases "(i, p, x)" rule: advance.cases) (auto split: if_splits)

lemma in_flight_sent:
  "gn_pending g = None \<Longrightarrow> in_flight (g\<lparr>gn_queue := gn_queue g @ [x]\<rparr>) = in_flight g @ [x]"
  by (simp add: in_flight_def)

lemma trace_inv_next:
  assumes "gn_receiver g" and "stream_next g = Some (Some item, g')"
    and c: "channel_inv g" and t: "trace_inv i g seen"
  shows "trace_inv i g' (seen @ [item])"
  using assms(2)
proof (cases rule: stream_next_cases)
  case (item rest)
  then have T: "(seen @ [item]) @ in_flight g' = seen @ in_flight g"
    by (simp add: in_flight_def)
  from t assms(1) have ok: "phase_of i (seen @ in_flight g) \<in> {Open, Ended}" by (simp add: trace_inv_def)
  then have "phase_of i (seen @ [item]) \<noteq> Broken"
    using phase_prefix [of i "seen @ [item]" "in_flight g'"] unfolding T by auto
  moreover from this have "phase_of i (seen @ [item]) = Ended \<longleftrightarrow> ends item"
    using advance_Ended_iff by simp
  ultimately show ?thesis using t item unfolding trace_inv_def T by simp
next
  case gone
  then have "in_flight g = []" using c by (auto simp: in_flight_def channel_inv_def)
  then have "phase_of i seen = Open" using t gone assms(1) by (auto simp: trace_inv_def)
  then show ?thesis using t gone c
    by (auto simp: trace_inv_def in_flight_def channel_inv_def)
qed

lemma trace_inv_drop:
  assumes "channel_inv g" and "trace_inv i g seen"
  shows "trace_inv i (sink_drop g) seen"
proof (cases "gn_pending g")
  case None
  then show ?thesis using assms by (simp add: trace_inv_def sink_drop_def in_flight_def)
next
  case (Some x)
  then have "in_flight g = in_flight (sink_drop g) @ [x]"
    by (simp add: in_flight_def sink_drop_def)
  then have "gn_receiver g \<Longrightarrow> phase_of i (seen @ in_flight (sink_drop g)) = Open"
    using assms(2) Some advance_ends [of x i "phase_of i (seen @ in_flight (sink_drop g))"]
    by (simp add: trace_inv_def flip: append_assoc)
  then show ?thesis using assms by (simp add: trace_inv_def sink_drop_def)
qed

text \<open>Each of the three terminal operations, on a sink that has not ended.\<close>

lemma trace_inv_terminal:
  assumes "channel_inv g" and t: "trace_inv i g seen" and "gn_sender g" and p: "gn_pending g = None"
    and e: "ends x" "\<And>e. x = Inr e \<Longrightarrow> event_request_id e = i"
    and h: "h_id h = i"
  shows "trace_inv i (g\<lparr>gn_sink_finished := True, gn_handle := h, gn_pending := Some x\<rparr>) seen"
proof -
  have nf: "\<not> gn_sink_finished g" using assms by (auto simp: channel_inv_def)
  let ?g = "g\<lparr>gn_sink_finished := True, gn_handle := h, gn_pending := Some x\<rparr>"
  have fl: "in_flight ?g = in_flight g @ [x]" using p by (simp add: in_flight_def)
  have "gn_receiver g \<Longrightarrow> phase_of i (seen @ in_flight g) = Open"
    using t nf assms(3) by (simp add: trace_inv_def)
  then have "gn_receiver g \<Longrightarrow> phase_of i (seen @ in_flight ?g) = Ended"
    using e by (simp add: fl advance_eq_Ended flip: append_assoc)
  then show ?thesis using t h e by (simp add: trace_inv_def)
qed

lemma trace_inv_step:
  assumes "gen_step s s'" and "channel_inv (fst s)" and "trace_inv i (fst s) (snd s)"
  shows "trace_inv i (fst s') (snd s')"
  using assms(1)
proof cases
  case (delta g t b g' seen)
  from delta(5) show ?thesis
  proof (cases rule: sink_delta_cases)
    case same
    then show ?thesis using delta assms by simp
  next
    case sent
    with delta assms(3) have "h_id (gn_handle g) = i" "phase_of i (seen @ in_flight g) = Open"
      by (simp_all add: trace_inv_def)
    then show ?thesis using delta assms(3) sent
      by (simp add: trace_inv_def in_flight_sent flip: append_assoc)
  qed
next
  case (complete g seen sm)
  with assms have "\<not> gn_sink_finished g" "h_id (gn_handle g) = i"
    by (auto simp: channel_inv_def trace_inv_def)
  with complete assms trace_inv_terminal [of g i seen "Inr (CompletedEvent i sm)" "snd (finish Completed (gn_handle g))"]
  show ?thesis by (simp add: sink_complete_def)
next
  case (cancel g seen cause)
  with assms have "\<not> gn_sink_finished g" "h_id (gn_handle g) = i"
    by (auto simp: channel_inv_def trace_inv_def)
  with cancel assms trace_inv_terminal [of g i seen "Inr (CancelledEvent i cause)" "snd (finish Cancelled (snd (request_cancellation cause (gn_handle g))))"]
  show ?thesis by (simp add: sink_cancel_def)
next
  case (fail g seen err)
  with assms have "\<not> gn_sink_finished g" "h_id (gn_handle g) = i"
    by (auto simp: channel_inv_def trace_inv_def)
  with fail assms trace_inv_terminal [of g i seen "Inl err" "snd (finish Failed (gn_handle g))"]
  show ?thesis by (simp add: sink_fail_def)
next
  case (flush g g' seen)
  from flush(4) obtain x b g1 where f: "gn_pending g = Some x" "channel_send x g = Some (b, g1)"
    "g' = sink_drop g1" by (rule sink_flush_cases)
  from f(2) show ?thesis
  proof (cases rule: channel_send_cases)
    case closed
    then show ?thesis using f flush assms trace_inv_drop by simp
  next
    case sent
    have "in_flight g' = in_flight g" using sent f by (simp add: in_flight_def sink_drop_def)
    moreover have "gn_sink_finished g" using f flush assms by (simp add: channel_inv_def)
    ultimately show ?thesis using sent f flush assms by (simp add: trace_inv_def sink_drop_def)
  qed
next
  case (next_item g item g' seen)
  then show ?thesis using trace_inv_next assms by simp
next
  case (next_none g g' seen)
  then show ?thesis using assms stream_next_None by auto
next
  case (drop_sink g seen)
  then show ?thesis using trace_inv_drop assms by simp
qed (use assms in \<open>auto simp: trace_inv_def stream_drop_def in_flight_def\<close>)

lemma outcome_inv_drop: "outcome_inv g seen \<Longrightarrow> outcome_inv (sink_drop g) seen"
  by (erule outcome_inv_mono) (auto simp: sink_drop_def finish_state in_flight_def)

lemma outcome_inv_step:
  assumes "gen_step s s'" and "channel_inv (fst s)" and "outcome_inv (fst s) (snd s)"
  shows "outcome_inv (fst s') (snd s')"
  using assms(1)
proof cases
  case (delta g t b g' seen)
  from delta(5) show ?thesis
  proof (cases rule: sink_delta_cases)
    case sent
    then show ?thesis using delta assms(3)
      by (auto intro!: outcome_inv_mono [OF assms(3)] simp: in_flight_sent)
  qed (use delta assms in simp)
next
  case (complete g seen sm)
  with assms have nf: "\<not> gn_sink_finished g" "\<not> is_terminal (h_state (gn_handle g))"
    by (auto simp: channel_inv_def)
  with complete assms show ?thesis
    by (simp add: sink_complete_def outcome_inv_terminal finish_state)
next
  case (cancel g seen cause)
  with assms have nf: "\<not> gn_sink_finished g" "\<not> is_terminal (h_state (gn_handle g))"
    by (auto simp: channel_inv_def)
  with cancel assms show ?thesis
    by (simp add: sink_cancel_def outcome_inv_terminal finish_state)
next
  case (fail g seen err)
  with assms have nf: "\<not> gn_sink_finished g" "\<not> is_terminal (h_state (gn_handle g))"
    by (auto simp: channel_inv_def)
  with fail assms show ?thesis
    by (simp add: sink_fail_def outcome_inv_terminal finish_state)
next
  case (flush g g' seen)
  from flush(4) obtain x b g1 where f: "gn_pending g = Some x" "channel_send x g = Some (b, g1)"
    "g' = sink_drop g1" by (rule sink_flush_cases)
  from f(2) show ?thesis
  proof (cases rule: channel_send_cases)
    case closed
    then show ?thesis using f flush assms outcome_inv_drop by simp
  next
    case sent
    have "in_flight g' = in_flight g" using sent f by (simp add: in_flight_def sink_drop_def)
    then show ?thesis using sent f flush assms
      by (auto intro!: outcome_inv_mono [OF assms(3)] simp: sink_drop_def finish_state)
  qed
next
  case (next_item g item g' seen)
  from next_item(4) show ?thesis
  proof (cases rule: stream_next_cases)
    case (item rest)
    then show ?thesis using next_item assms(3)
      by (auto intro!: outcome_inv_mono [OF assms(3)] simp: in_flight_def)
  next
    case gone
    then show ?thesis using next_item assms(3)
      by (auto intro!: outcome_inv_mono [OF assms(3)] simp: in_flight_def finish_state)
  qed
next
  case (next_none g g' seen)
  then show ?thesis using assms stream_next_None by auto
next
  case (drop_sink g seen)
  then show ?thesis using outcome_inv_drop assms by simp
next
  case (drop_stream g seen)
  then show ?thesis using assms(3)
    by (auto intro!: outcome_inv_mono [OF assms(3)] simp: stream_drop_def in_flight_def)
next
  case (running g seen)
  then show ?thesis using assms(3)
    by (auto intro!: outcome_inv_mono [OF assms(3)] simp: in_flight_def)
next
  case (request_cancel g seen cause)
  then show ?thesis using assms(3)
    by (auto intro!: outcome_inv_mono [OF assms(3)] simp: in_flight_def request_cancellation_keeps)
next
  case (token_cancel g seen cause)
  then show ?thesis using assms(3)
    by (auto intro!: outcome_inv_mono [OF assms(3)] simp: in_flight_def)
qed

lemma reachable_invs:
  assumes "gen_reachable i s"
  shows "channel_inv (fst s) \<and> trace_inv i (fst s) (snd s) \<and> outcome_inv (fst s) (snd s)
    \<and> count_inv (fst s) (snd s)"
  using assms
proof induction
  case start
  show ?case
    by (simp add: channel_inv_def trace_inv_def outcome_inv_def count_inv_def in_flight_def
        generation_stream_def new_handle_def GENERATION_STREAM_BUFFER_def phase_of_def)
next
  case (step s s')
  then show ?case
    using channel_inv_step trace_inv_step outcome_inv_step count_inv_step by blast
qed

lemma collect_delta_items:
  "collect_items t (delta_items i ts @ items) = collect_items (t @ concat ts) items"
  by (induction ts arbitrary: t) (auto simp: delta_items_def)

lemma gen_reachable_sample:
  "\<exists>g. gen_reachable (RequestId 7)
     (g, [Inr (Started (RequestId 7)), Inr (TextDelta (RequestId 7) ''hi''),
          Inr (CompletedEvent (RequestId 7) \<lparr>s_finish_reason = Stop, s_usage = None\<rparr>)])"
proof -
  let ?i = "RequestId 7" and ?s = "\<lparr>s_finish_reason = Stop, s_usage = None\<rparr>"
  let ?g0 = "generation_stream (new_handle ?i)"
  obtain g1 where d: "sink_delta ''hi'' ?g0 = Some (True, g1)"
    and g1: "gn_queue g1 = [Inr (Started ?i), Inr (TextDelta ?i ''hi'')]" "gn_sender g1"
      "gn_pending g1 = None" "gn_receiver g1" "\<not> gn_sink_finished g1" "\<not> gn_stream_finished g1"
      "h_id (gn_handle g1) = ?i"
    by (simp add: sink_delta_def channel_send_def generation_stream_def new_handle_def
        GENERATION_STREAM_BUFFER_def)
  let ?g2 = "sink_complete ?s g1"
  obtain g3 where f: "sink_flush ?g2 = Some g3"
    and g3: "gn_queue g3 = [Inr (Started ?i), Inr (TextDelta ?i ''hi''), Inr (CompletedEvent ?i ?s)]"
      "gn_receiver g3" "\<not> gn_stream_finished g3"
    using g1 by (simp add: sink_flush_def sink_complete_def channel_send_def sink_drop_def
        GENERATION_STREAM_BUFFER_def)
  obtain g4 where n4: "stream_next g3 = Some (Some (Inr (Started ?i)), g4)"
    and g4: "gn_queue g4 = [Inr (TextDelta ?i ''hi''), Inr (CompletedEvent ?i ?s)]"
      "gn_receiver g4" "\<not> gn_stream_finished g4"
    using g3 by (simp add: stream_next_def)
  obtain g5 where n5: "stream_next g4 = Some (Some (Inr (TextDelta ?i ''hi'')), g5)"
    and g5: "gn_queue g5 = [Inr (CompletedEvent ?i ?s)]" "gn_receiver g5" "\<not> gn_stream_finished g5"
    using g4 by (simp add: stream_next_def)
  obtain g6 where n6: "stream_next g5 = Some (Some (Inr (CompletedEvent ?i ?s)), g6)"
    using g5 by (simp add: stream_next_def)
  have "gn_sender ?g0" "gn_pending ?g0 = None" "gn_sender ?g2"
    using g1 by (simp_all add: generation_stream_def sink_complete_def)
  then have "gen_reachable ?i (g3, [])"
    by (meson d f g1 gen_reachable.intros gen_step.delta gen_step.complete gen_step.flush)
  then have "gen_reachable ?i (g4, [] @ [Inr (Started ?i)])"
    by (meson g3 n4 gen_reachable.step gen_step.next_item)
  then have "gen_reachable ?i (g5, ([] @ [Inr (Started ?i)]) @ [Inr (TextDelta ?i ''hi'')])"
    by (meson g4 n5 gen_reachable.step gen_step.next_item)
  then have "gen_reachable ?i (g6, (([] @ [Inr (Started ?i)]) @ [Inr (TextDelta ?i ''hi'')])
      @ [Inr (CompletedEvent ?i ?s)])"
    by (meson g5 n6 gen_reachable.step gen_step.next_item)
  then show ?thesis by auto
qed

lemma seen_promise:
  "outcome_inv g seen \<Longrightarrow> x \<in> set seen \<Longrightarrow> promised x = Some st \<Longrightarrow> h_state (gn_handle g) = st"
  unfolding outcome_inv_def set_append by blast

text \<open>Reading on: \<open>n\<close> calls of \<open>next\<close>, none of which has to wait.\<close>

fun read_items :: "nat \<Rightarrow> generation \<Rightarrow> generation option" where
  "read_items 0 g = Some g"
| "read_items (Suc n) g = (case stream_next g of None \<Rightarrow> None | Some (_, g') \<Rightarrow> read_items n g')"

lemma read_items_finished: "gn_stream_finished g \<Longrightarrow> read_items n g = Some g"
  by (induction n) (auto simp: stream_next_def)

lemma read_items_ends:
  "\<not> gn_sender g \<Longrightarrow> length (gn_queue g) < n \<Longrightarrow>
   \<exists>g'. read_items n g = Some g' \<and> gn_stream_finished g'"
proof (induction n arbitrary: g)
  case (Suc n)
  show ?case
  proof (cases "gn_stream_finished g")
    case True
    then show ?thesis using read_items_finished [OF True, of "Suc n"] by blast
  next
    case False
    then show ?thesis using Suc read_items_finished
      by (cases "gn_queue g") (auto simp: stream_next_def)
  qed
qed simp

section \<open>Properties\<close>

text \<open>C9: however the producer, the consumer and whoever cancels the request interleave, a
  consumer sees nothing yet, or \<open>Started\<close> once and first, then non-empty deltas of this request,
  then at most one terminal item and nothing after it; and no more than 32 events are buffered.\<close>

theorem stream_order:
  assumes "gen_reachable i (g, seen)"
  shows "(seen = [] \<or> (\<exists>ts tl. [] \<notin> set ts \<and> seen = Inr (Started i) # delta_items i ts @ tl
      \<and> (if gn_stream_finished g
         then \<exists>x. tl = [x] \<and> ends x \<and> (\<forall>e. x = Inr e \<longrightarrow> event_request_id e = i)
         else tl = [])))
    \<and> length (gn_queue g) \<le> 32"
proof -
  from reachable_invs [OF assms] have len: "length (gn_queue g) \<le> 32" and nb: "phase_of i seen \<noteq> Broken"
    and fin: "phase_of i seen = Ended \<longleftrightarrow> gn_stream_finished g"
    by (auto simp: channel_inv_def GENERATION_STREAM_BUFFER_def trace_inv_def)
  show ?thesis
  proof (cases "phase_of i seen")
    case Opening
    with len show ?thesis by (simp add: phase_Opening)
  next
    case Open
    with phase_Open [OF Open] fin len show ?thesis by auto
  next
    case Ended
    with fin len phase_Ended [OF Ended] show ?thesis by (metis (no_types, lifting))
  next
    case Broken
    with nb show ?thesis by simp
  qed
qed

theorem stream_order_witness:
  "\<exists>g seen. gen_reachable (RequestId 7) (g, seen) \<and> length seen = 3 \<and> length (gn_queue g) \<le> 32"
  using gen_reachable_sample stream_order by fastforce

text \<open>a terminal event is the truth about the request. A consumer that has seen
  \<open>Completed\<close> finds the request's handle completed, one that has seen \<open>Cancelled\<close> finds it
  cancelled, and once the producer is gone the request is never left looking alive.\<close>

theorem terminal_event_truthful:
  assumes "gen_reachable i (g, seen)"
  shows "(Inr (CompletedEvent j s) \<in> set seen \<longrightarrow> h_state (gn_handle g) = Completed)
    \<and> (Inr (CancelledEvent j c) \<in> set seen \<longrightarrow> h_state (gn_handle g) = Cancelled)
    \<and> (\<not> gn_sender g \<longrightarrow> is_terminal (h_state (gn_handle g)))"
proof -
  from reachable_invs [OF assms] have o: "outcome_inv g seen" and c: "channel_inv g" by auto
  from c have "\<not> gn_sender g \<longrightarrow> is_terminal (h_state (gn_handle g))" by (simp add: channel_inv_def)
  with seen_promise [OF o] show ?thesis by fastforce
qed

theorem terminal_event_truthful_witness:
  "\<exists>g. gen_reachable (RequestId 7)
     (g, [Inr (Started (RequestId 7)), Inr (TextDelta (RequestId 7) ''hi''),
          Inr (CompletedEvent (RequestId 7) \<lparr>s_finish_reason = Stop, s_usage = None\<rparr>)])
     \<and> h_state (gn_handle g) = Completed"
  using gen_reachable_sample terminal_event_truthful by fastforce

text \<open>a stream demonstrates text generation exactly when its consumer has seen at least one
  non-empty delta and then a completion; a failed, truncated or cancelled stream never does,
  however much text it carried. Collecting what was seen then gives the concatenated deltas
  with the summary the backend reported, and nothing but a completion gives a result.\<close>

theorem demonstrated_iff_completed_with_text:
  assumes "gen_reachable i (g, seen)"
  shows "demonstrated_generation g \<longleftrightarrow>
      (\<exists>ts s. ts \<noteq> [] \<and> [] \<notin> set ts
         \<and> seen = Inr (Started i) # delta_items i ts @ [Inr (CompletedEvent i s)]
         \<and> collect_items [] seen = Inr (CompletedOutcome
              \<lparr>g_text = concat ts, g_finish_reason = s_finish_reason s, g_usage = s_usage s\<rparr>))"
    (is "?d \<longleftrightarrow> ?r")
proof
  assume ?d
  from reachable_invs [OF assms] have c: "count_inv g seen" and nb: "phase_of i seen \<noteq> Broken"
    by (auto simp: trace_inv_def)
  with \<open>?d\<close> obtain x where x: "x \<in> set seen" "promised x = Some Completed"
    and n: "filter is_delta seen \<noteq> []"
    by (auto simp: demonstrated_generation_def count_inv_def)
  from x have "ends x" using promised_ends by auto
  from phase_Open [of i seen] have "phase_of i seen \<noteq> Open"
    using x by (auto simp: delta_items_def)
  with nb x have "phase_of i seen = Ended"
    by (cases "phase_of i seen") (auto simp: phase_Opening)
  then obtain ts y where ts: "[] \<notin> set ts" "ends y" "\<And>e. y = Inr e \<Longrightarrow> event_request_id e = i"
    and seen: "seen = Inr (Started i) # delta_items i ts @ [y]" by (rule phase_Ended) blast
  from x seen have "promised y = Some Completed" by (auto simp: delta_items_def)
  then obtain s where y: "y = Inr (CompletedEvent i s)"
    using ts(3) by (cases y rule: promised.cases) auto
  with n seen have "ts \<noteq> []" by (auto simp: delta_items_def)
  with ts seen y show ?r
    by (intro exI [of _ ts] exI [of _ s]) (simp add: collect_delta_items)
next
  assume ?r
  then obtain ts s where "ts \<noteq> []"
    "seen = Inr (Started i) # delta_items i ts @ [Inr (CompletedEvent i s)]" by blast
  then show ?d using reachable_invs [OF assms]
    by (auto simp: demonstrated_generation_def count_inv_def delta_items_def filter_map comp_def)
qed

theorem demonstrated_iff_completed_with_text_witness:
  "\<exists>g seen. gen_reachable (RequestId 7) (g, seen) \<and> demonstrated_generation g"
proof -
  obtain g where r: "gen_reachable (RequestId 7)
     (g, [Inr (Started (RequestId 7)), Inr (TextDelta (RequestId 7) ''hi''),
          Inr (CompletedEvent (RequestId 7) \<lparr>s_finish_reason = Stop, s_usage = None\<rparr>)])"
    using gen_reachable_sample by blast
  have "demonstrated_generation g"
    unfolding demonstrated_iff_completed_with_text [OF r]
    by (rule exI [of _ "[''hi'']"], rule exI [of _ "\<lparr>s_finish_reason = Stop, s_usage = None\<rparr>"])
       (simp add: delta_items_def)
  with r show ?thesis by blast
qed

text \<open>C34: a stream always ends. Once the producer is gone, reading the buffered events, at most
  32 of them, and one more time brings the consumer to the end; \<open>next\<close> never waits on the way.\<close>

theorem stream_ends:
  assumes "gen_reachable i (g, seen)" and "\<not> gn_sender g"
  shows "\<exists>g'. read_items 33 g = Some g' \<and> gn_stream_finished g'
    \<and> stream_next g' = Some (None, g')"
proof -
  have "length (gn_queue g) < 33"
    using reachable_invs [OF assms(1)] by (simp add: channel_inv_def GENERATION_STREAM_BUFFER_def)
  from read_items_ends [OF assms(2) this] show ?thesis by (auto simp: stream_next_def)
qed

theorem stream_ends_witness:
  "\<exists>g'. read_items 33 (sink_drop (generation_stream (new_handle (RequestId 1)))) = Some g'
    \<and> gn_stream_finished g'"
proof -
  have "gen_reachable (RequestId 1) (sink_drop (generation_stream (new_handle (RequestId 1))), [])"
    by (rule gen_reachable.step [OF gen_reachable.start gen_step.drop_sink])
       (simp add: generation_stream_def)
  moreover have "\<not> gn_sender (sink_drop (generation_stream (new_handle (RequestId 1))))"
    by (simp add: sink_drop_def)
  ultimately show ?thesis using stream_ends by blast
qed

end
