(* ===== verification/Sse.thy ===== *)
theory Sse
  imports Prelude
begin

text \<open>
  Server-sent event framing (\<open>mehoy-backend-llama/src/sse.rs\<close>): a decoder that is fed arbitrary
  chunks of bytes and yields the payload of each complete event. A failed \<open>push\<close> ends the stream
  it reads, so the state after an error is not modelled. The text of a UTF-8 error is the
  argument \<open>show_utf8\<close>.
\<close>

definition MAX_PENDING_BYTES :: nat where
  "MAX_PENDING_BYTES = 8 * 2 ^ 20"

record sse_decoder =
  sd_buffer :: "u8 list"
  sd_data :: string
  sd_has_data :: bool

definition new_decoder :: sse_decoder where
  "new_decoder = \<lparr>sd_buffer = [], sd_data = [], sd_has_data = False\<rparr>"

definition line_end :: "u8 \<Rightarrow> bool" where
  "line_end b \<longleftrightarrow> b = 10 \<or> b = 13"

definition take_line :: "sse_decoder \<Rightarrow> (u8 list \<times> sse_decoder) option" where
  "take_line d =
     (let line = takeWhile (\<lambda>b. \<not> line_end b) (sd_buffer d)
      in case dropWhile (\<lambda>b. \<not> line_end b) (sd_buffer d) of
           [] \<Rightarrow> None
         | b # rest \<Rightarrow>
             if b = 13 then
               (case rest of
                  [] \<Rightarrow> None
                | c # rest' \<Rightarrow>
                    Some (line, d\<lparr>sd_buffer := (if c = 10 then rest' else rest)\<rparr>))
             else Some (line, d\<lparr>sd_buffer := rest\<rparr>))"

text \<open>The field and the content of a line: split at the first colon, one space dropped.\<close>

definition split_field :: "u8 list \<Rightarrow> u8 list \<times> u8 list" where
  "split_field line = (case dropWhile (\<lambda>b. b \<noteq> 58) line of
     [] \<Rightarrow> (line, [])
   | _ # raw \<Rightarrow> (takeWhile (\<lambda>b. b \<noteq> 58) line,
       (case raw of b # val \<Rightarrow> if b = 32 then val else raw | [] \<Rightarrow> [])))"

definition data_field :: "u8 list" where
  "data_field = [100, 97, 116, 97]"

definition consume_line ::
    "(u8 list \<Rightarrow> string) \<Rightarrow> u8 list \<Rightarrow> sse_decoder \<Rightarrow> string + (string option \<times> sse_decoder)" where
  "consume_line show_utf8 line d =
     (if line = [] then
        (if \<not> sd_has_data d then Inr (None, d)
         else Inr (Some (sd_data d), d\<lparr>sd_has_data := False, sd_data := []\<rparr>))
      else if hd line = 58 then Inr (None, d)
      else
        let (field, val) = split_field line
        in if field \<noteq> data_field then Inr (None, d)
           else if \<not> valid_utf8 val
           then Inl (''a data line was not valid UTF-8: '' @ show_utf8 val)
           else Inr (None, d\<lparr>sd_data := sd_data d @ (if sd_has_data d then [CHR 0x0A] else [])
                        @ text_of val, sd_has_data := True\<rparr>))"

lemma buffer_split:
  obtains pre post where "buffer = pre @ post" and "\<forall>b\<in>set pre. \<not> line_end b"
    and "takeWhile (\<lambda>b. \<not> line_end b) buffer = pre" and "dropWhile (\<lambda>b. \<not> line_end b) buffer = post"
  using that [OF takeWhile_dropWhile_id [symmetric] _ refl refl] by (auto dest: set_takeWhileD)

lemma take_line_cases:
  assumes "take_line d = Some (line, d')"
  obtains sep where "sd_buffer d = line @ sep @ sd_buffer d'" and "sep \<noteq> []"
    and "\<forall>b\<in>set line. \<not> line_end b" and "sd_data d' = sd_data d" and "sd_has_data d' = sd_has_data d"
proof -
  obtain pre post where buf: "sd_buffer d = pre @ post" and pre: "\<forall>b\<in>set pre. \<not> line_end b"
    and w: "takeWhile (\<lambda>b. \<not> line_end b) (sd_buffer d) = pre"
      "dropWhile (\<lambda>b. \<not> line_end b) (sd_buffer d) = post" by (rule buffer_split)
  from assms obtain b rest where post: "post = b # rest"
    unfolding take_line_def w by (cases post) auto
  show ?thesis
  proof (cases "b = 13 \<and> rest \<noteq> [] \<and> hd rest = 10")
    case True
    then obtain rest' where "rest = 10 # rest'" by (cases rest) auto
    with True assms have "line = pre" "d' = d\<lparr>sd_buffer := rest'\<rparr>"
      unfolding take_line_def w post by auto
    then show ?thesis using buf pre post True \<open>rest = 10 # rest'\<close> that [of "[b, 10]"] by simp
  next
    case False
    with assms have "line = pre" "d' = d\<lparr>sd_buffer := rest\<rparr>"
      unfolding take_line_def w post by (auto split: if_splits list.splits)
    then show ?thesis using buf pre post that [of "[b]"] by simp
  qed
qed

lemma take_line_shorter:
  "take_line d = Some (line, d') \<Longrightarrow> length (sd_buffer d') < length (sd_buffer d)"
  by (erule take_line_cases) simp

lemma consume_line_buffer:
  "consume_line su line d = Inr (ev, d') \<Longrightarrow> sd_buffer d' = sd_buffer d"
  by (auto simp: consume_line_def split: if_splits prod.splits)

text \<open>The loop of \<open>push\<close>.\<close>

function drain :: "(u8 list \<Rightarrow> string) \<Rightarrow> sse_decoder \<Rightarrow> string + (string list \<times> sse_decoder)" where
  "drain su d = (case take_line d of
     None \<Rightarrow> Inr ([], d)
   | Some (line, d1) \<Rightarrow>
       rbind (consume_line su line d1) (\<lambda>(ev, d2).
         rbind (drain su d2) (\<lambda>(evs, d3).
           Inr ((case ev of None \<Rightarrow> evs | Some e \<Rightarrow> e # evs), d3))))"
  by pat_completeness auto
termination
  by (relation "measure (\<lambda>(su, d). length (sd_buffer d))")
     (auto simp: consume_line_buffer take_line_shorter)

declare drain.simps [simp del]

definition push :: "(u8 list \<Rightarrow> string) \<Rightarrow> u8 list \<Rightarrow> sse_decoder \<Rightarrow> string + (string list \<times> sse_decoder)" where
  "push su chunk d =
     (let d = d\<lparr>sd_buffer := sd_buffer d @ chunk\<rparr>
      in if MAX_PENDING_BYTES < length (sd_buffer d) \<or> MAX_PENDING_BYTES < length (sd_data d)
         then Inl (''a single event exceeded '' @ show_nat MAX_PENDING_BYTES @ '' bytes without ending'')
         else drain su d)"

definition has_partial_event :: "sse_decoder \<Rightarrow> bool" where
  "has_partial_event d \<longleftrightarrow> sd_buffer d \<noteq> [] \<or> sd_has_data d"

text \<open>
  The loop over the chunks of a response body, one \<open>push\<close> each: what was completed by earlier chunks
  has been handed on when a later one is refused.
\<close>

fun push_all :: "(u8 list \<Rightarrow> string) \<Rightarrow> u8 list list \<Rightarrow> sse_decoder \<Rightarrow>
    string list \<times> (string + sse_decoder)" where
  "push_all su [] d = ([], Inr d)"
| "push_all su (c # cs) d = (case push su c d of
     Inl err \<Rightarrow> ([], Inl err)
   | Inr (evs, d1) \<Rightarrow> (let (evs', r) = push_all su cs d1 in (evs @ evs', r)))"

section \<open>How much is held\<close>

definition held :: "sse_decoder \<Rightarrow> nat" where
  "held d = length (sd_buffer d) + length (sd_data d)"

lemma split_field_shorter:
  assumes "split_field line = (data_field, val)"
  shows "length val + 1 \<le> length line"
proof -
  have len: "length line = length (takeWhile (\<lambda>b. b \<noteq> 58) line) + length (dropWhile (\<lambda>b. b \<noteq> 58) line)"
    by (metis length_append takeWhile_dropWhile_id)
  show ?thesis
  proof (cases "dropWhile (\<lambda>b. b \<noteq> 58) line")
    case Nil
    with assms show ?thesis by (auto simp: split_field_def data_field_def)
  next
    case (Cons b raw)
    with assms have "length (takeWhile (\<lambda>b. b \<noteq> 58) line) = 4" "length val \<le> length raw"
      by (auto simp: split_field_def data_field_def split: list.splits if_splits)
    with len Cons show ?thesis by simp
  qed
qed

lemma consume_line_held:
  assumes "consume_line su line d = Inr (ev, d')"
  shows "held d' \<le> held d + length line"
proof (cases "line = [] \<or> hd line = 58 \<or> fst (split_field line) \<noteq> data_field")
  case True
  with assms show ?thesis
    by (auto simp: consume_line_def held_def split: if_splits prod.splits)
next
  case False
  then obtain val where v: "split_field line = (data_field, val)"
    by (cases "split_field line") auto
  with False assms have "d' = d\<lparr>sd_data := sd_data d @ (if sd_has_data d then [CHR 0x0A] else [])
      @ text_of val, sd_has_data := True\<rparr>"
    by (auto simp: consume_line_def split: if_splits)
  then have "held d' \<le> held d + length val + 1" by (simp add: held_def)
  with split_field_shorter [OF v] show ?thesis by simp
qed

lemma drain_held:
  "drain su d = Inr (evs, d') \<Longrightarrow> held d' \<le> held d \<and> length (sd_buffer d') \<le> length (sd_buffer d)"
proof (induction "length (sd_buffer d)" arbitrary: d evs rule: less_induct)
  case less
  show ?case
  proof (cases "take_line d")
    case None
    with less.prems show ?thesis by (simp add: drain.simps [of su d])
  next
    case (Some r)
    obtain line d1 where t: "take_line d = Some (line, d1)" using Some by (cases r) auto
    from less.prems t obtain ev d2 evs2 where c: "consume_line su line d1 = Inr (ev, d2)"
      and r: "drain su d2 = Inr (evs2, d')"
      by (auto simp: drain.simps [of su d] rbind_eq_Inr split: prod.splits)
    from t obtain sep where "sd_buffer d = line @ sep @ sd_buffer d1" "sd_data d1 = sd_data d"
      by (rule take_line_cases)
    then have "held d1 + length line \<le> held d" "length (sd_buffer d1) \<le> length (sd_buffer d)"
      by (simp_all add: held_def)
    moreover have "length (sd_buffer d2) < length (sd_buffer d)"
      using take_line_shorter [OF t] consume_line_buffer [OF c] by simp
    moreover note less.hyps [OF this r] consume_line_held [OF c] consume_line_buffer [OF c]
    ultimately show ?thesis by simp
  qed
qed

section \<open>Chunks do not matter\<close>

definition feed :: "u8 list \<Rightarrow> sse_decoder \<Rightarrow> sse_decoder" where
  "feed c d = d\<lparr>sd_buffer := sd_buffer d @ c\<rparr>"

lemma take_line_feed:
  assumes "take_line d = Some (line, d')"
  shows "take_line (feed c d) = Some (line, feed c d')"
proof -
  let ?P = "\<lambda>b. \<not> line_end b"
  obtain b rest where r: "dropWhile ?P (sd_buffer d) = b # rest"
    using assms by (cases "dropWhile ?P (sd_buffer d)") (auto simp: take_line_def)
  then have "\<exists>x\<in>set (sd_buffer d). \<not> ?P x"
    by (metis dropWhile_eq_Nil_conv list.distinct(1))
  then obtain x where x: "x \<in> set (sd_buffer d)" "\<not> ?P x" by blast
  then have "takeWhile ?P (sd_buffer d @ c) = takeWhile ?P (sd_buffer d)"
      "dropWhile ?P (sd_buffer d @ c) = dropWhile ?P (sd_buffer d) @ c"
    using takeWhile_append1 [of x "sd_buffer d" ?P c] dropWhile_append1 [of x "sd_buffer d" ?P c]
    by auto
  with assms r show ?thesis
    by (cases "b = 13"; cases rest) (auto simp: take_line_def feed_def Let_def split: if_splits)
qed

lemma consume_line_feed:
  "consume_line su line (feed c d) = rbind (consume_line su line d) (\<lambda>(ev, d'). Inr (ev, feed c d'))"
  by (auto simp: consume_line_def feed_def split: prod.splits)

lemma drain_feed:
  "drain su (feed c d) =
     rbind (drain su d) (\<lambda>(evs, d1). rbind (drain su (feed c d1)) (\<lambda>(evs', d2). Inr (evs @ evs', d2)))"
proof (induction "length (sd_buffer d)" arbitrary: d rule: less_induct)
  case less
  show ?case
  proof (cases "take_line d")
    case None
    then show ?thesis
      by (cases "drain su (feed c d)") (auto simp: drain.simps [of su d])
  next
    case (Some r)
    obtain line d1 where t: "take_line d = Some (line, d1)" using Some by (cases r) auto
    show ?thesis
    proof (cases "consume_line su line d1")
      case (Inl e)
      then show ?thesis using t take_line_feed [OF t]
        by (simp add: drain.simps [of su d] drain.simps [of su "feed c d"] consume_line_feed)
    next
      case (Inr p)
      obtain ev d2 where c: "consume_line su line d1 = Inr (ev, d2)" using Inr by (cases p) auto
      have "length (sd_buffer d2) < length (sd_buffer d)"
        using take_line_shorter [OF t] consume_line_buffer [OF c] by simp
      note IH = less.hyps [OF this]
      have l: "drain su (feed c d) = rbind (drain su (feed c d2)) (\<lambda>(evs, d3).
          Inr ((case ev of None \<Rightarrow> evs | Some e \<Rightarrow> e # evs), d3))"
        using take_line_feed [OF t] c
        by (simp add: drain.simps [of su "feed c d"] consume_line_feed)
      have r: "drain su d = rbind (drain su d2) (\<lambda>(evs, d3).
          Inr ((case ev of None \<Rightarrow> evs | Some e \<Rightarrow> e # evs), d3))"
        using t c by (simp add: drain.simps [of su d])
      show ?thesis
      proof (cases "drain su d2")
        case (Inl e)
        then show ?thesis unfolding l r IH by simp
      next
        case (Inr q)
        obtain evs d3 where q: "drain su d2 = Inr (evs, d3)" using Inr by (cases q) auto
        show ?thesis unfolding l r IH q
          by (cases "drain su (feed c d3)") (auto split: option.splits)
      qed
    qed
  qed
qed

lemma drain_drained: "drain su d = Inr (evs, d') \<Longrightarrow> drain su d' = Inr ([], d')"
proof (induction "length (sd_buffer d)" arbitrary: d evs rule: less_induct)
  case less
  show ?case
  proof (cases "take_line d")
    case None
    with less.prems have "d' = d" by (simp add: drain.simps [of su d])
    then show ?thesis using None by (simp add: drain.simps [of su d])
  next
    case (Some r)
    obtain line d1 where t: "take_line d = Some (line, d1)" using Some by (cases r) auto
    from less.prems t obtain ev d2 evs2 where c: "consume_line su line d1 = Inr (ev, d2)"
      and r: "drain su d2 = Inr (evs2, d')"
      by (auto simp: drain.simps [of su d] rbind_eq_Inr split: prod.splits)
    have "length (sd_buffer d2) < length (sd_buffer d)"
      using take_line_shorter [OF t] consume_line_buffer [OF c] by simp
    from less.hyps [OF this r] show ?thesis .
  qed
qed

lemma push_eq_drain:
  "held d + length c \<le> MAX_PENDING_BYTES \<Longrightarrow> push su c d = drain su (feed c d)"
  by (simp add: push_def feed_def held_def)

lemma feed_feed: "feed c' (feed c d) = feed (c @ c') d"
  by (simp add: feed_def)

lemma held_feed: "held (feed c d) = held d + length c"
  by (simp add: held_def feed_def)

text \<open>The events in front of the first line that is refused.\<close>

function sound_events :: "(u8 list \<Rightarrow> string) \<Rightarrow> sse_decoder \<Rightarrow> string list" where
  "sound_events su d = (case take_line d of
     None \<Rightarrow> []
   | Some (line, d1) \<Rightarrow> (case consume_line su line d1 of
       Inl _ \<Rightarrow> []
     | Inr (ev, d2) \<Rightarrow> (case ev of None \<Rightarrow> [] | Some e \<Rightarrow> [e]) @ sound_events su d2))"
  by pat_completeness auto
termination
  by (relation "measure (\<lambda>(su, d). length (sd_buffer d))")
     (auto simp: consume_line_buffer take_line_shorter)

declare sound_events.simps [simp del]

lemma sound_events_feed:
  "drain su d = Inr (evs, d1) \<Longrightarrow> sound_events su (feed c d) = evs @ sound_events su (feed c d1)"
proof (induction "length (sd_buffer d)" arbitrary: d evs rule: less_induct)
  case less
  show ?case
  proof (cases "take_line d")
    case None
    with less.prems show ?thesis by (simp add: drain.simps [of su d])
  next
    case (Some r)
    obtain line d2 where t: "take_line d = Some (line, d2)" using Some by (cases r) auto
    from less.prems t obtain ev d3 evs2 where c: "consume_line su line d2 = Inr (ev, d3)"
      and r: "drain su d3 = Inr (evs2, d1)" and evs: "evs = (case ev of None \<Rightarrow> evs2 | Some e \<Rightarrow> e # evs2)"
      by (auto simp: drain.simps [of su d] rbind_eq_Inr split: prod.splits)
    have "length (sd_buffer d3) < length (sd_buffer d)"
      using take_line_shorter [OF t] consume_line_buffer [OF c] by simp
    from less.hyps [OF this r] evs show ?thesis
      by (simp add: sound_events.simps [of su "feed c d"] take_line_feed [OF t] consume_line_feed c
          split: option.splits)
  qed
qed

lemma drain_sound: "drain su d = Inr (evs, d1) \<Longrightarrow> sound_events su d = evs"
proof (induction "length (sd_buffer d)" arbitrary: d evs rule: less_induct)
  case less
  show ?case
  proof (cases "take_line d")
    case None
    with less.prems have "evs = []" by (simp add: drain.simps [of su d])
    with None show ?thesis by (simp add: sound_events.simps [of su d])
  next
    case (Some r)
    obtain line d2 where t: "take_line d = Some (line, d2)" using Some by (cases r) auto
    from less.prems t obtain ev d3 evs2 where c: "consume_line su line d2 = Inr (ev, d3)"
      and r: "drain su d3 = Inr (evs2, d1)" and evs: "evs = (case ev of None \<Rightarrow> evs2 | Some e \<Rightarrow> e # evs2)"
      by (auto simp: drain.simps [of su d] rbind_eq_Inr split: prod.splits)
    have "length (sd_buffer d3) < length (sd_buffer d)"
      using take_line_shorter [OF t] consume_line_buffer [OF c] by simp
    from less.hyps [OF this r] evs t c show ?thesis
      by (simp add: sound_events.simps [of su d] split: option.splits)
  qed
qed

text \<open>Chunk by chunk is the same as all at once, except that what the refused chunk completed is not
  handed on.\<close>

lemma push_all_drain:
  assumes "drain su d = Inr ([], d)" and "held d + length (concat cs) \<le> MAX_PENDING_BYTES"
  shows "snd (push_all su cs d) = (case drain su (feed (concat cs) d) of Inl e \<Rightarrow> Inl e | Inr (_, d') \<Rightarrow> Inr d')
    \<and> prefix (fst (push_all su cs d)) (sound_events su (feed (concat cs) d))
    \<and> (\<forall>d'. snd (push_all su cs d) = Inr d' \<longrightarrow>
         fst (push_all su cs d) = sound_events su (feed (concat cs) d))"
  using assms
proof (induction cs arbitrary: d)
  case Nil
  then show ?case using drain_sound [of su d "[]" d] by (simp add: feed_def)
next
  case (Cons c cs)
  have p: "push su c d = drain su (feed c d)" using Cons.prems by (intro push_eq_drain) simp
  have f: "feed (concat (c # cs)) d = feed (concat cs) (feed c d)" by (simp add: feed_feed)
  show ?case
  proof (cases "drain su (feed c d)")
    case (Inl e)
    then show ?thesis unfolding f drain_feed [of su "concat cs" "feed c d"] by (simp add: p)
  next
    case (Inr r)
    obtain evs d1 where r: "drain su (feed c d) = Inr (evs, d1)" using Inr by (cases r) auto
    have "held d1 \<le> held d + length c" using drain_held [OF r] by (simp add: held_feed)
    then have IH: "snd (push_all su cs d1) = (case drain su (feed (concat cs) d1) of Inl e \<Rightarrow> Inl e | Inr (_, d') \<Rightarrow> Inr d')
      \<and> prefix (fst (push_all su cs d1)) (sound_events su (feed (concat cs) d1))
      \<and> (\<forall>d'. snd (push_all su cs d1) = Inr d' \<longrightarrow>
           fst (push_all su cs d1) = sound_events su (feed (concat cs) d1))"
      using Cons.prems(2) by (intro Cons.IH drain_drained [OF r]) simp
    then show ?thesis unfolding f drain_feed [of su "concat cs" "feed c d"] sound_events_feed [OF r]
      by (cases "drain su (feed (concat cs) d1)") (auto simp: p r split: prod.splits)
  qed
qed

lemma drain_new [simp]: "drain su new_decoder = Inr ([], new_decoder)"
proof -
  have "take_line new_decoder = None" by (simp add: take_line_def new_decoder_def)
  then show ?thesis by (simp add: drain.simps [of su new_decoder])
qed

lemma held_new [simp]: "held new_decoder = 0"
  by (simp add: held_def new_decoder_def)

section \<open>Encoding\<close>

text \<open>How a server writes an event whose payload has the given lines.\<close>

definition encode_line :: "u8 list \<Rightarrow> u8 list" where
  "encode_line l = data_field @ [58, 32] @ l @ [10]"

definition encode_event :: "u8 list list \<Rightarrow> u8 list" where
  "encode_event ls = concat (map encode_line ls) @ [10]"

fun event_payload :: "u8 list list \<Rightarrow> string" where
  "event_payload [] = []"
| "event_payload (l # ls) = text_of l @ concat (map (\<lambda>m. CHR 0x0A # text_of m) ls)"

definition sendable :: "u8 list list \<Rightarrow> bool" where
  "sendable ls \<longleftrightarrow> ls \<noteq> [] \<and> (\<forall>l\<in>set ls. valid_utf8 l \<and> (\<forall>b\<in>set l. \<not> line_end b))"

lemma take_line_clean:
  assumes "\<forall>b\<in>set line. \<not> line_end b"
  shows "take_line (d\<lparr>sd_buffer := line @ 10 # rest\<rparr>) = Some (line, d\<lparr>sd_buffer := rest\<rparr>)"
proof -
  have "\<not> \<not> line_end (10 :: u8)" by (simp add: line_end_def)
  then have "takeWhile (\<lambda>b. \<not> line_end b) (line @ 10 # rest) = line"
    "dropWhile (\<lambda>b. \<not> line_end b) (line @ 10 # rest) = 10 # rest"
    using assms by (simp_all add: takeWhile_append2 dropWhile_append2)
  then show ?thesis by (simp add: take_line_def)
qed

lemma split_data_line: "split_field (data_field @ [58, 32] @ l) = (data_field, l)"
  by (simp add: split_field_def data_field_def)

lemma drain_data_line:
  assumes "valid_utf8 l" and "\<forall>b\<in>set l. \<not> line_end b"
  shows "drain su (d\<lparr>sd_buffer := encode_line l @ rest\<rparr>) =
    drain su (d\<lparr>sd_buffer := rest,
      sd_data := sd_data d @ (if sd_has_data d then [CHR 0x0A] else []) @ text_of l,
      sd_has_data := True\<rparr>)"
proof -
  let ?line = "data_field @ [58, 32] @ l"
  have "\<forall>b\<in>set ?line. \<not> line_end b" using assms by (auto simp: data_field_def line_end_def)
  then have t: "take_line (d\<lparr>sd_buffer := encode_line l @ rest\<rparr>) = Some (?line, d\<lparr>sd_buffer := rest\<rparr>)"
    using take_line_clean [of ?line rest d] by (simp add: encode_line_def)
  have "?line \<noteq> []" "hd ?line \<noteq> 58" by (simp_all add: data_field_def)
  then have "consume_line su ?line (d\<lparr>sd_buffer := rest\<rparr>) = Inr (None, d\<lparr>sd_buffer := rest,
      sd_data := sd_data d @ (if sd_has_data d then [CHR 0x0A] else []) @ text_of l,
      sd_has_data := True\<rparr>)"
    using assms(1) split_data_line [of l] by (simp add: consume_line_def)
  then show ?thesis
    by (simp add: drain.simps [of su "d\<lparr>sd_buffer := encode_line l @ rest\<rparr>"] t)
       (cases "drain su (d\<lparr>sd_buffer := rest,
          sd_data := sd_data d @ (if sd_has_data d then [CHR 0x0A] else []) @ text_of l,
          sd_has_data := True\<rparr>)"; auto)
qed

lemma drain_more_lines:
  assumes "\<forall>l\<in>set ls. valid_utf8 l \<and> (\<forall>b\<in>set l. \<not> line_end b)" and "sd_has_data d"
  shows "drain su (d\<lparr>sd_buffer := concat (map encode_line ls) @ rest\<rparr>) =
    drain su (d\<lparr>sd_buffer := rest, sd_data := sd_data d @ concat (map (\<lambda>m. CHR 0x0A # text_of m) ls)\<rparr>)"
  using assms
proof (induction ls arbitrary: d)
  case (Cons l ls)
  let ?d = "d\<lparr>sd_data := sd_data d @ CHR 0x0A # text_of l\<rparr>"
  have eq: "?d\<lparr>sd_buffer := b\<rparr> = d\<lparr>sd_buffer := b, sd_data := sd_data d @ CHR 0x0A # text_of l,
      sd_has_data := True\<rparr>" for b
    using Cons.prems(2) by (cases d) simp
  have "drain su (d\<lparr>sd_buffer := concat (map encode_line (l # ls)) @ rest\<rparr>)
      = drain su (?d\<lparr>sd_buffer := concat (map encode_line ls) @ rest\<rparr>)"
    unfolding eq using Cons.prems by (simp add: drain_data_line)
  also have "\<dots> = drain su (?d\<lparr>sd_buffer := rest,
      sd_data := sd_data ?d @ concat (map (\<lambda>m. CHR 0x0A # text_of m) ls)\<rparr>)"
    using Cons.prems by (intro Cons.IH) auto
  finally show ?case by (cases d) simp
qed simp

lemma drain_event:
  assumes "sendable ls"
  shows "drain su (feed (encode_event ls @ rest) new_decoder) =
    rbind (drain su (feed rest new_decoder)) (\<lambda>(evs, d). Inr (event_payload ls # evs, d))"
proof -
  obtain l ls' where ls: "ls = l # ls'" using assms by (cases ls) (auto simp: sendable_def)
  with assms have l: "valid_utf8 l" "\<forall>b\<in>set l. \<not> line_end b"
    and ls': "\<forall>l\<in>set ls'. valid_utf8 l \<and> (\<forall>b\<in>set l. \<not> line_end b)" by (auto simp: sendable_def)
  let ?d1 = "new_decoder\<lparr>sd_data := text_of l, sd_has_data := True\<rparr>"
  let ?d2 = "new_decoder\<lparr>sd_data := event_payload ls, sd_has_data := True\<rparr>"
  have "drain su (feed (encode_event ls @ rest) new_decoder)
      = drain su (?d1\<lparr>sd_buffer := concat (map encode_line ls') @ (10 # rest)\<rparr>)"
    using drain_data_line [OF l, of su "concat (map encode_line ls') @ (10 # rest)" new_decoder]
    by (simp add: ls encode_event_def feed_def new_decoder_def)
  also have "\<dots> = drain su (?d2\<lparr>sd_buffer := [] @ 10 # rest\<rparr>)"
    using drain_more_lines [OF ls', of ?d1 su "10 # rest"] by (simp add: ls new_decoder_def)
  also have "\<dots> = rbind (drain su (feed rest new_decoder)) (\<lambda>(evs, d). Inr (event_payload ls # evs, d))"
    using take_line_clean [of "[]" rest ?d2]
    by (simp add: drain.simps [of su "\<lparr>sd_buffer = 10 # rest, sd_data = event_payload ls,
          sd_has_data = True\<rparr>"] consume_line_def feed_def new_decoder_def)
  finally show ?thesis .
qed

lemma drain_events:
  "\<forall>ls\<in>set evs. sendable ls \<Longrightarrow>
   drain su (feed (concat (map encode_event evs)) new_decoder) = Inr (map event_payload evs, new_decoder)"
proof (induction evs)
  case Nil
  have "feed [] new_decoder = new_decoder" by (simp add: feed_def new_decoder_def)
  then show ?case by simp
next
  case (Cons e evs)
  then show ?case using drain_event [of e su "concat (map encode_event evs)"] by simp
qed

text \<open>Every beginning of what a server writes is decoded without an error, and less is held than one
  event.\<close>

lemma drain_beginning:
  assumes "prefix p (concat (map encode_event evs))" and "\<forall>ls\<in>set evs. sendable ls"
  shows "\<exists>evs0 d. drain su (feed p new_decoder) = Inr (evs0, d)
    \<and> (held d = 0 \<or> (\<exists>ls\<in>set evs. held d \<le> length (encode_event ls)))"
  using assms
proof (induction evs arbitrary: p)
  case Nil
  then show ?case by (auto simp: feed_def intro: exI [of _ "[]"])
next
  case (Cons e evs)
  show ?case
  proof (cases "prefix p (encode_event e)")
    case True
    then obtain q where q: "encode_event e = p @ q" by (auto simp: prefix_def)
    have whole: "drain su (feed (encode_event e) new_decoder) \<noteq> Inl err" for err
      using drain_events [of "[e]" su] Cons.prems(2) by simp
    have "drain su (feed p new_decoder) \<noteq> Inl err" for err
      using whole [of err] unfolding q feed_feed [symmetric] drain_feed [of su q "feed p new_decoder"] by auto
    then obtain evs0 d where d: "drain su (feed p new_decoder) = Inr (evs0, d)"
      by (metis old.prod.exhaust old.sum.exhaust)
    have "held d \<le> length (encode_event e)" using drain_held [OF d] by (simp add: held_feed q)
    with d show ?thesis by auto
  next
    case False
    with Cons.prems(1) obtain p' where p: "p = encode_event e @ p'"
      and "prefix p' (concat (map encode_event evs))" by (auto simp: prefix_append)
    with Cons.IH [of p'] Cons.prems(2) obtain evs0 d where
      "drain su (feed p' new_decoder) = Inr (evs0, d)"
      "held d = 0 \<or> (\<exists>ls\<in>set evs. held d \<le> length (encode_event ls))" by auto
    with drain_event [of e su p'] Cons.prems(2) show ?thesis by (auto simp: p)
  qed
qed

definition fits :: "u8 list list \<Rightarrow> u8 list list list \<Rightarrow> bool" where
  "fits cs evs \<longleftrightarrow> (\<forall>c\<in>set cs. \<forall>ls\<in>set evs. length c + length (encode_event ls) \<le> MAX_PENDING_BYTES)"

lemma push_all_from:
  assumes "p @ concat cs = concat (map encode_event evs)" and "\<forall>ls\<in>set evs. sendable ls"
    and "fits cs evs" and "drain su (feed p new_decoder) = Inr (evs0, d)"
  shows "\<exists>evs1. push_all su cs d = (evs1, Inr new_decoder) \<and> evs0 @ evs1 = map event_payload evs"
  using assms(1,3,4)
proof (induction cs arbitrary: p evs0 d)
  case Nil
  with drain_events [OF assms(2), of su] show ?case by simp
next
  case (Cons c cs)
  have "prefix p (concat (map encode_event evs))" "prefix (p @ c) (concat (map encode_event evs))"
    using Cons.prems(1) prefixI [of _ p "c @ concat cs"] prefixI [of _ "p @ c" "concat cs"] by simp_all
  from drain_beginning [OF this(1) assms(2), of su] drain_beginning [OF this(2) assms(2), of su] Cons.prems(3)
  obtain evs2 d2 where held: "held d = 0 \<or> (\<exists>ls\<in>set evs. held d \<le> length (encode_event ls))"
    and d2: "drain su (feed (p @ c) new_decoder) = Inr (evs2, d2)" by auto
  have "length c \<le> MAX_PENDING_BYTES"
  proof (cases evs)
    case Nil
    with Cons.prems(1) show ?thesis by simp
  next
    case (Cons e evs')
    with Cons.prems(2) show ?thesis by (auto simp: fits_def)
  qed
  with held Cons.prems(2) have "held d + length c \<le> MAX_PENDING_BYTES" by (fastforce simp: fits_def)
  then have push: "push su c d = drain su (feed c d)" by (rule push_eq_drain)
  from d2 obtain evs1 where e1: "drain su (feed c d) = Inr (evs1, d2)" "evs2 = evs0 @ evs1"
    unfolding feed_feed [symmetric] drain_feed [of su c "feed p new_decoder"] Cons.prems(3)
    by (auto simp: rbind_eq_Inr split: prod.splits)
  have "fits cs evs" using Cons.prems(2) by (simp add: fits_def)
  with Cons.IH [OF _ _ d2] Cons.prems(1) obtain evs3 where
    "push_all su cs d2 = (evs3, Inr new_decoder)" "evs2 @ evs3 = map event_payload evs" by auto
  with push e1 show ?case by simp
qed

lemma push_all_events:
  assumes "\<forall>ls\<in>set evs. sendable ls" and "concat cs = concat (map encode_event evs)" and "fits cs evs"
  shows "push_all su cs new_decoder = (map event_payload evs, Inr new_decoder)"
proof -
  have "feed [] new_decoder = new_decoder" by (simp add: feed_def)
  then have "drain su (feed [] new_decoder) = Inr ([], new_decoder)" by simp
  with push_all_from [of "[]" cs evs su "[]" new_decoder] assms show ?thesis by simp
qed

lemma fits_small:
  assumes "concat cs = concat (map encode_event evs)"
    and "2 * length (concat cs) \<le> MAX_PENDING_BYTES"
  shows "fits cs evs"
proof -
  have "length c \<le> length (concat cs)" if "c \<in> set cs" for c
    using that by (induction cs) auto
  moreover have "length (encode_event ls) \<le> length (concat (map encode_event evs))" if "ls \<in> set evs" for ls
    using that by (induction evs) auto
  ultimately show ?thesis using assms unfolding fits_def by fastforce
qed

section \<open>Properties\<close>

text \<open>C12: transport framing does not change what is decoded. Two ways of cutting the same bytes, of at
  most 8 MiB in all, into chunks end in the same error or the same decoder state, wherever the cuts
  fall: inside a key, a character or a line ending. Without an error they hand on the same events, all
  that the bytes contain; before an error each hands on a beginning of the events in front of the
  broken line, where a cut decides only how long a beginning: the chunk that is refused hands on none
  of the events it completed.\<close>

theorem chunking_invisible:
  assumes "concat cs = concat cs'" and "length (concat cs) \<le> MAX_PENDING_BYTES"
  shows "snd (push_all su cs new_decoder) = snd (push_all su cs' new_decoder)
    \<and> prefix (fst (push_all su cs new_decoder)) (sound_events su (feed (concat cs) new_decoder))
    \<and> (\<forall>d. snd (push_all su cs new_decoder) = Inr d \<longrightarrow>
         fst (push_all su cs new_decoder) = sound_events su (feed (concat cs) new_decoder)
         \<and> fst (push_all su cs' new_decoder) = fst (push_all su cs new_decoder))"
  using push_all_drain [of su new_decoder cs] push_all_drain [of su new_decoder cs'] assms by auto

theorem chunking_invisible_witness:
  "push_all (\<lambda>_. []) [[100, 97, 116], [97, 58], [32, 195], [169, 10], [10]] new_decoder
   = push_all (\<lambda>_. []) [[100, 97, 116, 97, 58, 32, 195, 169, 10, 10]] new_decoder"
proof -
  let ?cs = "[[100, 97, 116], [97, 58], [32, 195], [169, 10], [10]] :: u8 list list"
  let ?all = "[100, 97, 116, 97, 58, 32, 195, 169, 10, 10] :: u8 list"
  have "valid_utf8 [195, 169]" by code_simp
  with push_all_drain [of "\<lambda>_. []" new_decoder "[?all]"] drain_events [of "[[[195, 169]]]" "\<lambda>_. []"]
  have "snd (push_all (\<lambda>_. []) [?all] new_decoder) = Inr new_decoder"
    by (simp add: MAX_PENDING_BYTES_def sendable_def line_end_def encode_event_def encode_line_def data_field_def
        del: push_all.simps)
  with chunking_invisible [of ?cs "[?all]" "\<lambda>_. []"] show ?thesis
    by (simp add: MAX_PENDING_BYTES_def prod_eq_iff del: push_all.simps)
qed

text \<open>Framing shows where decoding fails. An event and a broken line behind it that arrive in one chunk
  yield no event; cut between them, they yield it.\<close>

lemma framing_shows_on_errors:
  "fst (push_all su [encode_event [[104]], [100, 97, 116, 97, 58, 255, 10]] new_decoder) = [''h'']
   \<and> fst (push_all su [encode_event [[104]] @ [100, 97, 116, 97, 58, 255, 10]] new_decoder) = []"
proof -
  let ?bad = "[100, 97, 116, 97, 58, 255, 10] :: u8 list"
  have bad: "take_line (feed ?bad new_decoder) = Some ([100, 97, 116, 97, 58, 255], new_decoder)"
    by (simp add: take_line_def feed_def new_decoder_def line_end_def)
  have "\<not> valid_utf8 [255]" by code_simp
  then have "\<exists>e. consume_line su [100, 97, 116, 97, 58, 255] new_decoder = Inl e"
    by (simp add: consume_line_def split_field_def data_field_def)
  then obtain e where e: "drain su (feed ?bad new_decoder) = Inl e"
    by (auto simp: drain.simps [of su "feed _ _"] bad)
  have s: "sendable [[104]]" by (simp add: sendable_def line_end_def)
  have small: "length (encode_event [[104]] @ ?bad) \<le> MAX_PENDING_BYTES"
    by (simp add: encode_event_def encode_line_def data_field_def MAX_PENDING_BYTES_def)
  from drain_events [of "[[[104]]]" su] s have
    one: "drain su (feed (encode_event [[104]]) new_decoder) = Inr ([''h''], new_decoder)"
    by simp code_simp
  with drain_event [OF s, of su ?bad] e small show ?thesis by (simp add: push_eq_drain)
qed

text \<open>C13: what a server writes is what is read. However the encoding of a list of events, each
  with one or more lines of valid text, is cut into chunks of which none is above 8 MiB together with
  any one of the events, decoding yields exactly their payloads in order, however long the stream,
  and nothing is left over that would count as a truncated event.\<close>

theorem sse_round_trip:
  assumes "\<forall>ls\<in>set evs. sendable ls" and "concat cs = concat (map encode_event evs)"
    and "\<forall>c\<in>set cs. \<forall>ls\<in>set evs. length c + length (encode_event ls) \<le> MAX_PENDING_BYTES"
  shows "\<exists>d. push_all su cs new_decoder = (map event_payload evs, Inr d) \<and> \<not> has_partial_event d"
  using push_all_events [of evs cs su] assms by (simp add: fits_def has_partial_event_def new_decoder_def)

theorem sse_round_trip_witness:
  "\<exists>d. push_all (\<lambda>_. []) [[100, 97, 116, 97, 58, 32, 104], [105, 10, 10]] new_decoder
     = ([text_of [104, 105]], Inr d) \<and> \<not> has_partial_event d"
  using sse_round_trip [of "[[[104, 105]]]" "[[100, 97, 116, 97, 58, 32, 104], [105, 10, 10]]" "\<lambda>_. []"]
  by (simp add: sendable_def line_end_def encode_event_def encode_line_def data_field_def
      MAX_PENDING_BYTES_def)

text \<open>memory is bounded. A \<open>push\<close> that succeeds leaves at most 8 MiB of undecided bytes and
  at most 16 MiB in all, whatever the backend sends and whatever state the decoder was in.\<close>

theorem push_bounded:
  assumes "push su chunk d = Inr (evs, d')"
  shows "length (sd_buffer d') \<le> MAX_PENDING_BYTES \<and> held d' \<le> 2 * MAX_PENDING_BYTES"
proof -
  let ?d = "d\<lparr>sd_buffer := sd_buffer d @ chunk\<rparr>"
  from assms have "drain su ?d = Inr (evs, d')"
    and "length (sd_buffer ?d) \<le> MAX_PENDING_BYTES" "length (sd_data ?d) \<le> MAX_PENDING_BYTES"
    by (auto simp: push_def Let_def split: if_splits)
  then show ?thesis using drain_held [of su ?d evs d'] by (simp add: held_def)
qed

theorem push_bounded_witness:
  "held (snd (projr (push (\<lambda>_. []) [58] new_decoder))) \<le> 2 * MAX_PENDING_BYTES"
proof -
  have "push (\<lambda>_. []) [58] new_decoder = Inr ([], new_decoder\<lparr>sd_buffer := [58]\<rparr>)"
    by (simp add: push_def MAX_PENDING_BYTES_def new_decoder_def take_line_def line_end_def
        drain.simps [of _ "\<lparr>sd_buffer = [58], sd_data = [], sd_has_data = False\<rparr>"])
  from push_bounded [OF this] this show ?thesis by simp
qed

end
