(* ===== verification/Worker.thy ===== *)
theory Worker
  imports Cancel
begin

text \<open>
  Backend worker supervision (\<open>mehoy-core/src/worker/\<close> and \<open>mehoy-core/src/event.rs\<close>): the
  state machine, the deadlines, the bounded log and the operations on a child process.

  The operating system is the record \<open>os\<close>: what the \<open>n\<close>-th system call about the child finds.
  It decides when the child exits by itself and which calls fail; the laws it must obey (an
  exit is final, a kill that is accepted ends the process, \<open>wait\<close> returns only when it has
  ended) are built into \<open>os_look\<close>, \<open>os_try_wait\<close>, \<open>os_kill\<close> and \<open>os_wait_within\<close>. The handle
  carries the process it started as \<open>wh_process\<close>, which remains after the handle has let go of
  it, and the number of system calls so far. Reading the child's pipes has no effect on the
  supervision and is the subject of \<open>Output\<close>; platform lifetime control (job objects, parent-death
  signals) is that of \<open>Lifetime\<close>.
\<close>

section \<open>State machine\<close>

datatype worker_state = Absent | WStarting | Ready | Draining | Stopping | WFailed

definition worker_is_usable :: "worker_state \<Rightarrow> bool" where
  "worker_is_usable s = (s = Ready)"

definition worker_is_terminal :: "worker_state \<Rightarrow> bool" where
  "worker_is_terminal s = (s = WFailed)"

fun can_transition_to :: "worker_state \<Rightarrow> worker_state \<Rightarrow> bool" where
  "can_transition_to Absent WStarting = True"
| "can_transition_to WStarting Ready = True"
| "can_transition_to WStarting WFailed = True"
| "can_transition_to Ready Draining = True"
| "can_transition_to Ready WFailed = True"
| "can_transition_to Draining Stopping = True"
| "can_transition_to Draining WFailed = True"
| "can_transition_to Stopping Absent = True"
| "can_transition_to Stopping WFailed = True"
| "can_transition_to _ _ = False"

fun show_worker_state :: "worker_state \<Rightarrow> string" where
  "show_worker_state Absent = ''absent''"
| "show_worker_state WStarting = ''starting''"
| "show_worker_state Ready = ''ready''"
| "show_worker_state Draining = ''draining''"
| "show_worker_state Stopping = ''stopping''"
| "show_worker_state WFailed = ''failed''"

datatype worker_state_error = WorkerStateError worker_state worker_state

definition transition_to :: "worker_state \<Rightarrow> worker_state \<Rightarrow> worker_state_error + worker_state" where
  "transition_to s next = (if can_transition_to s next then Inr next else Inl (WorkerStateError s next))"

fun show_state_error :: "worker_state_error \<Rightarrow> string" where
  "show_state_error (WorkerStateError f t) =
     ''a worker cannot go from '' @ show_worker_state f @ '' to '' @ show_worker_state t"

section \<open>Specification\<close>

datatype stop_protocol = ShutdownLine | Terminate

record worker_deadlines =
  startup :: duration
  shutdown_budget :: duration
  health :: duration

definition default_deadlines :: worker_deadlines where
  "default_deadlines = \<lparr>startup = seconds 30, shutdown_budget = seconds 10, health = seconds 5\<rparr>"

record worker_spec =
  ws_id :: worker_id
  ws_program :: string
  ws_args :: "string list"
  ws_deadlines :: worker_deadlines
  ws_capture_lines :: nat
  ws_stop :: stop_protocol

datatype worker_ready = WorkerReady string

type_synonym exit_code = "int option"

datatype exit_cause = Requested | Unexpected exit_code | StartupTimeoutExit | Killed

definition is_expected :: "exit_cause \<Rightarrow> bool" where
  "is_expected c = (c = Requested)"

datatype worker_error =
  SpawnError string string
| StartupTimeout duration
| ExitedDuringStartup exit_code
| ShutdownTimeout duration
| InvalidState worker_state_error
| IoError string

fun show_worker_error :: "(duration \<Rightarrow> string) \<Rightarrow> worker_error \<Rightarrow> string" where
  "show_worker_error secs (SpawnError program err) = ''cannot start worker '' @ program @ '': '' @ err"
| "show_worker_error secs (StartupTimeout waited) =
     ''worker did not become ready within '' @ secs waited @ ''s''"
| "show_worker_error secs (ExitedDuringStartup code) =
     ''worker exited before becoming ready (status ''
     @ (case code of None \<Rightarrow> ''unknown'' | Some c \<Rightarrow> show_int c) @ '')''"
| "show_worker_error secs (ShutdownTimeout waited) =
     ''worker ignored shutdown for '' @ secs waited @ ''s and was terminated''"
| "show_worker_error secs (InvalidState err) = show_state_error err"
| "show_worker_error secs (IoError err) = ''worker supervision failure: '' @ err"

section \<open>Events\<close>

datatype inference_event =
  InferenceStarted request_id
| Token request_id u64 string
| InferenceCompleted request_id u64
| InferenceFailed request_id string

fun inference_request_id :: "inference_event \<Rightarrow> request_id" where
  "inference_request_id (InferenceStarted i) = i"
| "inference_request_id (Token i _ _) = i"
| "inference_request_id (InferenceCompleted i _) = i"
| "inference_request_id (InferenceFailed i _) = i"

fun inference_is_terminal :: "inference_event \<Rightarrow> bool" where
  "inference_is_terminal (InferenceCompleted _ _) = True"
| "inference_is_terminal (InferenceFailed _ _) = True"
| "inference_is_terminal _ = False"

datatype runtime_event =
  WorkerStarted worker_id
| WorkerExited worker_id exit_cause
| ModelLoaded model_id worker_id
| ModelUnloaded model_id

section \<open>Log\<close>

datatype log_stream = Stdout | Stderr

fun show_log_stream :: "log_stream \<Rightarrow> string" where
  "show_log_stream Stdout = ''stdout''"
| "show_log_stream Stderr = ''stderr''"

record log_line =
  l_stream :: log_stream
  l_at :: nat
  l_text :: string

definition show_log_line :: "log_line \<Rightarrow> string" where
  "show_log_line l = ''['' @ show_log_stream (l_stream l) @ ''] '' @ l_text l"

definition DEFAULT_CAPTURE_LINES :: nat where
  "DEFAULT_CAPTURE_LINES = 512"

record worker_log =
  lg_capacity :: nat
  lg_lines :: "log_line list"
  lg_total :: u64

definition log_with_capacity :: "nat \<Rightarrow> worker_log" where
  "log_with_capacity n = \<lparr>lg_capacity = max n 1, lg_lines = [], lg_total = 0\<rparr>"

definition log_push :: "log_line \<Rightarrow> worker_log \<Rightarrow> worker_log" where
  "log_push l g =
     (let kept = (if length (lg_lines g) = lg_capacity g then tl (lg_lines g) else lg_lines g)
      in g\<lparr>lg_lines := kept @ [l], lg_total := saturating_add (lg_total g) 1\<rparr>)"

definition lines_from :: "log_stream \<Rightarrow> worker_log \<Rightarrow> log_line list" where
  "lines_from s g = filter (\<lambda>l. l_stream l = s) (lg_lines g)"

definition log_dropped :: "worker_log \<Rightarrow> u64" where
  "log_dropped g = saturating_sub (lg_total g) (of_nat (length (lg_lines g)))"

definition log_render :: "worker_log \<Rightarrow> string" where
  "log_render g =
     (if 0 < log_dropped g
      then ''... '' @ show_u64 (log_dropped g) @ '' earlier line(s) dropped ...'' @ [CHR 0x0A] else [])
     @ concat (map (\<lambda>l. show_log_line l @ [CHR 0x0A]) (lg_lines g))"

definition log_record :: "log_stream \<Rightarrow> nat \<Rightarrow> string \<Rightarrow> worker_log \<Rightarrow> worker_log" where
  "log_record s now t g = log_push \<lparr>l_stream = s, l_at = now, l_text = t\<rparr> g"

lemma log_lines_recent:
  assumes "lg_capacity g = c" and "0 < c" and "length (lg_lines g) \<le> c"
  shows "lg_lines (fold log_push ls g) = drop (length (lg_lines g @ ls) - c) (lg_lines g @ ls)
    \<and> lg_capacity (fold log_push ls g) = c"
  using assms
proof (induction ls arbitrary: g)
  case Nil
  then show ?case by simp
next
  case (Cons l ls)
  let ?g = "log_push l g"
  have g: "lg_lines ?g = drop (length (lg_lines g) + 1 - c) (lg_lines g @ [l])" "lg_capacity ?g = c"
    using Cons.prems by (auto simp: log_push_def Let_def drop_Suc)
  then have "lg_lines (fold log_push ls ?g) = drop (length (lg_lines ?g @ ls) - c) (lg_lines ?g @ ls)
      \<and> lg_capacity (fold log_push ls ?g) = c"
    using Cons.prems by (intro Cons.IH) auto
  moreover have "drop (length (lg_lines ?g @ ls) - c) (lg_lines ?g @ ls)
      = drop (length (lg_lines g @ l # ls) - c) (lg_lines g @ l # ls)"
  proof (cases "length (lg_lines g) = c")
    case True
    then obtain x xs where "lg_lines g = x # xs" using Cons.prems(2) by (cases "lg_lines g") auto
    with True g show ?thesis by (simp add: Suc_diff_le)
  next
    case False
    with g Cons.prems show ?thesis by simp
  qed
  ultimately show ?case by simp
qed

lemma log_total_count:
  "unat (lg_total g) + length ls \<le> u64_max \<Longrightarrow>
   unat (lg_total (fold log_push ls g)) = unat (lg_total g) + length ls"
proof (induction ls arbitrary: g)
  case (Cons l ls)
  have "unat (lg_total (log_push l g)) = unat (lg_total g) + 1"
    using Cons.prems by (simp add: log_push_def Let_def unat_saturating_add)
  then show ?case using Cons by simp
qed simp

text \<open>a worker's log holds exactly the most recent lines, at most its capacity and never
  fewer than it could, and the number it reports as dropped is exactly the number missing, so a
  report never passes for complete when it is not.\<close>

theorem log_keeps_recent:
  assumes "length ls \<le> u64_max"
  shows "lg_lines (fold log_push ls (log_with_capacity n)) = drop (length ls - max n 1) ls
    \<and> unat (log_dropped (fold log_push ls (log_with_capacity n))) = length ls - max n 1"
proof -
  let ?g = "fold log_push ls (log_with_capacity n)"
  have lines: "lg_lines ?g = drop (length ls - max n 1) ls"
    using log_lines_recent [of "log_with_capacity n" "max n 1" ls] by (simp add: log_with_capacity_def)
  have total: "unat (lg_total ?g) = length ls"
    using log_total_count [of "log_with_capacity n" ls] assms by (simp add: log_with_capacity_def)
  have "length (lg_lines ?g) < 2 ^ 64" using lines assms by (simp add: u64_max_def)
  then have "unat (of_nat (length (lg_lines ?g)) :: u64) = length (lg_lines ?g)"
    by (rule unat_of_nat_u64)
  then have "unat (log_dropped ?g) = length ls - length (lg_lines ?g)"
    by (simp add: log_dropped_def unat_saturating_sub total)
  with lines show ?thesis by simp
qed

theorem log_keeps_recent_witness:
  "map l_text (lg_lines (fold log_push
     (map (\<lambda>t. \<lparr>l_stream = Stderr, l_at = 0, l_text = t\<rparr>) [''a'', ''b'', ''c'']) (log_with_capacity 2)))
   = [''b'', ''c'']"
  using log_keeps_recent [of "map (\<lambda>t. \<lparr>l_stream = Stderr, l_at = 0, l_text = t\<rparr>) [''a'', ''b'', ''c'']" 2]
  by (simp add: u64_max_def)

end
