(* ===== verification/Process.thy ===== *)
theory Process
  imports Worker
begin

text \<open>
  Supervising a worker as a child process (\<open>mehoy-core/src/worker/process.rs\<close>): spawning, waiting
  for readiness, shutting down, waiting for an exit and killing. The operating system is the
  record \<open>os\<close> described in \<open>Worker\<close>; its functions take the number of the system call.
\<close>

definition READY_MARKER :: string where
  "READY_MARKER = ''MEHOY-WORKER-READY''"

definition SHUTDOWN_COMMAND :: string where
  "SHUTDOWN_COMMAND = ''shutdown''"

section \<open>The operating system\<close>

datatype process = Alive | Exited exit_code

record os =
  os_exits :: "nat \<Rightarrow> exit_code option"
  os_try_error :: "nat \<Rightarrow> string option"
  os_kill_error :: "nat \<Rightarrow> string option"
  os_wait_error :: "nat \<Rightarrow> string option"
  os_injected :: "nat \<Rightarrow> string option"
  os_obeys :: "nat \<Rightarrow> bool"

record worker_handle =
  wh_id :: worker_id
  wh_state :: worker_state
  wh_child :: bool
  wh_stdin :: bool
  wh_process :: process
  wh_calls :: nat
  wh_log :: worker_log
  wh_deadlines :: worker_deadlines
  wh_stop :: stop_protocol

text \<open>Any time may have passed since the last call; the process may have exited in it.\<close>

definition os_look :: "os \<Rightarrow> worker_handle \<Rightarrow> worker_handle" where
  "os_look e h = h\<lparr>wh_calls := wh_calls h + 1,
     wh_process := (case wh_process h of
        Exited c \<Rightarrow> Exited c
      | Alive \<Rightarrow> (case os_exits e (wh_calls h) of None \<Rightarrow> Alive | Some c \<Rightarrow> Exited c))\<rparr>"

definition os_try_wait :: "os \<Rightarrow> worker_handle \<Rightarrow> (string + exit_code option) \<times> worker_handle" where
  "os_try_wait e h =
     (let n = wh_calls h; h = os_look e h
      in (case os_try_error e n of
            Some err \<Rightarrow> Inl err
          | None \<Rightarrow> Inr (case wh_process h of Alive \<Rightarrow> None | Exited c \<Rightarrow> Some c), h))"

definition os_kill :: "os \<Rightarrow> worker_handle \<Rightarrow> string option \<times> worker_handle" where
  "os_kill e h =
     (let n = wh_calls h; h = os_look e h
      in case os_kill_error e n of
           Some err \<Rightarrow> (Some err, h)
         | None \<Rightarrow> (None, h\<lparr>wh_process := (case wh_process h of Exited c \<Rightarrow> Exited c | Alive \<Rightarrow> Exited None)\<rparr>))"

text \<open>
  \<open>timeout(budget, child.wait())\<close>: \<open>None\<close> when the time ran out. \<open>Child::wait\<close> closes the
  child's standard input first; \<open>os_obeys\<close> says whether that, or a stop request written to it
  before, makes the child exit within the budget.
\<close>

definition os_wait_within :: "os \<Rightarrow> worker_handle \<Rightarrow> (string + exit_code) option \<times> worker_handle" where
  "os_wait_within e h =
     (let n = wh_calls h; h = os_look e (h\<lparr>wh_stdin := False\<rparr>);
          h = (if wh_process h = Alive \<and> os_obeys e n then h\<lparr>wh_process := Exited (Some 0)\<rparr> else h)
      in (case os_wait_error e n of
            Some err \<Rightarrow> Some (Inl err)
          | None \<Rightarrow> (case wh_process h of Alive \<Rightarrow> None | Exited c \<Rightarrow> Some (Inr c)), h))"

section \<open>Operations\<close>

definition set_worker_state :: "worker_state \<Rightarrow> worker_handle \<Rightarrow> (worker_error + unit) \<times> worker_handle" where
  "set_worker_state next h = (case transition_to (wh_state h) next of
     Inl err \<Rightarrow> (Inl (InvalidState err), h)
   | Inr s \<Rightarrow> (Inr (), h\<lparr>wh_state := s\<rparr>))"

definition mark_failed :: "worker_handle \<Rightarrow> (worker_error + unit) \<times> worker_handle" where
  "mark_failed h = set_worker_state WFailed h"

definition mark_ready :: "worker_handle \<Rightarrow> (worker_error + unit) \<times> worker_handle" where
  "mark_ready h = set_worker_state Ready h"

text \<open>\<open>spawned\<close> is the result of starting the program.\<close>

definition spawn :: "string + unit \<Rightarrow> worker_spec \<Rightarrow> worker_error + worker_handle" where
  "spawn spawned spec =
     rbind (map_err InvalidState (transition_to Absent WStarting)) (\<lambda>state.
     rbind (map_err (SpawnError (ws_program spec)) spawned) (\<lambda>_.
       Inr \<lparr>wh_id = ws_id spec, wh_state = state, wh_child = True, wh_stdin = True,
            wh_process = Alive, wh_calls = 0, wh_log = log_with_capacity (ws_capture_lines spec),
            wh_deadlines = ws_deadlines spec, wh_stop = ws_stop spec\<rparr>))"

text \<open>The first look and the signal of \<open>terminate\<close>: the refusal it ends with, if any.\<close>

definition try_to_kill :: "os \<Rightarrow> worker_handle \<Rightarrow> string option \<times> worker_handle" where
  "try_to_kill e h =
     (let (looked, h) = os_try_wait e h
      in if (case looked of Inr (Some _) \<Rightarrow> True | _ \<Rightarrow> False) then (None, h)
         else case os_injected e (wh_calls h) of
           Some err \<Rightarrow> (Some err, h)
         | None \<Rightarrow>
             (let (killed, h) = os_kill e h
              in case killed of
                   None \<Rightarrow> (None, h)
                 | Some err \<Rightarrow>
                     (let (looked, h) = os_try_wait e h
                      in (if (case looked of Inr (Some _) \<Rightarrow> True | _ \<Rightarrow> False) then None else Some err,
                          h))))"

definition terminate :: "os \<Rightarrow> worker_handle \<Rightarrow> (worker_error + unit) \<times> worker_handle" where
  "terminate e h =
     (if \<not> wh_child h then (Inr (), h)
      else
        let (refused, h) = try_to_kill e h
        in case refused of
             Some err \<Rightarrow>
               (let (waited, h) = os_wait_within e h
                in case waited of
                     Some (Inr _) \<Rightarrow> (Inr (), h\<lparr>wh_child := False\<rparr>)
                   | _ \<Rightarrow> (Inl (IoError err), h))
           | None \<Rightarrow> (Inr (), (os_look e h)\<lparr>wh_child := False, wh_stdin := False\<rparr>))"

text \<open>
  The loop of \<open>wait_ready_with\<close>: \<open>rounds\<close> is how many rounds the startup deadline leaves time
  for, and \<open>probe n\<close> is what the probe finds in the \<open>n\<close>-th. \<open>None\<close> is an elapsed deadline.
\<close>

datatype probe_outcome = NotYet | ProbeReady worker_ready

fun ready_loop :: "nat \<Rightarrow> os \<Rightarrow> (nat \<Rightarrow> worker_error + probe_outcome) \<Rightarrow> nat \<Rightarrow> worker_handle \<Rightarrow>
    (worker_error + worker_ready) option \<times> worker_handle" where
  "ready_loop 0 e probe n h = (None, h)"
| "ready_loop (Suc rounds) e probe n h =
     (let (looked, h) = os_try_wait e h
      in case looked of
           Inl err \<Rightarrow> (Some (Inl (IoError err)), h)
         | Inr (Some code) \<Rightarrow> (Some (Inl (ExitedDuringStartup code)), h)
         | Inr None \<Rightarrow>
             (case probe n of
                Inl err \<Rightarrow> (Some (Inl err), h)
              | Inr (ProbeReady ready) \<Rightarrow> (Some (Inr ready), h)
              | Inr NotYet \<Rightarrow> ready_loop rounds e probe (n + 1) h))"

definition wait_ready_with ::
    "nat \<Rightarrow> duration \<Rightarrow> os \<Rightarrow> (nat \<Rightarrow> worker_error + probe_outcome) \<Rightarrow> worker_handle \<Rightarrow>
     (worker_error + worker_ready) \<times> worker_handle" where
  "wait_ready_with rounds elapsed e probe h =
     (if \<not> wh_child h then (Inl (IoError ''worker has no process''), h)
      else
        let budget = startup (wh_deadlines h);
            (outcome, h) = ready_loop rounds e probe 0 h
        in case outcome of
             Some (Inr ready) \<Rightarrow>
               (case set_worker_state Ready h of
                  (Inl err, h) \<Rightarrow> (Inl err, h) | (Inr _, h) \<Rightarrow> (Inr ready, h))
           | Some (Inl err) \<Rightarrow>
               (case set_worker_state WFailed h of
                  (Inl err', h) \<Rightarrow> (Inl err', h) | (Inr _, h) \<Rightarrow> (Inl err, h))
           | None \<Rightarrow>
               (case set_worker_state WFailed h of
                  (Inl err', h) \<Rightarrow> (Inl err', h)
                | (Inr _, h) \<Rightarrow>
                    (Inl (StartupTimeout (max elapsed budget)), snd (terminate e h))))"

text \<open>The probe of \<open>wait_ready\<close>: one poll looks at every line buffered since the last.\<close>

fun marker_probe :: "string list \<Rightarrow> worker_error + probe_outcome" where
  "marker_probe [] = Inr NotYet"
| "marker_probe (line # rest) =
     (if prefix READY_MARKER (trim_start line) then Inr (ProbeReady (WorkerReady line))
      else marker_probe rest)"

definition wait_ready ::
    "nat \<Rightarrow> duration \<Rightarrow> os \<Rightarrow> (nat \<Rightarrow> string list) \<Rightarrow> worker_handle \<Rightarrow>
     (worker_error + worker_ready) \<times> worker_handle" where
  "wait_ready rounds elapsed e feed h =
     wait_ready_with rounds elapsed e (\<lambda>n. marker_probe (feed n)) h"

definition leave_stopping :: "worker_handle \<Rightarrow> (worker_error + unit) \<times> worker_handle" where
  "leave_stopping h = (if wh_state h = Stopping then set_worker_state Absent h else (Inr (), h))"

definition begin_stopping :: "worker_handle \<Rightarrow> (worker_error + unit) \<times> worker_handle" where
  "begin_stopping h =
     (case (if wh_state h = Ready then set_worker_state Draining h else (Inr (), h)) of
        (Inl err, h) \<Rightarrow> (Inl err, h)
      | (Inr _, h) \<Rightarrow> if wh_state h = Draining then set_worker_state Stopping h else (Inr (), h))"

definition shutdown :: "os \<Rightarrow> worker_handle \<Rightarrow> (worker_error + exit_cause) \<times> worker_handle" where
  "shutdown e h = (case begin_stopping h of
     (Inl err, h) \<Rightarrow> (Inl err, h)
   | (Inr _, h) \<Rightarrow>
       if wh_stop h = Terminate then
         (case terminate e h of
            (Inl err, h) \<Rightarrow> (Inl err, h)
          | (Inr _, h) \<Rightarrow> (case leave_stopping h of
              (Inl err, h) \<Rightarrow> (Inl err, h) | (Inr _, h) \<Rightarrow> (Inr Requested, h)))
       else if \<not> wh_child h then (Inr Requested, h)
       else
         (case os_wait_within e h of
            (Some (Inr _), h) \<Rightarrow>
              (case leave_stopping (h\<lparr>wh_child := False\<rparr>) of
                 (Inl err, h) \<Rightarrow> (Inl err, h) | (Inr _, h) \<Rightarrow> (Inr Requested, h))
          | (Some (Inl err), h) \<Rightarrow> (Inl (IoError err), h)
          | (None, h) \<Rightarrow>
              (case terminate e h of
                 (Inl err, h) \<Rightarrow> (Inl err, h)
               | (Inr _, h) \<Rightarrow> (Inl (ShutdownTimeout (shutdown_budget (wh_deadlines h))), h))))"

text \<open>\<open>wait\<close> waits without a limit: \<open>None\<close> is the call that has not returned.\<close>

definition wait_exit :: "os \<Rightarrow> worker_handle \<Rightarrow> (worker_error + exit_cause) option \<times> worker_handle" where
  "wait_exit e h =
     (if \<not> wh_child h then (Some (Inr Requested), h)
      else case os_wait_within e h of
        (None, h) \<Rightarrow> (None, h)
      | (Some (Inl err), h) \<Rightarrow> (Some (Inl (IoError err)), h)
      | (Some (Inr code), h) \<Rightarrow>
          (let h = h\<lparr>wh_child := False\<rparr>
           in if can_transition_to (wh_state h) WFailed
              then (case set_worker_state WFailed h of
                      (Inl err, h) \<Rightarrow> (Some (Inl err), h)
                    | (Inr _, h) \<Rightarrow> (Some (Inr (Unexpected code)), h))
              else (Some (Inr (Unexpected code)), h)))"

text \<open>The worker's command is built with \<open>kill_on_drop(true)\<close>: dropping a handle that still holds its
  child signals it. Nothing reports that the signal was refused.\<close>

definition worker_drop :: "os \<Rightarrow> worker_handle \<Rightarrow> worker_handle" where
  "worker_drop e h = (if wh_child h then snd (os_kill e h) else h)"

section \<open>Lemmas\<close>

definition gone :: "worker_handle \<Rightarrow> bool" where
  "gone h \<longleftrightarrow> wh_process h \<noteq> Alive"

text \<open>A handle lets go of its child only when the process has ended.\<close>

definition handle_ok :: "worker_handle \<Rightarrow> bool" where
  "handle_ok h \<longleftrightarrow> (\<not> wh_child h \<longrightarrow> gone h)"

text \<open>Everything that is not about the process stays as it was.\<close>

definition same_worker :: "worker_handle \<Rightarrow> worker_handle \<Rightarrow> bool" where
  "same_worker h h' \<longleftrightarrow> wh_id h' = wh_id h \<and> wh_log h' = wh_log h \<and> wh_deadlines h' = wh_deadlines h
     \<and> wh_stop h' = wh_stop h \<and> (gone h \<longrightarrow> gone h')"

lemma same_worker_refl [simp]: "same_worker h h"
  by (simp add: same_worker_def)

lemma same_worker_trans: "same_worker h h1 \<Longrightarrow> same_worker h1 h2 \<Longrightarrow> same_worker h h2"
  by (auto simp: same_worker_def)

lemma os_look_facts:
  "same_worker h (os_look e h)" "wh_state (os_look e h) = wh_state h"
  "wh_child (os_look e h) = wh_child h"
  by (auto simp: os_look_def same_worker_def gone_def split: process.splits option.splits)

lemma os_try_wait_facts:
  assumes "os_try_wait e h = (r, h')"
  shows "same_worker h h'" "wh_state h' = wh_state h" "wh_child h' = wh_child h"
    "r = Inr (Some c) \<Longrightarrow> gone h'"
  using assms os_look_facts [where e = e and h = h]
  by (auto simp: os_try_wait_def Let_def gone_def split: option.splits process.splits)

lemma os_kill_facts:
  assumes "os_kill e h = (r, h')"
  shows "same_worker h h'" "wh_state h' = wh_state h" "wh_child h' = wh_child h"
    "r = None \<Longrightarrow> gone h'"
  using assms os_look_facts [where e = e and h = h]
  by (auto simp: os_kill_def Let_def gone_def same_worker_def split: option.splits process.splits)

lemma worker_drop_facts:
  "same_worker h (worker_drop e h)" "wh_state (worker_drop e h) = wh_state h"
  "wh_child (worker_drop e h) = wh_child h"
  using os_kill_facts [of e h "fst (os_kill e h)" "snd (os_kill e h)"] by (simp_all add: worker_drop_def)

lemma worker_drop_gone: "handle_ok h \<Longrightarrow> os_kill_error e (wh_calls h) = None \<Longrightarrow> gone (worker_drop e h)"
  by (auto simp: worker_drop_def handle_ok_def os_kill_def Let_def gone_def split: process.split)

lemma os_wait_within_facts:
  assumes "os_wait_within e h = (r, h')"
  shows "same_worker h h'" "wh_state h' = wh_state h" "wh_child h' = wh_child h"
    "r = Some (Inr c) \<Longrightarrow> gone h'"
  using assms os_look_facts [where e = e and h = "h\<lparr>wh_stdin := False\<rparr>"]
  by (auto simp: os_wait_within_def Let_def gone_def same_worker_def
      split: option.splits process.splits if_splits)

lemma try_to_kill_facts:
  assumes "try_to_kill e h = (r, h')"
  shows "same_worker h h' \<and> wh_state h' = wh_state h \<and> wh_child h' = wh_child h
    \<and> (r = None \<longrightarrow> gone h')"
proof -
  obtain l1 h1 where t1: "os_try_wait e h = (l1, h1)" by (cases "os_try_wait e h")
  obtain k h2 where k: "os_kill e h1 = (k, h2)" by (cases "os_kill e h1")
  obtain l2 h3 where t2: "os_try_wait e h2 = (l2, h3)" by (cases "os_try_wait e h2")
  note facts = os_try_wait_facts [OF t1] os_kill_facts [OF k] os_try_wait_facts [OF t2]
  have "same_worker h h1" "same_worker h h2" "same_worker h h3"
    using facts same_worker_trans by blast+
  then show ?thesis using assms facts
    by (auto simp: try_to_kill_def t1 k t2 split: sum.splits option.splits if_splits)
qed

lemma terminate_facts:
  assumes "terminate e h = (r, h')" and "handle_ok h"
  shows "same_worker h h' \<and> wh_state h' = wh_state h \<and> handle_ok h'
    \<and> (r = Inr () \<longrightarrow> gone h' \<and> \<not> wh_child h')
    \<and> (r \<noteq> Inr () \<longrightarrow> wh_child h' \<and> (\<exists>err. r = Inl (IoError err)))"
proof (cases "wh_child h")
  case False
  then show ?thesis using assms by (auto simp: terminate_def handle_ok_def)
next
  case True
  obtain k h1 where k: "try_to_kill e h = (k, h1)" by (cases "try_to_kill e h")
  note k1 = try_to_kill_facts [OF k]
  show ?thesis
  proof (cases k)
    case None
    have "same_worker h1 (os_look e h1)" by (rule os_look_facts)
    then show ?thesis using assms True k k1 None os_look_facts [where e = e and h = h1]
      by (auto simp: terminate_def handle_ok_def same_worker_def gone_def)
  next
    case (Some err)
    obtain w h2 where w: "os_wait_within e h1 = (w, h2)" by (cases "os_wait_within e h1")
    note w1 = os_wait_within_facts [OF w]
    have "same_worker h h2" using k1 w1 same_worker_trans by blast
    then show ?thesis using assms True k k1 Some w w1
      by (auto simp: terminate_def handle_ok_def same_worker_def gone_def
          split: option.splits sum.splits)
  qed
qed

lemma set_worker_state_facts:
  assumes "set_worker_state next h = (r, h')"
  shows "same_worker h h' \<and> wh_child h' = wh_child h \<and> wh_process h' = wh_process h
    \<and> (if can_transition_to (wh_state h) next then r = Inr () \<and> wh_state h' = next
       else r = Inl (InvalidState (WorkerStateError (wh_state h) next)) \<and> h' = h)"
  using assms
  by (auto simp: set_worker_state_def transition_to_def same_worker_def gone_def split: if_splits)

text \<open>\<open>moves\<close>: the state changes along edges of the machine.\<close>

definition moves :: "worker_state \<Rightarrow> worker_state \<Rightarrow> bool" where
  "moves = (\<lambda>a b. can_transition_to a b)\<^sup>*\<^sup>*"

lemma moves_refl [simp]: "moves a a"
  by (simp add: moves_def)

lemma moves_step: "can_transition_to a b \<Longrightarrow> moves a b"
  unfolding moves_def by (rule r_into_rtranclp)

lemma moves_trans: "moves a b \<Longrightarrow> moves b c \<Longrightarrow> moves a c"
  unfolding moves_def by (rule rtranclp_trans)

lemma moves_from_failed: "moves WFailed b \<Longrightarrow> b = WFailed"
  unfolding moves_def by (induction rule: rtranclp_induct) auto

lemma begin_stopping_facts:
  assumes "begin_stopping h = (r, h')"
  shows "r = Inr () \<and> same_worker h h' \<and> wh_child h' = wh_child h \<and> wh_process h' = wh_process h
    \<and> wh_state h' = (if wh_state h \<in> {Ready, Draining} then Stopping else wh_state h) \<and> wh_state h' \<noteq> Ready
    \<and> moves (wh_state h) (wh_state h')"
proof -
  have "moves Ready Stopping" using moves_trans [OF moves_step moves_step, of Ready Draining Stopping] by simp
  moreover have "moves Draining Stopping" by (rule moves_step) simp
  ultimately show ?thesis using assms
    by (cases "wh_state h")
      (auto simp: begin_stopping_def set_worker_state_def transition_to_def same_worker_def gone_def)
qed

lemma leave_stopping_facts:
  assumes "leave_stopping h = (r, h')"
  shows "r = Inr () \<and> same_worker h h' \<and> wh_child h' = wh_child h \<and> wh_process h' = wh_process h
    \<and> wh_state h' = (if wh_state h = Stopping then Absent else wh_state h)
    \<and> moves (wh_state h) (wh_state h')"
  using assms moves_step [of Stopping Absent]
  by (auto simp: leave_stopping_def set_worker_state_def transition_to_def same_worker_def gone_def
      split: if_splits)

definition machine_ok :: "worker_handle \<Rightarrow> bool" where
  "machine_ok h \<longleftrightarrow> handle_ok h \<and> (wh_state h = Absent \<longrightarrow> gone h)"

lemma shutdown_facts:
  assumes sd: "shutdown e h = (r, h')" and ok: "machine_ok h"
  shows "machine_ok h' \<and> same_worker h h' \<and> moves (wh_state h) (wh_state h') \<and> wh_state h' \<noteq> Ready
    \<and> (case r of Inr c \<Rightarrow> c = Requested \<and> gone h' \<and> \<not> wh_child h'
                 \<and> (wh_state h = Ready \<longrightarrow> wh_child h \<or> wh_stop h = Terminate \<longrightarrow> wh_state h' = Absent)
       | Inl (ShutdownTimeout b) \<Rightarrow> gone h' \<and> \<not> wh_child h' \<and> b = shutdown_budget (wh_deadlines h)
                 \<and> (wh_state h = Ready \<longrightarrow> wh_state h' = Stopping)
       | Inl (IoError err) \<Rightarrow> wh_child h'
       | Inl _ \<Rightarrow> False)"
proof -
  obtain r1 h1 where b: "begin_stopping h = (r1, h1)" by (cases "begin_stopping h")
  note b1 = begin_stopping_facts [OF b]
  have ok1: "handle_ok h1" "wh_state h1 = Absent \<Longrightarrow> gone h1"
    using ok b1 by (auto simp: machine_ok_def handle_ok_def gone_def split: if_splits)
  obtain r2 h2 where t: "terminate e h1 = (r2, h2)" by (cases "terminate e h1")
  note t1 = terminate_facts [OF t ok1(1)]
  obtain r3 h3 where l: "leave_stopping h2 = (r3, h3)" by (cases "leave_stopping h2")
  note l1 = leave_stopping_facts [OF l]
  show ?thesis
  proof (cases "wh_stop h1 = Terminate")
    case True
    show ?thesis
    proof (cases r2)
      case (Inl err)
      then have "r = Inl err" "h' = h2" using sd b b1 True t by (auto simp: shutdown_def)
      then show ?thesis using t1 b1 Inl ok1 same_worker_trans [of h h1 h2]
        by (auto simp: machine_ok_def same_worker_def gone_def)
    next
      case (Inr u)
      then have "r = Inr Requested" "h' = h3" using sd b b1 True t l l1 by (auto simp: shutdown_def)
      moreover have "moves (wh_state h) (wh_state h3)" using b1 t1 l1 moves_trans by metis
      moreover have "same_worker h h3" using b1 t1 l1 same_worker_trans by blast
      ultimately show ?thesis using t1 b1 l1 Inr
        by (auto simp: machine_ok_def handle_ok_def gone_def)
    qed
  next
    case False
    then have sl: "wh_stop h \<noteq> Terminate" using b1 by (simp add: same_worker_def)
    show ?thesis
    proof (cases "wh_child h1")
      case no_child: False
      then have "r = Inr Requested" "h' = h1" using sd b b1 False by (auto simp: shutdown_def)
      then show ?thesis using no_child sl b1 ok1 by (auto simp: machine_ok_def handle_ok_def)
    next
      case True
      obtain w h4 where w: "os_wait_within e h1 = (w, h4)" by (cases "os_wait_within e h1")
      note w1 = os_wait_within_facts [OF w]
      have hw: "same_worker h h4" using b1 w1 same_worker_trans by blast
      have ok4: "handle_ok h4" using w1(3) True by (simp add: handle_ok_def)
      consider (err) err where "w = Some (Inl err)" | (exited) c where "w = Some (Inr c)"
        | (late) "w = None" by (cases w) (auto split: sum.splits, metis sum.exhaust)
      then show ?thesis
      proof cases
        case err
        then have "r = Inl (IoError err)" "h' = h4" using sd b b1 False True w by (auto simp: shutdown_def)
        then show ?thesis using hw w1 True b1 ok4 ok1
          by (auto simp: machine_ok_def same_worker_def split: if_splits)
      next
        case exited
        obtain r5 h5 where l: "leave_stopping (h4\<lparr>wh_child := False\<rparr>) = (r5, h5)"
          by (cases "leave_stopping (h4\<lparr>wh_child := False\<rparr>)")
        note l1 = leave_stopping_facts [OF l]
        have g: "gone h4" using w1(4) exited by blast
        have "r = Inr Requested" "h' = h5" using sd b b1 False True w exited l l1
          by (auto simp: shutdown_def)
        moreover have "moves (wh_state h) (wh_state h5)" using b1 w1 l1 moves_trans
          by (metis select_convs(2) surjective update_convs(3))
        moreover have "same_worker h h5"
          using hw l1 by (auto simp: same_worker_def gone_def)
        ultimately show ?thesis using l1 g w1 b1
          by (auto simp: machine_ok_def handle_ok_def gone_def)
      next
        case late
        obtain r6 h6 where t: "terminate e h4 = (r6, h6)" by (cases "terminate e h4")
        note t1 = terminate_facts [OF t ok4]
        have s6: "same_worker h h6" using hw t1 same_worker_trans by blast
        have m6: "wh_state h6 = wh_state h1" using t1 w1 by simp
        have r: "h' = h6" "r = (case r6 of Inl err \<Rightarrow> Inl err
            | Inr _ \<Rightarrow> Inl (ShutdownTimeout (shutdown_budget (wh_deadlines h6))))"
          using sd b b1 False True w late t by (auto simp: shutdown_def split: sum.splits)
        have a6: "wh_state h6 = Absent \<Longrightarrow> gone h6"
          using m6 ok1 w1(1) t1 by (auto simp: same_worker_def)
        have "machine_ok h6" using t1 a6 by (simp add: machine_ok_def)
        then show ?thesis using r t1 s6 m6 b1
          by (cases r6) (auto simp: same_worker_def)
      qed
    qed
  qed
qed

lemma ready_loop_facts:
  "ready_loop rounds e probe n h = (r, h') \<Longrightarrow>
   same_worker h h' \<and> wh_state h' = wh_state h \<and> wh_child h' = wh_child h
   \<and> (\<forall>ready. r = Some (Inr ready) \<longrightarrow> (\<exists>k. probe k = Inr (ProbeReady ready)))
   \<and> (\<forall>code. r = Some (Inl (ExitedDuringStartup code)) \<longrightarrow>
        gone h' \<or> (\<exists>k. probe k = Inl (ExitedDuringStartup code)))"
proof (induction rounds arbitrary: n h)
  case 0
  then show ?case by simp
next
  case (Suc rounds)
  obtain l h1 where t: "os_try_wait e h = (l, h1)" by (cases "os_try_wait e h")
  note t1 = os_try_wait_facts [OF t]
  consider (err) err where "l = Inl err" | (code) c where "l = Inr (Some c)" | (none) "l = Inr None"
    by (metis old.sum.exhaust option.exhaust)
  then show ?case
  proof cases
    case none
    show ?thesis
    proof (cases "probe n = Inr NotYet")
      case True
      then have "ready_loop rounds e probe (n + 1) h1 = (r, h')" using Suc.prems t none by simp
      from Suc.IH [OF this] t1 show ?thesis using same_worker_trans by metis
    next
      case False
      then show ?thesis using Suc.prems t t1 none
        by (auto split: sum.splits probe_outcome.splits)
    qed
  qed (use Suc.prems t t1 in auto)
qed

lemma wait_ready_with_facts:
  assumes w: "wait_ready_with rounds elapsed e probe h = (r, h')" and ok: "machine_ok h"
  shows "machine_ok h' \<and> same_worker h h' \<and> moves (wh_state h) (wh_state h')
    \<and> (wh_state h' = Ready \<longrightarrow> wh_state h = Ready \<or> (\<exists>ready. r = Inr ready))
    \<and> (\<forall>ready. r = Inr ready \<longrightarrow> wh_state h = WStarting \<and> wh_state h' = Ready
         \<and> (\<exists>k. probe k = Inr (ProbeReady ready)))"
proof (cases "wh_child h")
  case False
  then show ?thesis using w ok by (auto simp: wait_ready_with_def)
next
  case True
  obtain o1 h1 where l: "ready_loop rounds e probe 0 h = (o1, h1)" by (cases "ready_loop rounds e probe 0 h")
  note l1 = ready_loop_facts [OF l]
  have ok1: "machine_ok h1" using ok l1 True by (auto simp: machine_ok_def handle_ok_def same_worker_def)
  obtain r2 h2 where sr: "set_worker_state Ready h1 = (r2, h2)" by (cases "set_worker_state Ready h1")
  obtain r3 h3 where sf: "set_worker_state WFailed h1 = (r3, h3)" by (cases "set_worker_state WFailed h1")
  note r2 = set_worker_state_facts [OF sr]
  note r3 = set_worker_state_facts [OF sf]
  have mv: "moves (wh_state h) (wh_state h2)" "moves (wh_state h) (wh_state h3)"
    using r2 r3 l1 moves_step by (auto split: if_splits)
  have sw: "same_worker h h2" "same_worker h h3" using r2 r3 l1 same_worker_trans by blast+
  have ok2: "machine_ok h2" using ok1 r2
    by (auto simp: machine_ok_def handle_ok_def gone_def split: if_splits)
  have ok3: "machine_ok h3" using ok1 r3
    by (auto simp: machine_ok_def handle_ok_def gone_def split: if_splits)
  have st3: "wh_state h3 = Ready \<Longrightarrow> wh_state h = Ready" using r3 l1 by (auto split: if_splits)
  consider (ready) ready where "o1 = Some (Inr ready)" | (err) err where "o1 = Some (Inl err)"
    | (late) "o1 = None" by (cases o1) (auto, metis sum.exhaust)
  then show ?thesis
  proof cases
    case ready
    show ?thesis
    proof (cases r2)
      case (Inl err)
      then have "r = Inl err" "h' = h2" using w True l sr ready by (auto simp: wait_ready_with_def Let_def)
      moreover have "wh_state h2 = Ready \<Longrightarrow> wh_state h = Ready" using r2 Inl l1 by (auto split: if_splits)
      ultimately show ?thesis using ok2 sw mv by simp
    next
      case (Inr u)
      then have "r = Inr ready" "h' = h2" using w True l sr ready by (auto simp: wait_ready_with_def Let_def)
      moreover have "wh_state h1 = WStarting" "wh_state h2 = Ready"
        using r2 Inr by (cases "wh_state h1"; auto split: if_splits)+
      ultimately show ?thesis using ok2 sw mv l1 ready by auto
    qed
  next
    case err
    then have "h' = h3" "\<forall>x. r \<noteq> Inr x" using w True l sf
      by (auto simp: wait_ready_with_def Let_def split: sum.splits)
    then show ?thesis using ok3 sw mv st3 by auto
  next
    case late
    show ?thesis
    proof (cases r3)
      case (Inl err)
      then have "r = Inl err" "h' = h3" using w True l sf late by (auto simp: wait_ready_with_def Let_def)
      then show ?thesis using ok3 sw mv st3 by simp
    next
      case (Inr u)
      obtain r4 h4 where t: "terminate e h3 = (r4, h4)" by (cases "terminate e h3")
      have "handle_ok h3" using ok3 by (simp add: machine_ok_def)
      note t1 = terminate_facts [OF t this]
      have "h' = h4" "\<forall>x. r \<noteq> Inr x" using w True l sf late Inr t
        by (auto simp: wait_ready_with_def Let_def)
      moreover have "machine_ok h4" using t1 ok3 by (auto simp: machine_ok_def same_worker_def)
      ultimately show ?thesis using t1 sw mv st3 same_worker_trans by auto
    qed
  qed
qed

lemma wait_exit_facts:
  assumes w: "wait_exit e h = (r, h')" and ok: "machine_ok h"
  shows "machine_ok h' \<and> same_worker h h' \<and> moves (wh_state h) (wh_state h')
    \<and> (wh_state h' = Ready \<longrightarrow> wh_state h = Ready)
    \<and> (\<forall>c. r = Some (Inr c) \<longrightarrow> gone h')"
proof (cases "wh_child h")
  case False
  then show ?thesis using w ok by (auto simp: wait_exit_def machine_ok_def handle_ok_def)
next
  case True
  obtain w1 h1 where ww: "os_wait_within e h = (w1, h1)" by (cases "os_wait_within e h")
  note f = os_wait_within_facts [OF ww]
  have ok1: "machine_ok h1" using ok f(1-3) True by (auto simp: machine_ok_def handle_ok_def same_worker_def)
  consider (none) "w1 = None" | (err) err where "w1 = Some (Inl err)" | (code) c where "w1 = Some (Inr c)"
    by (cases w1) (auto, metis sum.exhaust)
  then show ?thesis
  proof cases
    case code
    have g: "gone h1" using f(4) code by blast
    let ?h = "h1\<lparr>wh_child := False\<rparr>"
    obtain r2 h2 where s: "set_worker_state WFailed ?h = (r2, h2)" by (cases "set_worker_state WFailed ?h")
    note s1 = set_worker_state_facts [OF s]
    have "h' = (if can_transition_to (wh_state h) WFailed then h2 else ?h)"
      using w True ww code s s1 f(2)
      by (auto simp: wait_exit_def Let_def split: sum.splits if_splits)
    moreover have "can_transition_to (wh_state h) WFailed \<Longrightarrow> moves (wh_state h) (wh_state h2)"
      using s1 f(2) moves_step by (auto split: if_splits)
    ultimately show ?thesis using s1 f(1,2) g
      by (auto simp: machine_ok_def handle_ok_def gone_def same_worker_def split: if_splits)
  qed (use w True ww f(1,2) ok1 in \<open>auto simp: wait_exit_def\<close>)
qed

section \<open>Supervised workers\<close>

text \<open>Every handle that can come out of spawning a worker and using the supervisor on it.\<close>

inductive supervised :: "os \<Rightarrow> worker_handle \<Rightarrow> bool" for e where
  spawn: "spawn spawned spec = Inr h \<Longrightarrow> supervised e h"
| wait_ready: "supervised e h \<Longrightarrow> wait_ready_with rounds elapsed e probe h = (r, h') \<Longrightarrow> supervised e h'"
| shutdown: "supervised e h \<Longrightarrow> shutdown e h = (r2, h') \<Longrightarrow> supervised e h'"
| wait_exit: "supervised e h \<Longrightarrow> wait_exit e h = (r3, h') \<Longrightarrow> supervised e h'"
| mark_failed: "supervised e h \<Longrightarrow> mark_failed h = (r4, h') \<Longrightarrow> supervised e h'"
| mark_ready: "supervised e h \<Longrightarrow> mark_ready h = (r5, h') \<Longrightarrow> supervised e h'"

lemma set_worker_state_ok:
  assumes "set_worker_state to h = (r, h')" and "to \<noteq> Absent" and "machine_ok h"
  shows "machine_ok h' \<and> same_worker h h' \<and> moves (wh_state h) (wh_state h')"
  using assms moves_step [of "wh_state h" to]
  by (auto simp: set_worker_state_def transition_to_def machine_ok_def handle_ok_def gone_def
      same_worker_def split: if_splits)

lemma supervised_ok: "supervised e h \<Longrightarrow> machine_ok h"
proof (induction rule: supervised.induct)
  case (spawn spawned spec h)
  then show ?case
    by (cases spawned) (auto simp: spawn_def transition_to_def machine_ok_def handle_ok_def)
next
  case (wait_ready h rounds elapsed probe r h')
  then show ?case using wait_ready_with_facts by blast
next
  case (shutdown h r h')
  then show ?case using shutdown_facts by blast
next
  case (wait_exit h r h')
  then show ?case using wait_exit_facts by blast
next
  case (mark_failed h r h')
  then show ?case using set_worker_state_ok [of WFailed h r h'] by (auto simp: mark_failed_def)
next
  case (mark_ready h r h')
  then show ?case using set_worker_state_ok [of Ready h r h'] by (auto simp: mark_ready_def)
qed

text \<open>A worker that obeys, and one that ignores a polite stop.\<close>

definition obedient :: os where
  "obedient = \<lparr>os_exits = \<lambda>_. None, os_try_error = \<lambda>_. None, os_kill_error = \<lambda>_. None,
     os_wait_error = \<lambda>_. None, os_injected = \<lambda>_. None, os_obeys = \<lambda>_. True\<rparr>"

definition deaf :: os where
  "deaf = obedient\<lparr>os_obeys := \<lambda>_. False\<rparr>"

definition sample_handle :: "stop_protocol \<Rightarrow> worker_handle" where
  "sample_handle st = \<lparr>wh_id = WorkerId 1, wh_state = Ready, wh_child = True, wh_stdin = True,
     wh_process = Alive, wh_calls = 0, wh_log = log_with_capacity 4,
     wh_deadlines = default_deadlines, wh_stop = st\<rparr>"

definition sample_spec :: worker_spec where
  "sample_spec = \<lparr>ws_id = WorkerId 1, ws_program = ''worker'', ws_args = [],
     ws_deadlines = default_deadlines, ws_capture_lines = 4, ws_stop = ShutdownLine\<rparr>"

lemma supervised_sample: "supervised e (sample_handle ShutdownLine)"
proof -
  have "spawn (Inr ()) sample_spec = Inr ((sample_handle ShutdownLine)\<lparr>wh_state := WStarting\<rparr>)"
    by (simp add: spawn_def transition_to_def sample_spec_def sample_handle_def)
  then have "supervised e ((sample_handle ShutdownLine)\<lparr>wh_state := WStarting\<rparr>)"
    by (rule supervised.spawn)
  moreover have "mark_ready ((sample_handle ShutdownLine)\<lparr>wh_state := WStarting\<rparr>)
      = (Inr (), sample_handle ShutdownLine)"
    by (simp add: mark_ready_def set_worker_state_def transition_to_def sample_handle_def)
  ultimately show ?thesis by (rule supervised.mark_ready)
qed

section \<open>Properties\<close>

text \<open>C26: no worker is described as stopped while it runs. When \<open>shutdown\<close> succeeds, or reports
  that the worker had to be killed, its process has ended; a worker that could not be stopped is
  an I/O error with the handle still holding the child; and the state machine never gets in the
  way. A ready worker that stops in time is absent afterwards.\<close>

theorem shutdown_tells_truth:
  assumes "supervised e h" and "shutdown e h = (r, h')"
  shows "(case r of
       Inr c \<Rightarrow> c = Requested \<and> gone h' \<and> \<not> wh_child h'
         \<and> (wh_state h = Ready \<longrightarrow> wh_child h \<longrightarrow> wh_state h' = Absent)
     | Inl (ShutdownTimeout b) \<Rightarrow> gone h' \<and> \<not> wh_child h' \<and> b = shutdown_budget (wh_deadlines h)
     | Inl (IoError err) \<Rightarrow> wh_child h'
     | Inl _ \<Rightarrow> False)"
  using shutdown_facts [OF assms(2) supervised_ok [OF assms(1)]]
  by (auto split: sum.splits worker_error.splits)

theorem shutdown_tells_truth_witness:
  "gone (snd (shutdown obedient (sample_handle ShutdownLine)))"
proof -
  have "shutdown obedient (sample_handle ShutdownLine) = (Inr Requested,
      (sample_handle ShutdownLine)\<lparr>wh_state := Absent, wh_child := False, wh_stdin := False,
        wh_process := Exited (Some 0), wh_calls := 1\<rparr>)"
    by (simp add: shutdown_def begin_stopping_def leave_stopping_def set_worker_state_def
        transition_to_def sample_handle_def obedient_def os_wait_within_def os_look_def Let_def)
  from shutdown_tells_truth [OF supervised_sample this] show ?thesis
    by (simp add: \<open>shutdown obedient (sample_handle ShutdownLine) = _\<close>)
qed

text \<open>C27: whatever the supervisor is asked to do (wait until the worker is ready, shut it down, wait for
  its exit, mark it failed, mark it ready), a worker's state only moves along the edges of the machine,
  failure is final, absence means that the process has ended, and the handle lets go of a process only
  after it has. A worker becomes ready only from starting, because the probe said so or because it was
  marked ready, and the mark is refused, and changes nothing, in every other state.\<close>

theorem worker_follows_machine:
  assumes "supervised e h"
    and "wait_ready_with rounds elapsed e probe h = (r1, h1) \<or> shutdown e h = (r2, h1)
       \<or> wait_exit e h = (r3, h1) \<or> mark_failed h = (r4, h1) \<or> mark_ready h = (r5, h1)"
  shows "moves (wh_state h) (wh_state h1) \<and> (wh_state h = WFailed \<longrightarrow> wh_state h1 = WFailed)
    \<and> (wh_state h1 = Absent \<or> \<not> wh_child h1 \<longrightarrow> gone h1)
    \<and> (\<forall>ready. wait_ready_with rounds elapsed e probe h = (Inr ready, h1) \<longrightarrow>
         wh_state h = WStarting \<and> wh_state h1 = Ready \<and> (\<exists>k. probe k = Inr (ProbeReady ready)))
    \<and> (wh_state h1 = Ready \<longrightarrow> wh_state h = Ready \<or> wh_state h = WStarting
         \<and> ((\<exists>ready. wait_ready_with rounds elapsed e probe h = (Inr ready, h1)) \<or> mark_ready h = (Inr (), h1)))
    \<and> (wh_state h \<noteq> WStarting \<longrightarrow> (\<exists>err. mark_ready h = (Inl (InvalidState err), h)))"
proof -
  note ok = supervised_ok [OF assms(1)]
  have marked: "if wh_state h = WStarting then mark_ready h = (Inr (), h\<lparr>wh_state := Ready\<rparr>)
      else \<exists>err. mark_ready h = (Inl (InvalidState err), h)"
    by (cases "wh_state h") (simp_all add: mark_ready_def set_worker_state_def transition_to_def)
  have "machine_ok h1 \<and> moves (wh_state h) (wh_state h1)
    \<and> (wh_state h1 = Ready \<longrightarrow> wh_state h = Ready \<or> wh_state h = WStarting
         \<and> ((\<exists>ready. wait_ready_with rounds elapsed e probe h = (Inr ready, h1)) \<or> mark_ready h = (Inr (), h1)))"
    using assms(2)
  proof (elim disjE)
    assume "mark_failed h = (r4, h1)"
    then show ?thesis using set_worker_state_ok [of WFailed h r4 h1] set_worker_state_facts [of WFailed h r4 h1] ok
      by (auto simp: mark_failed_def split: if_splits)
  next
    assume "mark_ready h = (r5, h1)"
    then show ?thesis using set_worker_state_ok [of Ready h r5 h1] marked ok
      by (auto simp: mark_ready_def split: if_splits)
  qed (use wait_ready_with_facts shutdown_facts wait_exit_facts ok in blast)+
  moreover have "wh_state h = WStarting \<and> wh_state h1 = Ready \<and> (\<exists>k. probe k = Inr (ProbeReady ready))"
    if "wait_ready_with rounds elapsed e probe h = (Inr ready, h1)" for ready
    using wait_ready_with_facts [OF that ok] by blast
  moreover have "wh_state h1 = WFailed" if "wh_state h = WFailed"
    using calculation(1) that moves_from_failed by auto
  ultimately show ?thesis using marked by (auto simp: machine_ok_def handle_ok_def)
qed

theorem worker_follows_machine_witness:
  "\<exists>r h. wait_exit obedient (sample_handle ShutdownLine) = (r, h)
     \<and> moves Ready (wh_state h) \<and> (\<not> wh_child h \<longrightarrow> gone h)
     \<and> (\<exists>err. mark_ready (sample_handle ShutdownLine) = (Inl (InvalidState err), sample_handle ShutdownLine))"
proof -
  obtain r h where w: "wait_exit obedient (sample_handle ShutdownLine) = (r, h)"
    by (cases "wait_exit obedient (sample_handle ShutdownLine)")
  have "wh_state (sample_handle ShutdownLine) = Ready" by (simp add: sample_handle_def)
  with w worker_follows_machine [OF supervised_sample [of obedient], of 0 0 "\<lambda>_. Inr NotYet" undefined h undefined r]
  show ?thesis by auto
qed

text \<open>a killed worker is never reported absent. When a ready worker that was asked to stop
  misses its deadline and is killed, its process has ended, but its state stays at stopping, from
  which no later operation of the supervisor takes it to absent.\<close>

theorem killed_worker_stays_stopping:
  assumes "supervised e h" and "wh_state h = Ready" and "shutdown e h = (Inl (ShutdownTimeout b), h')"
    and "wh_stop h = ShutdownLine"
  shows "wh_state h' = Stopping \<and> gone h' \<and> shutdown e h' = (Inr Requested, h')
    \<and> wait_exit e h' = (Some (Inr Requested), h')"
proof -
  from shutdown_facts [OF assms(3) supervised_ok [OF assms(1)]] assms(2,4)
  have h': "wh_state h' = Stopping" "gone h'" "\<not> wh_child h'" "wh_stop h' = ShutdownLine"
    by (auto simp: same_worker_def)
  then show ?thesis by (simp add: shutdown_def begin_stopping_def wait_exit_def)
qed

theorem killed_worker_stays_stopping_witness:
  "\<exists>h'. shutdown deaf (sample_handle ShutdownLine)
       = (Inl (ShutdownTimeout (seconds 10)), h') \<and> wh_state h' = Stopping"
proof -
  obtain h' where sd: "shutdown deaf (sample_handle ShutdownLine)
       = (Inl (ShutdownTimeout (seconds 10)), h')"
    by (simp add: shutdown_def begin_stopping_def set_worker_state_def terminate_def try_to_kill_def
        transition_to_def sample_handle_def deaf_def obedient_def os_wait_within_def os_look_def
        os_try_wait_def os_kill_def default_deadlines_def Let_def)
  have "wh_state (sample_handle ShutdownLine) = Ready" "wh_stop (sample_handle ShutdownLine) = ShutdownLine"
    by (simp_all add: sample_handle_def)
  with killed_worker_stays_stopping [OF supervised_sample this(1) sd] sd show ?thesis by auto
qed

end
