(* ===== verification/Endpoint.thy ===== *)
theory Endpoint
  imports Prelude
begin

text \<open>
  The local endpoint on Unix (\<open>mehoy-core/src/transport/mod.rs\<close>, \<open>unix.rs\<close> and \<open>trace.rs\<close>):
  where it is, how its directory is made private, what is done about whatever is already at the
  path, binding, connecting and dropping, with the trace events these emit.

  The part of the file system concerned is the record \<open>place\<close>: the directory and what is at
  the socket path. Other processes may change it between two system calls of \<open>bind\<close>; those
  changes are the functions of \<open>meddling\<close>. The decimal and octal renderings of the error
  messages that only vary in numbers are those of \<open>show_nat\<close> and \<open>octal4\<close>.
\<close>

unbundle bit_operations_syntax

section \<open>Errors\<close>

datatype io_kind = KNotFound | KRefused | KInUse | KDenied | KAborted | KReset | KInterrupted
  | KBrokenPipe | KTimedOut | KOther

record io_error =
  io_kind :: io_kind
  io_os :: "int option"
  io_message :: string

definition io_of :: "io_kind \<Rightarrow> string \<Rightarrow> io_error" where
  "io_of k m = \<lparr>io_kind = k, io_os = None, io_message = m\<rparr>"

datatype endpoint_error =
  AlreadyRunning string
| NotRunning string
| InsecureDirectory string string
| UnexpectedOccupant string string
| NoDefaultLocation string
| EndpointIo io_error

fun show_endpoint_error :: "endpoint_error \<Rightarrow> string" where
  "show_endpoint_error (AlreadyRunning a) = ''a daemon is already listening on '' @ a"
| "show_endpoint_error (NotRunning a) = ''no daemon is listening on '' @ a"
| "show_endpoint_error (InsecureDirectory p reason) =
     ''refusing to use endpoint directory '' @ p @ '': '' @ reason"
| "show_endpoint_error (UnexpectedOccupant p reason) = ''refusing to replace '' @ p @ '': '' @ reason"
| "show_endpoint_error (NoDefaultLocation reason) =
     ''cannot determine a default endpoint location: '' @ reason"
| "show_endpoint_error (EndpointIo err) = ''endpoint transport failure: '' @ io_message err"

section \<open>Trace events\<close>

datatype stage = InstanceCreated | ConnectWaitStarted | ConnectCompleted | ReplacementCreateStarted
  | ReplacementCreated | ConnectionHandedOff | EndpointClosed | AcceptFailed

fun stage_as_str :: "stage \<Rightarrow> string" where
  "stage_as_str InstanceCreated = ''instance_created''"
| "stage_as_str ConnectWaitStarted = ''connect_wait_started''"
| "stage_as_str ConnectCompleted = ''connect_completed''"
| "stage_as_str ReplacementCreateStarted = ''replacement_create_started''"
| "stage_as_str ReplacementCreated = ''replacement_created''"
| "stage_as_str ConnectionHandedOff = ''connection_handed_off''"
| "stage_as_str EndpointClosed = ''endpoint_closed''"
| "stage_as_str AcceptFailed = ''accept_failed''"

record endpoint_event =
  ev_stage :: stage
  ev_address :: string
  ev_generation :: u64
  ev_listener :: bool
  ev_error :: "io_error option"

definition new_event :: "stage \<Rightarrow> string \<Rightarrow> u64 \<Rightarrow> bool \<Rightarrow> endpoint_event" where
  "new_event st a n present =
     \<lparr>ev_stage = st, ev_address = a, ev_generation = n, ev_listener = present, ev_error = None\<rparr>"

definition with_error :: "io_error \<Rightarrow> endpoint_event \<Rightarrow> endpoint_event" where
  "with_error err ev = ev\<lparr>ev_error := Some err\<rparr>"

definition show_endpoint_event ::
    "(io_kind \<Rightarrow> string) \<Rightarrow> (string \<Rightarrow> string) \<Rightarrow> endpoint_event \<Rightarrow> string" where
  "show_endpoint_event dbg_kind dbg ev =
     stage_as_str (ev_stage ev) @ '' address='' @ ev_address ev
     @ '' generation='' @ show_u64 (ev_generation ev)
     @ '' listener_present='' @ (if ev_listener ev then ''true'' else ''false'')
     @ (case ev_error ev of None \<Rightarrow> []
        | Some err \<Rightarrow> '' kind='' @ dbg_kind (io_kind err) @ '' raw_os_error=''
            @ (case io_os err of None \<Rightarrow> ''none'' | Some code \<Rightarrow> show_int code)
            @ '' message='' @ dbg (io_message err))"

definition stderr_tracing_enabled :: "string option \<Rightarrow> bool" where
  "stderr_tracing_enabled var = (case var of None \<Rightarrow> False | Some v \<Rightarrow> v \<noteq> [] \<and> v \<noteq> ''0'')"

section \<open>The place\<close>

datatype dir_look = NoDir | DirUnreadable io_error | SymbolicLink | NotADirectory
  | Directory u32 u32

datatype occupant = Vacant | LiveSocket u32 | StaleSocket u32 | OtherFile u32

record place =
  pl_dir :: dir_look
  pl_at :: occupant

record host =
  ho_euid :: u32
  ho_mkdir :: "io_error option"
  ho_connect :: "io_error option"
  ho_remove :: "io_error option"
  ho_bind :: "io_error option"

definition DIR_MODE :: u32 where
  "DIR_MODE = 448"

definition FORBIDDEN_DIR_BITS :: u32 where
  "FORBIDDEN_DIR_BITS = 63"

section \<open>Where the endpoint is\<close>

definition path_join :: "string \<Rightarrow> string \<Rightarrow> string" where
  "path_join base p =
     (if prefix ''/'' p then p
      else if base = [] \<or> suffix ''/'' base then base @ p
      else base @ ''/'' @ p)"

text \<open>Environment variables are byte strings; the result has to be valid UTF-8.\<close>

definition default_address ::
    "u32 \<Rightarrow> string option \<Rightarrow> string option \<Rightarrow> (string \<Rightarrow> string) \<Rightarrow> endpoint_error + string" where
  "default_address euid xdg tmpdir display =
     (let base = (case xdg of
          Some dir \<Rightarrow> if dir \<noteq> [] then path_join dir ''mehoy'' else
            path_join (case tmpdir of Some t \<Rightarrow> if t \<noteq> [] then t else ''/tmp'' | None \<Rightarrow> ''/tmp'')
              (''mehoy-'' @ show_nat (unat euid))
        | None \<Rightarrow>
            path_join (case tmpdir of Some t \<Rightarrow> if t \<noteq> [] then t else ''/tmp'' | None \<Rightarrow> ''/tmp'')
              (''mehoy-'' @ show_nat (unat euid)));
          path = path_join base ''mehoyd.sock''
      in if valid_utf8 (bytes_of path) then Inr path
         else Inl (NoDefaultLocation (''path '' @ display path @ '' is not valid UTF-8'')))"

text \<open>\<open>EndpointAddress::resolve\<close>: the variable counts only when it is UTF-8 and not blank.\<close>

definition resolve_address ::
    "string option \<Rightarrow> endpoint_error + string \<Rightarrow> endpoint_error + string" where
  "resolve_address var fallback = (case var of
     Some v \<Rightarrow> if valid_utf8 (bytes_of v) \<and> trim v \<noteq> [] then Inr v else fallback
   | None \<Rightarrow> fallback)"

section \<open>Binding\<close>

definition octal4 :: "nat \<Rightarrow> string" where
  "octal4 n = map (\<lambda>d. char_of (48 + d)) [n div 512 mod 8, n div 64 mod 8, n div 8 mod 8, n mod 8]"

definition ensure_private_directory ::
    "host \<Rightarrow> string \<Rightarrow> place \<Rightarrow> (endpoint_error + unit) \<times> place" where
  "ensure_private_directory ho dir p = (case pl_dir p of
     NoDir \<Rightarrow>
       (case ho_mkdir ho of
          Some err \<Rightarrow> (Inl (EndpointIo err), p)
        | None \<Rightarrow> (Inr (), p\<lparr>pl_dir := Directory (ho_euid ho) DIR_MODE\<rparr>))
   | DirUnreadable err \<Rightarrow> (Inl (EndpointIo err), p)
   | SymbolicLink \<Rightarrow> (Inl (InsecureDirectory dir ''path is a symbolic link''), p)
   | NotADirectory \<Rightarrow> (Inl (InsecureDirectory dir ''path is not a directory''), p)
   | Directory uid mode \<Rightarrow>
       if uid \<noteq> ho_euid ho then
         (Inl (InsecureDirectory dir (''owned by uid '' @ show_nat (unat uid) @ '', expected uid ''
            @ show_nat (unat (ho_euid ho)))), p)
       else if (mode AND 511) AND FORBIDDEN_DIR_BITS \<noteq> 0 then
         (Inl (InsecureDirectory dir (''mode '' @ octal4 (unat (mode AND 511))
            @ '' grants access beyond the owner'')), p)
       else (Inr (), p))"

text \<open>What \<open>connect\<close> on the path answers: existing files that do not listen refuse.\<close>

definition connect_at :: "host \<Rightarrow> place \<Rightarrow> io_error option" where
  "connect_at ho p = (case ho_connect ho of
     Some err \<Rightarrow> Some err
   | None \<Rightarrow> (case pl_at p of
       Vacant \<Rightarrow> Some (io_of KNotFound ''No such file or directory (os error 2)'')
     | LiveSocket _ \<Rightarrow> None
     | _ \<Rightarrow> Some (io_of KRefused ''Connection refused (os error 111)'')))"

text \<open>\<open>mid\<close> is what others do between the probe and the look at the file.\<close>

definition clear_stale_socket ::
    "(place \<Rightarrow> place) \<Rightarrow> host \<Rightarrow> string \<Rightarrow> place \<Rightarrow> (endpoint_error + unit) \<times> place" where
  "clear_stale_socket mid ho path p = (case connect_at ho p of
     None \<Rightarrow> (Inl (AlreadyRunning path), p)
   | Some err \<Rightarrow>
       if io_kind err = KNotFound then (Inr (), p)
       else if io_kind err = KRefused then
         (let p = mid p in case pl_at p of
            Vacant \<Rightarrow> (Inl (EndpointIo (io_of KNotFound ''No such file or directory (os error 2)'')), p)
          | OtherFile _ \<Rightarrow> (Inl (UnexpectedOccupant path ''existing file is not a socket''), p)
          | LiveSocket uid \<Rightarrow>
              if uid \<noteq> ho_euid ho then
                (Inl (UnexpectedOccupant path (''socket is owned by uid '' @ show_nat (unat uid))), p)
              else (case ho_remove ho of
                Some err \<Rightarrow> (Inl (EndpointIo err), p) | None \<Rightarrow> (Inr (), p\<lparr>pl_at := Vacant\<rparr>))
          | StaleSocket uid \<Rightarrow>
              if uid \<noteq> ho_euid ho then
                (Inl (UnexpectedOccupant path (''socket is owned by uid '' @ show_nat (unat uid))), p)
              else (case ho_remove ho of
                Some err \<Rightarrow> (Inl (EndpointIo err), p) | None \<Rightarrow> (Inr (), p\<lparr>pl_at := Vacant\<rparr>)))
       else (Inl (EndpointIo err), p))"

definition listen_at :: "host \<Rightarrow> place \<Rightarrow> (io_error + unit) \<times> place" where
  "listen_at ho p = (case ho_bind ho of
     Some err \<Rightarrow> (Inl err, p)
   | None \<Rightarrow> if pl_at p = Vacant then (Inr (), p\<lparr>pl_at := LiveSocket (ho_euid ho)\<rparr>)
             else (Inl (io_of KInUse ''Address already in use (os error 98)''), p))"

record meddling =
  md_probe :: "place \<Rightarrow> place"
  md_mid :: "place \<Rightarrow> place"
  md_bind :: "place \<Rightarrow> place"

text \<open>
  \<open>Path::parent\<close>, when it has one that is not empty; repeated and trailing separators do not
  count. (Components \<open>.\<close>, which \<open>Path\<close> also skips, are not treated.)
\<close>

definition strip_separators :: "string \<Rightarrow> string" where
  "strip_separators s = rev (dropWhile (\<lambda>c. c = CHR ''/'') (rev s))"

definition parent_of :: "string \<Rightarrow> string option" where
  "parent_of path =
     (let path = strip_separators path
      in if CHR ''/'' \<notin> set path then None
         else let dir = strip_separators (rev (dropWhile (\<lambda>c. c \<noteq> CHR ''/'') (rev path)))
              in Some (if dir = [] then ''/'' else dir))"

definition endpoint_bind ::
    "meddling \<Rightarrow> host \<Rightarrow> string \<Rightarrow> place \<Rightarrow> (endpoint_error + string) \<times> place \<times> endpoint_event list" where
  "endpoint_bind md ho address p = (case parent_of address of
     None \<Rightarrow> (Inl (NoDefaultLocation (''endpoint path '' @ address @ '' has no parent directory'')), p, [])
   | Some dir \<Rightarrow>
       (case ensure_private_directory ho dir p of
          (Inl err, p) \<Rightarrow> (Inl err, p, [])
        | (Inr _, p) \<Rightarrow>
            (case clear_stale_socket (md_mid md) ho address (md_probe md p) of
               (Inl err, p) \<Rightarrow> (Inl err, p, [])
             | (Inr _, p) \<Rightarrow>
                 (case listen_at ho (md_bind md p) of
                    (Inl err, p) \<Rightarrow>
                      (Inl (if io_kind err = KInUse then AlreadyRunning address else EndpointIo err), p,
                       [with_error err (new_event InstanceCreated address 0 False)])
                  | (Inr _, p) \<Rightarrow> (Inr address, p, [new_event InstanceCreated address 0 True])))))"

definition endpoint_accept ::
    "string \<Rightarrow> io_error + 'stream \<Rightarrow> (io_error + 'stream) \<times> endpoint_event list" where
  "endpoint_accept address accepted =
     (accepted, new_event ConnectWaitStarted address 0 True # (case accepted of
        Inl err \<Rightarrow> [with_error err (new_event AcceptFailed address 0 True)]
      | Inr _ \<Rightarrow> [new_event ConnectionHandedOff address 0 True]))"

definition endpoint_drop :: "host \<Rightarrow> string \<Rightarrow> place \<Rightarrow> place \<times> endpoint_event list" where
  "endpoint_drop ho address p =
     ((case ho_remove ho of None \<Rightarrow> p\<lparr>pl_at := Vacant\<rparr> | Some _ \<Rightarrow> p),
      [new_event EndpointClosed address 0 False])"

definition endpoint_connect :: "host \<Rightarrow> string \<Rightarrow> place \<Rightarrow> endpoint_error + unit" where
  "endpoint_connect ho address p = (case connect_at ho p of
     None \<Rightarrow> Inr ()
   | Some err \<Rightarrow> if io_kind err \<in> {KNotFound, KRefused} then Inl (NotRunning address)
                 else Inl (EndpointIo err))"

section \<open>Lemmas\<close>

definition private_to :: "u32 \<Rightarrow> dir_look \<Rightarrow> bool" where
  "private_to uid d \<longleftrightarrow> (\<exists>mode. d = Directory uid mode \<and> mode AND FORBIDDEN_DIR_BITS = 0)"

lemma mask_forbidden: "((mode :: u32) AND 511) AND FORBIDDEN_DIR_BITS = mode AND FORBIDDEN_DIR_BITS"
  by (simp add: FORBIDDEN_DIR_BITS_def and.assoc)

lemma DIR_MODE_private [simp]: "DIR_MODE AND FORBIDDEN_DIR_BITS = 0"
  by (simp add: DIR_MODE_def FORBIDDEN_DIR_BITS_def)

lemma ensure_private_directory_ok:
  assumes "ensure_private_directory ho dir p = (Inr u, p')"
  shows "private_to (ho_euid ho) (pl_dir p') \<and> pl_at p' = pl_at p
    \<and> (pl_dir p \<noteq> NoDir \<longrightarrow> p' = p)"
  using assms
  by (auto simp: ensure_private_directory_def private_to_def mask_forbidden
      split: dir_look.splits option.splits if_splits)

lemma ensure_private_directory_at:
  "ensure_private_directory ho dir p = (r, p') \<Longrightarrow> pl_at p' = pl_at p"
  by (auto simp: ensure_private_directory_def split: dir_look.splits option.splits if_splits)

lemma clear_stale_socket_quiet:
  assumes "clear_stale_socket (\<lambda>p. p) ho path p = (r, p')" and "ho_connect ho = None"
  shows "pl_dir p' = pl_dir p
    \<and> (p' \<noteq> p \<longrightarrow> r = Inr () \<and> pl_at p = StaleSocket (ho_euid ho) \<and> pl_at p' = Vacant)
    \<and> (r = Inr () \<longrightarrow> pl_at p' = Vacant)
    \<and> ((\<exists>uid. pl_at p = LiveSocket uid) \<longrightarrow> r = Inl (AlreadyRunning path))"
  using assms
  by (auto simp: clear_stale_socket_def connect_at_def io_of_def
      split: occupant.splits option.splits if_splits)

definition quiet :: meddling where
  "quiet = \<lparr>md_probe = \<lambda>p. p, md_mid = \<lambda>p. p, md_bind = \<lambda>p. p\<rparr>"

text \<open>The three steps of \<open>bind\<close>, whatever happens in between.\<close>

lemma endpoint_bind_cases:
  assumes "endpoint_bind md ho address p = (r, p', evs)"
  obtains (failed) err where "r = Inl err"
  | (bound) dir p1 p2 where "parent_of address = Some dir"
      and "ensure_private_directory ho dir p = (Inr (), p1)"
      and "clear_stale_socket (md_mid md) ho address (md_probe md p1) = (Inr (), p2)"
      and "listen_at ho (md_bind md p2) = (Inr (), p')" and "r = Inr address"
      and "evs = [new_event InstanceCreated address 0 True]"
  using assms
  by (auto simp: endpoint_bind_def split: option.splits prod.splits sum.splits)

text \<open>What is there before \<open>listen\<close>, when nobody interferes.\<close>

lemma prepared:
  assumes "ensure_private_directory ho dir p = (Inr u, p1)"
    and "clear_stale_socket (\<lambda>p. p) ho path p1 = (r, p2)" and "ho_connect ho = None"
  shows "private_to (ho_euid ho) (pl_dir p2)
    \<and> (pl_at p2 = pl_at p \<or> pl_at p = StaleSocket (ho_euid ho) \<and> pl_at p2 = Vacant)
    \<and> (r = Inr () \<longrightarrow> pl_at p2 = Vacant \<and> pl_at p \<in> {Vacant, StaleSocket (ho_euid ho)})"
  using clear_stale_socket_quiet [OF assms(2,3)] ensure_private_directory_ok [OF assms(1)]
  by (cases "p2 = p1") auto

lemma listen_at_cases:
  assumes "listen_at ho p = (r, p')"
  obtains (refused) err where "r = Inl err" "p' = p"
  | (listening) "r = Inr ()" "p' = p\<lparr>pl_at := LiveSocket (ho_euid ho)\<rparr>"
  using assms by (auto simp: listen_at_def split: option.splits if_splits)

definition sample_host :: host where
  "sample_host = \<lparr>ho_euid = 1000, ho_mkdir = None, ho_connect = None, ho_remove = None, ho_bind = None\<rparr>"

section \<open>Properties\<close>

text \<open>C39: binding is safe. When nobody interferes, a daemon that binds has found or made a
  directory that only its own user can reach, has replaced nothing but a dead socket of its own
  user, and now holds the endpoint, so that a client can connect; and when binding fails, what
  was at the path is what it was, or a dead socket of this user has gone.\<close>

theorem bind_safe:
  assumes "endpoint_bind quiet ho address p = (r, p', evs)" and "ho_connect ho = None"
  shows "(r = Inr address \<longrightarrow> private_to (ho_euid ho) (pl_dir p')
       \<and> pl_at p \<in> {Vacant, StaleSocket (ho_euid ho)} \<and> pl_at p' = LiveSocket (ho_euid ho)
       \<and> endpoint_connect ho address p' = Inr ())
    \<and> (r \<noteq> Inr address \<longrightarrow> pl_at p' = pl_at p
       \<or> pl_at p = StaleSocket (ho_euid ho) \<and> pl_at p' = Vacant)"
proof (cases "parent_of address")
  case None
  with assms show ?thesis by (auto simp: endpoint_bind_def)
next
  case (Some dir)
  obtain r1 p1 where e: "ensure_private_directory ho dir p = (r1, p1)" by fastforce
  obtain r2 p2 where c: "clear_stale_socket (\<lambda>p. p) ho address p1 = (r2, p2)" by fastforce
  obtain r3 p3 where l: "listen_at ho p2 = (r3, p3)" by fastforce
  note b = assms(1) [unfolded endpoint_bind_def quiet_def]
  show ?thesis
  proof (cases r1)
    case (Inl err)
    with b Some e ensure_private_directory_at [OF e] show ?thesis by auto
  next
    case (Inr u)
    note prep = prepared [OF e [unfolded Inr] c assms(2)]
    show ?thesis
    proof (cases r2)
      case r2: (Inl err)
      with b Some e Inr c prep show ?thesis by auto
    next
      case r2: (Inr v)
      from l show ?thesis
      proof (cases rule: listen_at_cases)
        case (refused err)
        with b Some e Inr c r2 l prep show ?thesis by auto
      next
        case listening
        with b Some e Inr c r2 l prep assms(2) show ?thesis
          by (auto simp: endpoint_connect_def connect_at_def)
      qed
    qed
  qed
qed

theorem bind_safe_witness:
  "fst (endpoint_bind quiet sample_host ''/run/mehoyd.sock'' \<lparr>pl_dir = NoDir, pl_at = StaleSocket 1000\<rparr>)
     = Inr ''/run/mehoyd.sock''
   \<and> pl_at (fst (snd (endpoint_bind quiet sample_host ''/run/mehoyd.sock''
       \<lparr>pl_dir = NoDir, pl_at = StaleSocket 1000\<rparr>))) = LiveSocket 1000"
proof -
  have b: "endpoint_bind quiet sample_host ''/run/mehoyd.sock'' \<lparr>pl_dir = NoDir, pl_at = StaleSocket 1000\<rparr>
     = (Inr ''/run/mehoyd.sock'', \<lparr>pl_dir = Directory 1000 448, pl_at = LiveSocket 1000\<rparr>,
        [new_event InstanceCreated ''/run/mehoyd.sock'' 0 True])"
    by (simp add: endpoint_bind_def quiet_def sample_host_def parent_of_def strip_separators_def
        ensure_private_directory_def clear_stale_socket_def connect_at_def io_of_def listen_at_def
        DIR_MODE_def)
  have "ho_connect sample_host = None" by (simp add: sample_host_def)
  from bind_safe [OF b this] b show ?thesis by (simp add: sample_host_def)
qed

text \<open>the probe and the removal are not one step. If another daemon of the same user has
  cleared the stale socket and bound its own between this daemon's probe and its look at the file,
  this daemon removes that live socket and takes the endpoint over: the daemon that was listening
  is no longer reachable, though both were told that they hold the endpoint.\<close>

theorem bind_can_evict_live_daemon:
  assumes "parent_of address = Some dir" and "ho_connect ho = None" and "ho_remove ho = None"
    and "ho_bind ho = None" and "private_to (ho_euid ho) (pl_dir p)" and "pl_at p = StaleSocket (ho_euid ho)"
    and "p1 = p\<lparr>pl_at := LiveSocket (ho_euid ho)\<rparr>"
  shows "endpoint_bind quiet ho address p = (Inr address, p1, [new_event InstanceCreated address 0 True])
    \<and> endpoint_bind (quiet\<lparr>md_mid := \<lambda>_. p1\<rparr>) ho address p
        = (Inr address, p1, [new_event InstanceCreated address 0 True])
    \<and> clear_stale_socket (\<lambda>_. p1) ho address p = (Inr (), p1\<lparr>pl_at := Vacant\<rparr>)"
proof -
  from assms(5) have e: "ensure_private_directory ho dir p = (Inr (), p)"
    by (auto simp: ensure_private_directory_def private_to_def mask_forbidden)
  have c: "clear_stale_socket (\<lambda>_. p1) ho address p = (Inr (), p1\<lparr>pl_at := Vacant\<rparr>)"
    "clear_stale_socket (\<lambda>p. p) ho address p = (Inr (), p\<lparr>pl_at := Vacant\<rparr>)"
    using assms by (simp_all add: clear_stale_socket_def connect_at_def io_of_def)
  show ?thesis using assms(1,4,7) e c
    by (simp add: endpoint_bind_def quiet_def listen_at_def)
qed

theorem bind_can_evict_live_daemon_witness:
  "clear_stale_socket (\<lambda>_. \<lparr>pl_dir = Directory 1000 448, pl_at = LiveSocket 1000\<rparr>) sample_host
     ''/run/mehoyd.sock'' \<lparr>pl_dir = Directory 1000 448, pl_at = StaleSocket 1000\<rparr>
   = (Inr (), \<lparr>pl_dir = Directory 1000 448, pl_at = Vacant\<rparr>)"
proof -
  have "parent_of ''/run/mehoyd.sock'' = Some ''/run''"
    by (simp add: parent_of_def strip_separators_def)
  moreover have "private_to 1000 (Directory 1000 448)"
    by (simp add: private_to_def FORBIDDEN_DIR_BITS_def)
  ultimately show ?thesis
    using bind_can_evict_live_daemon [of "''/run/mehoyd.sock''" "''/run''" sample_host
        "\<lparr>pl_dir = Directory 1000 448, pl_at = StaleSocket 1000\<rparr>"
        "\<lparr>pl_dir = Directory 1000 448, pl_at = LiveSocket 1000\<rparr>"]
    by (simp add: sample_host_def)
qed

end
