(* ===== verification/Pipe.thy ===== *)
theory Pipe
  imports Endpoint
begin

text \<open>
  The local endpoint on Windows (\<open>mehoy-core/src/transport/windows.rs\<close>): a named pipe. What the
  kernel answers is a parameter: one \<open>bind_attempt\<close>, \<open>accept_run\<close> or \<open>connect_attempt\<close> per round
  of the loops, with the instants at which the code looks at the clock, in nanoseconds. A loop that
  has used up its rounds is still running, which is \<open>None\<close>.
\<close>

section \<open>Names and descriptors\<close>

definition BIND_LINGER_BUDGET :: nat where
  "BIND_LINGER_BUDGET = 3000000000"

definition BIND_RETRY_INTERVAL :: nat where
  "BIND_RETRY_INTERVAL = 25000000"

definition BIND_LIVENESS_CONFIRMATION :: nat where
  "BIND_LIVENESS_CONFIRMATION = 400000000"

definition PIPE_BUFFER_BYTES :: u32 where
  "PIPE_BUFFER_BYTES = 64 * 1024"

definition ERROR_ACCESS_DENIED :: int where
  "ERROR_ACCESS_DENIED = 5"

definition ERROR_PIPE_BUSY :: int where
  "ERROR_PIPE_BUSY = 231"

definition security_descriptor_definition :: "string \<Rightarrow> string" where
  "security_descriptor_definition sid = ''D:P(D;;GA;;;NU)(A;;GA;;;'' @ sid @ '')''"

definition pipe_default_address :: "io_error + string \<Rightarrow> endpoint_error + string" where
  "pipe_default_address sid = (case sid of
     Inl err \<Rightarrow> Inl (NoDefaultLocation (''cannot read the current user's identity: '' @ io_message err))
   | Inr s \<Rightarrow> Inr ([CHR 0x5C, CHR 0x5C] @ ''.'' @ [CHR 0x5C] @ ''pipe'' @ [CHR 0x5C] @ ''mehoyd-'' @ s))"

section \<open>Binding\<close>

text \<open>Instances of a pipe are numbered. One round of the loop of \<open>bind\<close>: what creating the first
  instance yields, whether opening the name as a client succeeds, and the clock when the answer is
  recorded, when its age is looked at, and when the budget is.\<close>

record bind_attempt =
  ba_create :: "io_error + nat"
  ba_open :: bool
  ba_answered :: nat
  ba_elapsed :: nat
  ba_deadline :: nat

record pipe_endpoint =
  pe_address :: string
  pe_sddl :: string
  pe_pending :: "nat option"
  pe_generation :: u64

definition note_answer :: "bind_attempt \<Rightarrow> nat option \<Rightarrow> nat option" where
  "note_answer a answered = (if answered = None \<and> ba_open a then Some (ba_answered a) else answered)"

definition lingering :: "string \<Rightarrow> io_error" where
  "lingering address = io_of KInUse (address @ '' still has instances after ''
     @ show_nat (BIND_LINGER_BUDGET div 1000000000)
     @ ''s and no daemon could be                                  confirmed on it'')"

fun bind_loop :: "string \<Rightarrow> nat \<Rightarrow> bind_attempt list \<Rightarrow> nat option \<Rightarrow>
    ((endpoint_error + nat) \<times> endpoint_event list) option" where
  "bind_loop address deadline [] answered = None"
| "bind_loop address deadline (a # as) answered = (case ba_create a of
     Inr i \<Rightarrow> Some (Inr i, [])
   | Inl err \<Rightarrow>
       let ev = with_error err (new_event InstanceCreated address 0 False)
       in if io_os err \<noteq> Some ERROR_ACCESS_DENIED then Some (Inl (EndpointIo err), [ev])
          else
            let answered = note_answer a answered
            in if (case answered of None \<Rightarrow> False
                   | Some t \<Rightarrow> BIND_LIVENESS_CONFIRMATION \<le> ba_elapsed a - t)
               then Some (Inl (AlreadyRunning address), [ev])
               else if deadline \<le> ba_deadline a
               then Some (Inl (EndpointIo (lingering address)), [ev])
               else map_option (\<lambda>(r, evs). (r, ev # evs)) (bind_loop address deadline as answered))"

definition pipe_bind :: "io_error + string \<Rightarrow> nat \<Rightarrow> bind_attempt list \<Rightarrow> string \<Rightarrow>
    ((endpoint_error + pipe_endpoint) \<times> endpoint_event list) option" where
  "pipe_bind sid start attempts address = (case sid of
     Inl err \<Rightarrow> Some (Inl (EndpointIo err), [])
   | Inr s \<Rightarrow> map_option (\<lambda>(r, evs). (case r of
         Inl err \<Rightarrow> (Inl err, evs)
       | Inr i \<Rightarrow> (Inr \<lparr>pe_address = address, pe_sddl = security_descriptor_definition s,
                        pe_pending = Some i, pe_generation = 0\<rparr>,
                   evs @ [new_event InstanceCreated address 0 True])))
       (bind_loop address (start + BIND_LINGER_BUDGET) attempts None))"

section \<open>Accepting\<close>

text \<open>One call of \<open>accept\<close>: \<open>None\<close> in \<open>ac_connect\<close> is a call that is dropped while it waits.\<close>

record accept_run =
  ac_connect :: "(io_error + unit) option"
  ac_replacement :: "io_error + nat"

definition no_replacement :: "io_error \<Rightarrow> io_error" where
  "no_replacement err = io_of (io_kind err)
     (''cannot create a replacement pipe instance: '' @ io_message err)"

definition pipe_accept :: "accept_run \<Rightarrow> pipe_endpoint \<Rightarrow>
    (io_error + nat) option \<times> pipe_endpoint \<times> endpoint_event list" where
  "pipe_accept ac ep =
     (let ev = (\<lambda>st n. new_event st (pe_address ep) n True); n = pe_generation ep
      in case pe_pending ep of
           None \<Rightarrow>
             (let err = io_of KOther ''named pipe endpoint has no pending instance''
              in (Some (Inl err), ep, [with_error err (new_event AcceptFailed (pe_address ep) n False)]))
         | Some i \<Rightarrow> (case ac_connect ac of
             None \<Rightarrow> (None, ep, [ev ConnectWaitStarted n])
           | Some (Inl err) \<Rightarrow>
               (Some (Inl err), ep, [ev ConnectWaitStarted n, with_error err (ev AcceptFailed n)])
           | Some (Inr _) \<Rightarrow> (case ac_replacement ac of
               Inl err \<Rightarrow> (Some (Inl (no_replacement err)), ep,
                 [ev ConnectWaitStarted n, ev ConnectCompleted n, ev ReplacementCreateStarted n,
                  with_error err (ev AcceptFailed n)])
             | Inr next_instance \<Rightarrow>
                 (Some (Inr i), ep\<lparr>pe_pending := Some next_instance, pe_generation := n + 1\<rparr>,
                  [ev ConnectWaitStarted n, ev ConnectCompleted n, ev ReplacementCreateStarted n,
                   ev ReplacementCreated (n + 1), ev ConnectionHandedOff n]))))"

definition pipe_drop :: "pipe_endpoint \<Rightarrow> endpoint_event list" where
  "pipe_drop ep = [new_event EndpointClosed (pe_address ep) (pe_generation ep) (pe_pending ep \<noteq> None)]"

section \<open>Connecting\<close>

definition BUSY_WAIT_BUDGET :: nat where
  "BUSY_WAIT_BUDGET = 5000000000"

definition BUSY_RETRY_INTERVAL :: nat where
  "BUSY_RETRY_INTERVAL = 20000000"

record connect_attempt =
  ca_open :: "io_error + unit"
  ca_now :: nat

definition stayed_busy :: "string \<Rightarrow> io_error" where
  "stayed_busy address = io_of KTimedOut (''every instance of '' @ address @ '' stayed busy for ''
     @ show_nat (BUSY_WAIT_BUDGET div 1000000000)
     @ ''s; a daemon is listening but not accepting'')"

fun connect_loop :: "string \<Rightarrow> nat \<Rightarrow> connect_attempt list \<Rightarrow> (endpoint_error + unit) option" where
  "connect_loop address deadline [] = None"
| "connect_loop address deadline (a # as) = (case ca_open a of
     Inr _ \<Rightarrow> Some (Inr ())
   | Inl err \<Rightarrow>
       if io_os err = Some ERROR_PIPE_BUSY then
         (if deadline \<le> ca_now a then Some (Inl (EndpointIo (stayed_busy address)))
          else connect_loop address deadline as)
       else if io_kind err = KNotFound then Some (Inl (NotRunning address))
       else Some (Inl (EndpointIo err)))"

definition pipe_connect :: "nat \<Rightarrow> connect_attempt list \<Rightarrow> string \<Rightarrow> (endpoint_error + unit) option" where
  "pipe_connect start attempts address = connect_loop address (start + BUSY_WAIT_BUDGET) attempts"

section \<open>Lemmas\<close>

definition refused :: "bind_attempt \<Rightarrow> bool" where
  "refused a \<longleftrightarrow> (\<exists>err. ba_create a = Inl err \<and> io_os err = Some ERROR_ACCESS_DENIED)"

text \<open>The name answered a client, and creating it was still refused long enough afterwards.\<close>

definition held_on :: "nat option \<Rightarrow> bind_attempt list \<Rightarrow> bool" where
  "held_on answered as \<longleftrightarrow> (\<exists>as1 b as2 t. as = as1 @ b # as2 \<and> (\<forall>a\<in>set as1. refused a) \<and> refused b
     \<and> (answered = Some t \<or> (\<exists>a\<in>set (as1 @ [b]). ba_open a \<and> ba_answered a = t))
     \<and> BIND_LIVENESS_CONFIRMATION \<le> ba_elapsed b - t)"

lemma note_answer_Some:
  "note_answer a answered = Some t \<longleftrightarrow> answered = Some t \<or> (answered = None \<and> ba_open a \<and> ba_answered a = t)"
  by (auto simp: note_answer_def)

lemma held_on_later:
  assumes "refused a" and "held_on (note_answer a answered) as"
  shows "held_on answered (a # as)"
proof -
  from assms(2) obtain as1 b as2 t where h: "as = as1 @ b # as2" "\<forall>a\<in>set as1. refused a" "refused b"
    "note_answer a answered = Some t \<or> (\<exists>a\<in>set (as1 @ [b]). ba_open a \<and> ba_answered a = t)"
    "BIND_LIVENESS_CONFIRMATION \<le> ba_elapsed b - t" unfolding held_on_def by blast
  with assms(1) show ?thesis unfolding held_on_def note_answer_Some
    by (intro exI [of _ "a # as1"] exI [of _ b] exI [of _ as2] exI [of _ t]) auto
qed

lemma held_on_now:
  assumes "refused a" and "note_answer a answered = Some t"
    and "BIND_LIVENESS_CONFIRMATION \<le> ba_elapsed a - t"
  shows "held_on answered (a # as)"
  using assms unfolding held_on_def note_answer_Some
  by (intro exI [of _ "[]"] exI [of _ a] exI [of _ as] exI [of _ t]) auto

text \<open>One round, by what the kernel says.\<close>

lemma bind_loop_refused:
  assumes "refused a"
  obtains (held) evs where "bind_loop address deadline (a # as) answered
        = Some (Inl (AlreadyRunning address), evs)" "held_on answered (a # as)"
  | (late) evs where "bind_loop address deadline (a # as) answered
        = Some (Inl (EndpointIo (lingering address)), evs)" "deadline \<le> ba_deadline a"
  | (again) ev where "bind_loop address deadline (a # as) answered
        = map_option (\<lambda>(r, evs). (r, ev # evs)) (bind_loop address deadline as (note_answer a answered))"
      "ba_deadline a < deadline"
      "\<And>t. note_answer a answered = Some t \<Longrightarrow> ba_elapsed a - t < BIND_LIVENESS_CONFIRMATION"
proof -
  from assms obtain err where err: "ba_create a = Inl err" "io_os err = Some ERROR_ACCESS_DENIED"
    by (auto simp: refused_def)
  let ?ev = "with_error err (new_event InstanceCreated address 0 False)"
  show ?thesis
  proof (cases "\<exists>t. note_answer a answered = Some t \<and> BIND_LIVENESS_CONFIRMATION \<le> ba_elapsed a - t")
    case True
    with err held_on_now [OF assms] show ?thesis by (intro held [of "[?ev]"]) (auto simp: Let_def)
  next
    case False
    then have quick: "\<not> (case note_answer a answered of None \<Rightarrow> False
        | Some t \<Rightarrow> BIND_LIVENESS_CONFIRMATION \<le> ba_elapsed a - t)" by (simp split: option.split)
    show ?thesis
    proof (cases "deadline \<le> ba_deadline a")
      case True
      with err quick show ?thesis by (intro late [of "[?ev]"]) (simp_all add: Let_def)
    next
      case notyet: False
      show ?thesis
        by (rule again [of ?ev]) (use err quick notyet False in \<open>auto simp: Let_def not_le\<close>)
    qed
  qed
qed

lemma bind_loop_truthful:
  assumes "bind_loop address deadline as answered = Some (r, evs)"
  shows "case r of
      Inr i \<Rightarrow> \<exists>a\<in>set as. ba_create a = Inr i
    | Inl (AlreadyRunning x) \<Rightarrow> x = address \<and> held_on answered as
    | Inl (EndpointIo err) \<Rightarrow> (err = lingering address \<and> (\<exists>a\<in>set as. deadline \<le> ba_deadline a))
        \<or> (\<exists>a\<in>set as. ba_create a = Inl err)
    | Inl _ \<Rightarrow> False"
  using assms
proof (induction as arbitrary: answered evs)
  case (Cons a as)
  show ?case
  proof (cases "refused a")
    case True
    then show ?thesis
    proof (cases rule: bind_loop_refused [where address = address and deadline = deadline
          and answered = answered and as = as])
      case (again ev)
      from Cons.prems obtain evs' where "bind_loop address deadline as (note_answer a answered) = Some (r, evs')"
        unfolding again(1) by auto
      from Cons.IH [OF this] held_on_later [OF True]
      show ?thesis by (auto split: sum.splits endpoint_error.splits)
    qed (use Cons.prems in auto)
  next
    case False
    with Cons.prems show ?thesis
      by (auto simp: refused_def Let_def split: sum.splits if_splits)
  qed
qed simp

lemma bind_loop_returns:
  "\<exists>a\<in>set as. deadline \<le> ba_deadline a \<Longrightarrow> bind_loop address deadline as answered \<noteq> None"
proof (induction as arbitrary: answered)
  case (Cons a as)
  show ?case
  proof (cases "refused a")
    case True
    then show ?thesis
    proof (cases rule: bind_loop_refused [where address = address and deadline = deadline
          and answered = answered and as = as])
      case (again ev)
      with Cons show ?thesis by auto
    qed simp_all
  next
    case False
    then show ?thesis by (auto simp: refused_def Let_def split: sum.splits)
  qed
qed simp

text \<open>A name that was still closing: refused for a while, but given up before it counts.\<close>

definition closing :: "nat \<Rightarrow> nat option \<Rightarrow> bind_attempt list \<Rightarrow> bool" where
  "closing deadline answered as \<longleftrightarrow> (\<forall>a\<in>set as. refused a \<and> ba_deadline a < deadline
     \<and> (\<forall>t. answered = Some t \<or> (\<exists>c\<in>set as. ba_open c \<and> ba_answered c = t) \<longrightarrow>
          ba_elapsed a < t + BIND_LIVENESS_CONFIRMATION))"

lemma bind_loop_closing:
  assumes "closing deadline answered as1" and "ba_create b = Inr i"
  shows "\<exists>evs. bind_loop address deadline (as1 @ b # as2) answered = Some (Inr i, evs)"
  using assms(1)
proof (induction as1 arbitrary: answered)
  case Nil
  then show ?case using assms(2) by simp
next
  case (Cons a as1)
  have quick: "ba_elapsed a - t < BIND_LIVENESS_CONFIRMATION" if "note_answer a answered = Some t" for t
  proof -
    have "ba_elapsed a < t + BIND_LIVENESS_CONFIRMATION"
      using Cons.prems that unfolding closing_def note_answer_Some by auto
    then show ?thesis by (auto simp: BIND_LIVENESS_CONFIRMATION_def)
  qed
  have rest: "closing deadline (note_answer a answered) as1"
    using Cons.prems unfolding closing_def note_answer_Some by auto
  have "refused a" "ba_deadline a < deadline" using Cons.prems by (auto simp: closing_def)
  then obtain err where "ba_create a = Inl err" "io_os err = Some ERROR_ACCESS_DENIED"
    by (auto simp: refused_def)
  then have "bind_loop address deadline ((a # as1) @ b # as2) answered
      = map_option (\<lambda>(r, evs). (r, with_error err (new_event InstanceCreated address 0 False) # evs))
          (bind_loop address deadline (as1 @ b # as2) (note_answer a answered))"
    using quick \<open>ba_deadline a < deadline\<close>
    by (cases "note_answer a answered") (auto simp: Let_def not_le)
  with Cons.IH [OF rest] show ?case by auto
qed

section \<open>Accepting again and again\<close>

fun accept_all :: "accept_run list \<Rightarrow> pipe_endpoint \<Rightarrow> nat list \<times> pipe_endpoint \<times> endpoint_event list" where
  "accept_all [] ep = ([], ep, [])"
| "accept_all (ac # acs) ep =
     (let (r, ep, evs) = pipe_accept ac ep; (is, ep, evs') = accept_all acs ep
      in ((case r of Some (Inr i) \<Rightarrow> i # is | _ \<Rightarrow> is), ep, evs @ evs'))"

definition replacements :: "accept_run list \<Rightarrow> nat list" where
  "replacements acs = concat (map (\<lambda>ac. case ac_replacement ac of Inl _ \<Rightarrow> [] | Inr i \<Rightarrow> [i]) acs)"

lemma replacements_Cons: "replacements (ac # acs)
    = (case ac_replacement ac of Inl _ \<Rightarrow> [] | Inr i \<Rightarrow> [i]) @ replacements acs"
  by (simp add: replacements_def)

lemma pipe_accept_cases:
  assumes "pipe_accept ac ep = (r, ep', evs)" and "pe_pending ep = Some i"
  obtains (kept) "ep' = ep" "\<And>j. r \<noteq> Some (Inr j)" "\<forall>ev\<in>set evs. ev_listener ev"
  | (handed) n where "ac_replacement ac = Inr n" "r = Some (Inr i)" "\<forall>ev\<in>set evs. ev_listener ev"
      "ep' = ep\<lparr>pe_pending := Some n, pe_generation := pe_generation ep + 1\<rparr>"
  using assms
  by (auto simp: pipe_accept_def Let_def new_event_def with_error_def
      split: option.splits sum.splits)

lemma accept_all_facts:
  assumes "accept_all acs ep = (is, ep', evs)" and "pe_pending ep = Some i"
    and "distinct (i # replacements acs)"
  shows "\<exists>j. pe_pending ep' = Some j \<and> distinct (is @ [j]) \<and> set (is @ [j]) \<subseteq> set (i # replacements acs)
    \<and> (\<forall>ev\<in>set evs. ev_listener ev) \<and> pe_generation ep' = pe_generation ep + of_nat (length is)
    \<and> pe_sddl ep' = pe_sddl ep"
  using assms
proof (induction acs arbitrary: ep i "is" evs ep')
  case (Cons ac acs)
  obtain r ep1 evs1 where a: "pipe_accept ac ep = (r, ep1, evs1)" by (metis prod_cases3)
  obtain is2 ep2 evs2 where rest: "accept_all acs ep1 = (is2, ep2, evs2)" by (metis prod_cases3)
  from a Cons.prems(2) show ?case
  proof (cases rule: pipe_accept_cases)
    case kept
    have d: "distinct (i # replacements acs)"
      using Cons.prems(3) by (auto simp: replacements_Cons split: sum.splits)
    have p: "pe_pending ep1 = Some i" using kept(1) Cons.prems(2) by simp
    have eqs: "is = is2" "ep' = ep2" "evs = evs1 @ evs2"
      using Cons.prems(1) a rest kept(2) by (auto split: option.splits sum.splits)
    from Cons.IH [OF rest p d] show ?thesis
      unfolding eqs using kept by (auto simp: replacements_Cons split: sum.splits)
  next
    case (handed n)
    have p: "pe_pending ep1 = Some n" by (simp add: handed(4))
    have d: "distinct (n # replacements acs)" "i \<noteq> n" "i \<notin> set (replacements acs)"
      using Cons.prems(3) handed(1) by (auto simp: replacements_Cons)
    have eqs: "is = i # is2" "ep' = ep2" "evs = evs1 @ evs2"
      using Cons.prems(1) a rest handed(2) by auto
    from Cons.IH [OF rest p d(1)] show ?thesis
      unfolding eqs using handed d by (auto simp: replacements_Cons)
  qed
qed (auto simp: replacements_def)

lemma connect_loop_returns:
  "\<exists>a\<in>set as. deadline \<le> ca_now a \<Longrightarrow> connect_loop address deadline as \<noteq> None"
  by (induction as) (auto split: sum.split)

lemma connect_loop_truthful:
  "connect_loop address deadline as = Some r \<Longrightarrow> (case r of
      Inr _ \<Rightarrow> \<exists>a\<in>set as. ca_open a = Inr ()
    | Inl (NotRunning x) \<Rightarrow> x = address \<and> (\<exists>a\<in>set as. \<exists>err. ca_open a = Inl err \<and> io_kind err = KNotFound)
    | Inl err \<Rightarrow> \<exists>e. err = EndpointIo e)"
  by (induction as) (auto split: sum.splits if_splits endpoint_error.splits)

lemma pipe_bind_cases:
  assumes "pipe_bind (Inr sid) start as address = Some (r, evs)"
  obtains (bound) i evs' where
      "bind_loop address (start + BIND_LINGER_BUDGET) as None = Some (Inr i, evs')"
      "r = Inr \<lparr>pe_address = address, pe_sddl = security_descriptor_definition sid,
         pe_pending = Some i, pe_generation = 0\<rparr>"
  | (failed) err evs' where
      "bind_loop address (start + BIND_LINGER_BUDGET) as None = Some (Inl err, evs')" "r = Inl err"
proof -
  from assms obtain r' evs' where l: "bind_loop address (start + BIND_LINGER_BUDGET) as None = Some (r', evs')"
    by (auto simp: pipe_bind_def)
  show ?thesis
  proof (cases r')
    case (Inl err)
    with assms l show ?thesis by (intro failed) (auto simp: pipe_bind_def)
  next
    case (Inr i)
    with assms l show ?thesis by (intro bound) (auto simp: pipe_bind_def)
  qed
qed

section \<open>Properties\<close>

text \<open>C25: binding a pipe tells a running daemon from one that is going away. A name that keeps
  refusing only for a while, less than 0.4 s after it first answered and within the budget, is
  bound; \<open>AlreadyRunning\<close> is reported only for a name that did answer a client and was still
  refusing 0.4 s later; every other failure is the kernel's own or a budget that is used up; and
  the loop ends by the time the budget does.\<close>

theorem pipe_bind_truthful:
  "(closing (start + BIND_LINGER_BUDGET) None as1 \<and> ba_create b = Inr i \<longrightarrow>
      (\<exists>ep evs. pipe_bind (Inr sid) start (as1 @ b # as2) address = Some (Inr ep, evs)
        \<and> pe_pending ep = Some i \<and> pe_sddl ep = security_descriptor_definition sid))
    \<and> (pipe_bind (Inr sid) start as address = Some (Inl err, evs) \<longrightarrow>
        err = AlreadyRunning address \<and> held_on None as
        \<or> err = EndpointIo (lingering address) \<and> (\<exists>a\<in>set as. start + BIND_LINGER_BUDGET \<le> ba_deadline a)
        \<or> (\<exists>a\<in>set as. \<exists>e. ba_create a = Inl e \<and> err = EndpointIo e))
    \<and> ((\<exists>a\<in>set as. start + BIND_LINGER_BUDGET \<le> ba_deadline a) \<longrightarrow>
        pipe_bind (Inr sid) start as address \<noteq> None)"
proof (intro conjI impI)
  assume "closing (start + BIND_LINGER_BUDGET) None as1 \<and> ba_create b = Inr i"
  with bind_loop_closing obtain evs where
    "bind_loop address (start + BIND_LINGER_BUDGET) (as1 @ b # as2) None = Some (Inr i, evs)" by blast
  then show "\<exists>ep evs. pipe_bind (Inr sid) start (as1 @ b # as2) address = Some (Inr ep, evs)
      \<and> pe_pending ep = Some i \<and> pe_sddl ep = security_descriptor_definition sid"
    by (simp add: pipe_bind_def)
next
  assume "pipe_bind (Inr sid) start as address = Some (Inl err, evs)"
  then obtain evs' where
    "bind_loop address (start + BIND_LINGER_BUDGET) as None = Some (Inl err, evs')"
    by (cases rule: pipe_bind_cases) auto
  from bind_loop_truthful [OF this] show "err = AlreadyRunning address \<and> held_on None as
        \<or> err = EndpointIo (lingering address) \<and> (\<exists>a\<in>set as. start + BIND_LINGER_BUDGET \<le> ba_deadline a)
        \<or> (\<exists>a\<in>set as. \<exists>e. ba_create a = Inl e \<and> err = EndpointIo e)"
    by (cases err) auto
next
  assume "\<exists>a\<in>set as. start + BIND_LINGER_BUDGET \<le> ba_deadline a"
  from bind_loop_returns [OF this] show "pipe_bind (Inr sid) start as address \<noteq> None"
    by (simp add: pipe_bind_def)
qed

text \<open>a bound pipe is never unattended. However many calls of \<open>accept\<close> succeed, fail or are
  dropped half way, the endpoint always holds an instance that waits for the next client, as every
  event it emits says; no instance is handed to two clients, the waiting one to none; and the
  generation counts the instances handed over.\<close>

theorem pipe_never_unattended:
  assumes "pipe_bind (Inr sid) start as address = Some (Inr ep, evs)" and "pe_pending ep = Some i"
    and "accept_all acs ep = (handed, ep', evs')" and "distinct (i # replacements acs)"
  shows "\<exists>j. pe_pending ep' = Some j \<and> distinct (handed @ [j])
    \<and> (\<forall>ev\<in>set evs'. ev_listener ev) \<and> pe_generation ep' = of_nat (length handed)
    \<and> pe_sddl ep' = security_descriptor_definition sid"
proof -
  from assms(1) have "pe_generation ep = 0" "pe_sddl ep = security_descriptor_definition sid"
    by (cases rule: pipe_bind_cases; simp)+
  with accept_all_facts [OF assms(3,2,4)] show ?thesis by auto
qed

definition sample_attempts :: "bind_attempt list" where
  "sample_attempts =
     [\<lparr>ba_create = Inl \<lparr>io_kind = KDenied, io_os = Some ERROR_ACCESS_DENIED, io_message = []\<rparr>,
       ba_open = True, ba_answered = 1, ba_elapsed = 2, ba_deadline = 3\<rparr>,
      \<lparr>ba_create = Inr 7, ba_open = False, ba_answered = 0, ba_elapsed = 0, ba_deadline = 0\<rparr>]"

theorem pipe_bind_truthful_witness:
  "\<exists>ep evs. pipe_bind (Inr ''S-1-5'') 0 sample_attempts ''p'' = Some (Inr ep, evs) \<and> pe_pending ep = Some 7"
proof -
  have "closing (0 + BIND_LINGER_BUDGET) None [hd sample_attempts]
      \<and> ba_create (last sample_attempts) = Inr 7"
    by (simp add: closing_def refused_def sample_attempts_def BIND_LINGER_BUDGET_def
        BIND_LIVENESS_CONFIRMATION_def)
  moreover have "sample_attempts = [hd sample_attempts] @ last sample_attempts # []"
    by (simp add: sample_attempts_def)
  ultimately show ?thesis
    using pipe_bind_truthful [of 0 "[hd sample_attempts]" "last sample_attempts" 7 "''S-1-5''" "[]" "''p''" "[]" "NotRunning []" "[]"]
    by auto
qed

theorem pipe_never_unattended_witness:
  "\<exists>j. pe_pending (fst (snd (accept_all
      [\<lparr>ac_connect = Some (Inr ()), ac_replacement = Inr 8\<rparr>, \<lparr>ac_connect = None, ac_replacement = Inr 9\<rparr>]
      \<lparr>pe_address = ''p'', pe_sddl = security_descriptor_definition ''S-1-5'', pe_pending = Some 7,
        pe_generation = 0\<rparr>))) = Some j"
proof -
  let ?ep = "\<lparr>pe_address = ''p'', pe_sddl = security_descriptor_definition ''S-1-5'',
    pe_pending = Some (7 :: nat), pe_generation = 0\<rparr>"
  let ?acs = "[\<lparr>ac_connect = Some (Inr ()), ac_replacement = Inr 8\<rparr>, \<lparr>ac_connect = None, ac_replacement = Inr 9\<rparr>]"
  obtain handed ep' evs' where r: "accept_all ?acs ?ep = (handed, ep', evs')" by (metis prod_cases3)
  have b: "pipe_bind (Inr ''S-1-5'') 0 [last sample_attempts] ''p''
      = Some (Inr ?ep, [new_event InstanceCreated ''p'' 0 True])"
    by (simp add: pipe_bind_def sample_attempts_def)
  have p: "pe_pending ?ep = Some 7" and d: "distinct (7 # replacements ?acs)"
    by (simp_all add: replacements_def)
  from pipe_never_unattended [OF b p r d] r show ?thesis by auto
qed

end
