(* ===== verification/Backend.thy ===== *)
theory Backend
  imports Process Endpoint
begin

text \<open>
  The llama.cpp execution backend (\<open>mehoy-backend-llama/src/\<close>): identifying the executable,
  judging compatibility, the credential file and the private channel, health and credential
  probes, and starting and stopping a worker.

  The HTTP exchanges are parameters: what a GET of a path answered, \<open>None\<close> when the budget ran
  out, \<open>Some (Inl err)\<close> when it could not be delivered and \<open>Some (Inr status)\<close> otherwise. The
  text of an HTTP status is the argument \<open>show_status\<close>.
\<close>

unbundle bit_operations_syntax

section \<open>Identity\<close>

datatype backend_family = LlamaCpp

fun show_family :: "backend_family \<Rightarrow> string" where
  "show_family LlamaCpp = ''llama.cpp''"

record backend_identity =
  bi_family :: backend_family
  bi_executable :: string
  bi_build :: "string option"
  bi_commit :: "string option"
  bi_banner :: string

definition show_identity :: "backend_identity \<Rightarrow> string" where
  "show_identity b = show_family (bi_family b)
     @ (case bi_build b of None \<Rightarrow> [] | Some n \<Rightarrow> '' build '' @ n)
     @ (case bi_commit b of None \<Rightarrow> [] | Some c \<Rightarrow> '' ('' @ c @ '')'')
     @ '' at '' @ bi_executable b"

text \<open>\<open>str::lines\<close>: a final line end ends a line rather than starting one, a carriage return
  before a line feed belongs to the line end.\<close>

fun split_lines :: "string \<Rightarrow> string \<Rightarrow> string list" where
  "split_lines acc [] = (if acc = [] then [] else [acc])"
| "split_lines acc (c # s) =
     (if c = CHR 0x0A
      then (if suffix [CHR 0x0D] acc then butlast acc else acc) # split_lines [] s
      else split_lines (acc @ [c]) s)"

definition str_lines :: "string \<Rightarrow> string list" where
  "str_lines s = split_lines [] s"

definition split_once :: "char \<Rightarrow> string \<Rightarrow> (string \<times> string) option" where
  "split_once c s = (case dropWhile (\<lambda>x. x \<noteq> c) s of
     [] \<Rightarrow> None | _ # rest \<Rightarrow> Some (takeWhile (\<lambda>x. x \<noteq> c) s, rest))"

fun version_line :: "string list \<Rightarrow> string option" where
  "version_line [] = None"
| "version_line (l # ls) = (case strip_prefix ''version:'' (trim l) of
     None \<Rightarrow> version_line ls | Some rest \<Rightarrow> Some rest)"

definition parse_commit :: "string \<Rightarrow> string option" where
  "parse_commit remainder = (case strip_prefix ''('' (trim remainder) of
     None \<Rightarrow> None
   | Some v \<Rightarrow> (case strip_suffix '')'' v of
       None \<Rightarrow> None | Some v \<Rightarrow> if v = [] then None else Some v))"

definition parse_banner :: "string \<Rightarrow> string \<Rightarrow> backend_identity" where
  "parse_banner executable banner =
     (let (build, commit) = (case version_line (str_lines banner) of
          None \<Rightarrow> (None, None)
        | Some rest \<Rightarrow>
            let rest = trim rest;
                (number, remainder) = (case split_once (CHR '' '') rest of
                   None \<Rightarrow> (rest, []) | Some (n, r) \<Rightarrow> (n, r))
            in (if number = [] then None else Some number, parse_commit remainder))
      in \<lparr>bi_family = LlamaCpp, bi_executable = executable, bi_build = build, bi_commit = commit,
          bi_banner = trim banner\<rparr>)"

text \<open>\<open>identify\<close>: the banner is on standard error, or failing that on standard output.\<close>

datatype backend_error =
  Unavailable string
| Unidentifiable string string
| ChannelError io_error
| BackendRejected string
| WorkerFailure worker_error "backend_identity option" string

definition identify ::
    "string \<Rightarrow> string + (string \<times> string) \<Rightarrow> backend_error + backend_identity" where
  "identify executable output = (case output of
     Inl err \<Rightarrow> Inl (Unidentifiable executable err)
   | Inr (stdout, stderr) \<Rightarrow> Inr (parse_banner executable
       (if \<not> str_contains stderr ''version:'' \<and> str_contains stdout ''version:''
        then stdout else stderr)))"

definition show_backend_error :: "(duration \<Rightarrow> string) \<Rightarrow> backend_error \<Rightarrow> string" where
  "show_backend_error secs err = (case err of
     Unavailable reason \<Rightarrow> ''no llama.cpp backend available: '' @ reason
   | Unidentifiable exe reason \<Rightarrow> ''cannot identify llama.cpp backend '' @ exe @ '': '' @ reason
   | ChannelError e \<Rightarrow> ''cannot establish a private backend channel: '' @ io_message e
   | BackendRejected detail \<Rightarrow> ''backend rejected its own credentials: '' @ detail
   | WorkerFailure source identity out \<Rightarrow> show_worker_error secs source
       @ (case identity of None \<Rightarrow> [] | Some i \<Rightarrow> [CHR 0x0A] @ ''backend: '' @ show_identity i)
       @ (if trim out = [] then [] else [CHR 0x0A] @ ''backend output:'' @ [CHR 0x0A] @ out))"

definition EXECUTABLE_ENV :: string where
  "EXECUTABLE_ENV = ''MEHOY_LLAMA_SERVER''"

definition backend_new :: "(string \<Rightarrow> bool) \<Rightarrow> string \<Rightarrow> backend_error + string" where
  "backend_new is_file executable =
     (if \<not> is_file executable then Inl (Unavailable (executable @ '' is not an existing file''))
      else Inr executable)"

definition backend_from_env :: "(string \<Rightarrow> bool) \<Rightarrow> string option \<Rightarrow> backend_error + string" where
  "backend_from_env is_file var = (case var of
     None \<Rightarrow> Inl (Unavailable (EXECUTABLE_ENV @ '' is not set''))
   | Some v \<Rightarrow> if v = [] then Inl (Unavailable (EXECUTABLE_ENV @ '' is empty''))
               else backend_new is_file v)"

section \<open>Compatibility\<close>

record model_descriptor =
  d_architecture :: "string option"
  d_context_length :: "u64 option"
  d_embedding_length :: "u64 option"
  d_tokenizer_model :: "string option"
  d_has_chat_template :: bool

datatype compatibility = Supported | Unsupported string | Undetermined string

fun permits_start :: "compatibility \<Rightarrow> bool" where
  "permits_start (Unsupported _) = False"
| "permits_start _ = True"

fun show_compatibility :: "compatibility \<Rightarrow> string" where
  "show_compatibility Supported = ''supported''"
| "show_compatibility (Unsupported reason) = ''unsupported: '' @ reason"
| "show_compatibility (Undetermined reason) = ''undetermined: '' @ reason"

datatype launch_mode = General | Embedding

definition EMBEDDING_ORIENTED :: "string list" where
  "EMBEDDING_ORIENTED = [''bert'']"

definition NOT_STANDALONE :: "string list" where
  "NOT_STANDALONE = [''clip'']"

definition launch_mode :: "model_descriptor \<Rightarrow> launch_mode" where
  "launch_mode d =
     (let oriented = (case d_architecture d of None \<Rightarrow> False
        | Some a \<Rightarrow> list_ex (\<lambda>family. str_contains a family) EMBEDDING_ORIENTED)
      in if oriented \<and> \<not> d_has_chat_template d then Embedding else General)"

definition assess :: "model_descriptor \<Rightarrow> compatibility" where
  "assess d = (case d_architecture d of
     None \<Rightarrow> Undetermined ''the container declares no architecture''
   | Some a \<Rightarrow>
       if a \<in> set NOT_STANDALONE
       then Unsupported (a @ '' is a companion projector rather than a standalone model'')
       else if d_tokenizer_model d = None
       then Undetermined (a @ '' declares no tokenizer, so whether it can be served alone is undetermined'')
       else Undetermined (a @ '' is not known to be unsupported; the backend decides''))"

section \<open>Channel\<close>

datatype channel_secret = ChannelSecret string

fun expose :: "channel_secret \<Rightarrow> string" where
  "expose (ChannelSecret s) = s"

fun debug_secret :: "channel_secret \<Rightarrow> string" where
  "debug_secret (ChannelSecret _) = ''ChannelSecret(<redacted>)''"

definition generate_secret :: "string + u8 list \<Rightarrow> io_error + channel_secret" where
  "generate_secret drawn = (case generate_hex drawn of
     Inl err \<Rightarrow> Inl (io_of KOther err) | Inr s \<Rightarrow> Inr (ChannelSecret s))"

record backend_channel =
  ch_ip :: "u8 list"
  ch_port :: u16
  ch_secret :: channel_secret

text \<open>\<open>bound\<close> is the port the system gave to a listener on 127.0.0.1, port 0.\<close>

definition reserve_channel :: "io_error + u16 \<Rightarrow> string + u8 list \<Rightarrow> io_error + backend_channel" where
  "reserve_channel bound drawn =
     rbind bound (\<lambda>port.
     rbind (generate_secret drawn) (\<lambda>secret.
       Inr \<lparr>ch_ip = [127, 0, 0, 1], ch_port = port, ch_secret = secret\<rparr>))"

fun show_ipv4 :: "u8 list \<Rightarrow> string" where
  "show_ipv4 [] = []"
| "show_ipv4 [b] = show_nat (unat b)"
| "show_ipv4 (b # bs) = show_nat (unat b) @ ''.'' @ show_ipv4 bs"

definition channel_host :: "backend_channel \<Rightarrow> string" where
  "channel_host c = show_ipv4 (ch_ip c)"

definition channel_is_loopback :: "backend_channel \<Rightarrow> bool" where
  "channel_is_loopback c \<longleftrightarrow> ch_ip c \<noteq> [] \<and> hd (ch_ip c) = 127"

section \<open>Credential file\<close>

text \<open>\<open>channel.rs\<close> has its own version of the directory check, with other messages.\<close>

definition ensure_credential_directory ::
    "host \<Rightarrow> string \<Rightarrow> dir_look \<Rightarrow> (io_error + unit) \<times> dir_look" where
  "ensure_credential_directory ho dir look =
     (let refuse = (\<lambda>reason. (Inl (io_of KDenied (dir @ '' is not usable for credentials: '' @ reason)), look))
      in case look of
           NoDir \<Rightarrow> (case ho_mkdir ho of
             Some err \<Rightarrow> (Inl err, look) | None \<Rightarrow> (Inr (), Directory (ho_euid ho) 448))
         | DirUnreadable err \<Rightarrow> (Inl err, look)
         | SymbolicLink \<Rightarrow> refuse ''it is a symbolic link''
         | NotADirectory \<Rightarrow> refuse ''it is not a directory''
         | Directory uid mode \<Rightarrow>
             if uid \<noteq> ho_euid ho then refuse ''it belongs to another user''
             else if mode AND 63 \<noteq> 0 then refuse ''it is accessible to other users''
             else (Inr (), look))"

record key_file =
  kf_mode :: u32
  kf_contents :: string

record key_store =
  ks_dir :: dir_look
  ks_files :: "(string \<times> key_file) list"

record key_env =
  ke_host :: host
  ke_random :: "string + u8 list"
  ke_pid :: u32
  ke_open :: "io_error option"
  ke_write :: "(nat \<times> io_error) option"

definition key_path :: "string \<Rightarrow> u32 \<Rightarrow> string \<Rightarrow> string" where
  "key_path directory pid hex_suffix =
     path_join directory (''backend-'' @ show_nat (unat pid) @ ''-'' @ hex_suffix @ ''.key'')"

text \<open>
  \<open>SecretFile::create\<close>. \<open>ke_write\<close> is a write that fails and how many bytes it had written: the file
  stays, holding those, because only a finished \<open>SecretFile\<close> removes it.
\<close>

definition secret_file_create ::
    "key_env \<Rightarrow> string \<Rightarrow> channel_secret \<Rightarrow> key_store \<Rightarrow> (io_error + string) \<times> key_store" where
  "secret_file_create ke directory secret ks =
     (case ensure_credential_directory (ke_host ke) directory (ks_dir ks) of
        (Inl err, d) \<Rightarrow> (Inl err, ks\<lparr>ks_dir := d\<rparr>)
      | (Inr _, d) \<Rightarrow>
          let ks = ks\<lparr>ks_dir := d\<rparr>
          in case generate_hex (ke_random ke) of
               Inl err \<Rightarrow> (Inl (io_of KOther err), ks)
             | Inr hex \<Rightarrow>
                 let path = key_path directory (ke_pid ke) hex
                 in case ke_open ke of
                      Some err \<Rightarrow> (Inl err, ks)
                    | None \<Rightarrow>
                        if map_of (ks_files ks) path \<noteq> None
                        then (Inl (io_of KOther ''File exists (os error 17)''), ks)
                        else case ke_write ke of
                          Some (n, err) \<Rightarrow> (Inl err, ks\<lparr>ks_files :=
                            (path, \<lparr>kf_mode = 384, kf_contents = take n (expose secret)\<rparr>) # ks_files ks\<rparr>)
                        | None \<Rightarrow> (Inr path, ks\<lparr>ks_files :=
                            (path, \<lparr>kf_mode = 384, kf_contents = expose secret\<rparr>) # ks_files ks\<rparr>))"

definition secret_file_drop :: "string \<Rightarrow> key_store \<Rightarrow> key_store" where
  "secret_file_drop path ks = ks\<lparr>ks_files := filter (\<lambda>e. fst e \<noteq> path) (ks_files ks)\<rparr>"

definition secret_directory :: "string \<Rightarrow> u32 \<Rightarrow> string" where
  "secret_directory temp euid = path_join temp (''mehoy-backend-'' @ show_nat (unat euid))"

section \<open>Health\<close>

datatype readiness = BackendReady | InferenceVerified

datatype credential_state = Accepted | CredentialRefused u16

datatype startup_phase = WaitingForEndpoint | LoadingModel | EndpointReady

fun show_startup_phase :: "startup_phase \<Rightarrow> string" where
  "show_startup_phase WaitingForEndpoint = ''waiting for endpoint''"
| "show_startup_phase LoadingModel = ''loading model''"
| "show_startup_phase EndpointReady = ''backend ready''"

datatype health_error = HealthRejected u16 | HealthTransport string

fun show_health_error :: "(u16 \<Rightarrow> string) \<Rightarrow> health_error \<Rightarrow> string" where
  "show_health_error show_status (HealthRejected s) =
     ''backend health returned '' @ show_status s @ '', which is terminal''"
| "show_health_error show_status (HealthTransport d) = ''backend health request failed: '' @ d"

definition is_success :: "u16 \<Rightarrow> bool" where
  "is_success s \<longleftrightarrow> 200 \<le> s \<and> s < 300"

definition phase_for_status :: "u16 \<Rightarrow> health_error + startup_phase" where
  "phase_for_status s =
     (if s = 200 then Inr EndpointReady
      else if s = 503 then Inr LoadingModel
      else if s = 401 \<or> s = 403 then Inl (HealthRejected s)
      else Inr LoadingModel)"

type_synonym http_status = "(string + u16) option"

definition health_request :: "string + u16 \<Rightarrow> health_error + startup_phase" where
  "health_request answer = rbind (map_err HealthTransport answer) phase_for_status"

definition health_probe :: "http_status \<Rightarrow> health_error + startup_phase" where
  "health_probe answer = (case answer of
     None \<Rightarrow> Inr WaitingForEndpoint
   | Some a \<Rightarrow> (case health_request a of
       Inl (HealthTransport _) \<Rightarrow> Inr WaitingForEndpoint
     | other \<Rightarrow> other))"

definition probe_credential :: "http_status \<Rightarrow> health_error + credential_state" where
  "probe_credential answer = (case answer of
     None \<Rightarrow> Inl (HealthTransport ''credential check timed out'')
   | Some a \<Rightarrow> rbind (map_err HealthTransport a) (\<lambda>s.
       Inr (if is_success s then Accepted else CredentialRefused s)))"

definition status_without_credential :: "http_status \<Rightarrow> health_error + u16" where
  "status_without_credential answer = (case answer of
     None \<Rightarrow> Inl (HealthTransport ''request timed out'')
   | Some a \<Rightarrow> map_err HealthTransport a)"

section \<open>Starting and stopping\<close>

datatype gpu_layer_policy = CpuOnly | Layers u32

record llama_spec =
  sp_model_path :: string
  sp_descriptor :: model_descriptor
  sp_context_size :: "u32 option"
  sp_gpu_layers :: "gpu_layer_policy option"
  sp_deadlines :: worker_deadlines

definition command_line :: "llama_spec \<Rightarrow> backend_channel \<Rightarrow> string \<Rightarrow> string list" where
  "command_line spec ch key_file =
     [''--model'', sp_model_path spec, ''--host'', channel_host ch, ''--port'',
      show_nat (unat (ch_port ch)), ''--api-key-file'', key_file, ''--no-webui'']
     @ (if launch_mode (sp_descriptor spec) = Embedding then [''--embedding''] else [])
     @ (case sp_context_size spec of None \<Rightarrow> [] | Some n \<Rightarrow> [''--ctx-size'', show_nat (unat n)])
     @ (case sp_gpu_layers spec of
          Some CpuOnly \<Rightarrow> [''--n-gpu-layers'', ''0'']
        | Some (Layers n) \<Rightarrow> [''--n-gpu-layers'', show_nat (unat n)]
        | None \<Rightarrow> [])"

definition describe_leak :: "(duration \<Rightarrow> string) \<Rightarrow> worker_error option \<Rightarrow> string" where
  "describe_leak secs failure = (case failure of
     None \<Rightarrow> []
   | Some err \<Rightarrow> ''; the worker could not be stopped and may still be running: ''
       @ show_worker_error secs err)"

record running_backend =
  rb_handle :: worker_handle
  rb_channel :: backend_channel
  rb_identity :: "backend_identity option"
  rb_readiness :: readiness

definition backend_probe :: "(u16 \<Rightarrow> string) \<Rightarrow> http_status \<Rightarrow> worker_error + probe_outcome" where
  "backend_probe show_status answer = (case health_probe answer of
     Inr EndpointReady \<Rightarrow> Inr (ProbeReady (WorkerReady (show_startup_phase EndpointReady)))
   | Inr _ \<Rightarrow> Inr NotYet
   | Inl err \<Rightarrow> Inl (IoError (show_health_error show_status err)))"

text \<open>
  Everything \<open>start\<close> meets: what running \<open>--version\<close> gave, the reserved port, the randomness for
  the secret, the credential store, the spawn, the rounds and the time the startup deadline
  leaves, the answers of the health path and of the protected path.
\<close>

record start_env =
  se_identify :: "string + (string \<times> string)"
  se_port :: "io_error + u16"
  se_secret :: "string + u8 list"
  se_temp :: string
  se_keys :: key_env
  se_spawn :: "string + unit"
  se_rounds :: nat
  se_elapsed :: duration
  se_os :: os
  se_health :: "nat \<Rightarrow> http_status"
  se_props :: http_status
  se_status :: "u16 \<Rightarrow> string"
  se_secs :: "duration \<Rightarrow> string"

definition backend_worker_spec ::
    "string \<Rightarrow> worker_id \<Rightarrow> llama_spec \<Rightarrow> backend_channel \<Rightarrow> string \<Rightarrow> worker_spec" where
  "backend_worker_spec executable i spec ch key_file = \<lparr>
     ws_id = i, ws_program = executable, ws_args = command_line spec ch key_file,
     ws_deadlines = sp_deadlines spec, ws_capture_lines = DEFAULT_CAPTURE_LINES,
     ws_stop = Terminate\<rparr>"

definition refused_detail :: "u16 \<Rightarrow> string" where
  "refused_detail s = ''the backend refused the runtime's own credential with status ''
     @ show_nat (unat s) @ ''; it is serving but unusable''"

definition unconfirmed_detail :: "(u16 \<Rightarrow> string) \<Rightarrow> health_error \<Rightarrow> string" where
  "unconfirmed_detail show_status err = ''cannot confirm the backend accepts its credential: ''
     @ show_health_error show_status err"

text \<open>The credential check after a healthy start; a backend that fails it is shut down.\<close>

definition confirm_credential ::
    "start_env \<Rightarrow> backend_identity option \<Rightarrow> backend_channel \<Rightarrow> worker_handle \<Rightarrow>
     (backend_error + running_backend) \<times> worker_handle" where
  "confirm_credential se identity ch h = (case probe_credential (se_props se) of
     Inr Accepted \<Rightarrow> (Inr \<lparr>rb_handle = h, rb_channel = ch, rb_identity = identity,
                          rb_readiness = BackendReady\<rparr>, h)
   | Inr (CredentialRefused s) \<Rightarrow>
       (let (stopped, h) = shutdown (se_os se) h;
            left = (case stopped of Inl err \<Rightarrow> Some err | Inr _ \<Rightarrow> None)
        in (Inl (BackendRejected (refused_detail s @ describe_leak (se_secs se) left)), h))
   | Inl err \<Rightarrow>
       (let (stopped, h) = shutdown (se_os se) h;
            left = (case stopped of Inl err \<Rightarrow> Some err | Inr _ \<Rightarrow> None)
        in (Inl (BackendRejected (unconfirmed_detail (se_status se) err @ describe_leak (se_secs se) left)), h)))"

text \<open>
  \<open>start\<close>. The handle, when one was made, is part of the result so that what became of the
  worker can be said; the credential file is dropped when \<open>start\<close> returns, and so is the handle when
  it returns an error.
\<close>

definition backend_start ::
    "start_env \<Rightarrow> string \<Rightarrow> worker_id \<Rightarrow> llama_spec \<Rightarrow> key_store \<Rightarrow>
     (backend_error + running_backend) \<times> worker_handle option \<times> key_store" where
  "backend_start se executable i spec ks =
     (let identity = (case identify executable (se_identify se) of Inl _ \<Rightarrow> None | Inr b \<Rightarrow> Some b)
      in case reserve_channel (se_port se) (se_secret se) of
           Inl err \<Rightarrow> (Inl (ChannelError err), None, ks)
         | Inr ch \<Rightarrow>
             (case secret_file_create (se_keys se)
                     (secret_directory (se_temp se) (ho_euid (ke_host (se_keys se)))) (ch_secret ch) ks of
                (Inl err, ks) \<Rightarrow> (Inl (ChannelError err), None, ks)
              | (Inr key_file, ks) \<Rightarrow>
                  (case spawn (se_spawn se) (backend_worker_spec executable i spec ch key_file) of
                     Inl err \<Rightarrow> (Inl (WorkerFailure err identity []), None, secret_file_drop key_file ks)
                   | Inr h \<Rightarrow>
                       (case wait_ready_with (se_rounds se) (se_elapsed se) (se_os se)
                               (\<lambda>n. backend_probe (se_status se) (se_health se n)) h of
                          (Inl err, h) \<Rightarrow> (Inl (WorkerFailure err identity (log_render (wh_log h))),
                                          Some (worker_drop (se_os se) h), secret_file_drop key_file ks)
                        | (Inr _, h) \<Rightarrow>
                            (let (r, h) = confirm_credential se identity ch h
                             in (r, Some (case r of Inl _ \<Rightarrow> worker_drop (se_os se) h | Inr _ \<Rightarrow> h),
                                 secret_file_drop key_file ks))))))"

definition backend_stop :: "os \<Rightarrow> running_backend \<Rightarrow> (backend_error + unit) \<times> running_backend" where
  "backend_stop e rb = (case shutdown e (rb_handle rb) of
     (Inr _, h) \<Rightarrow> (Inr (), rb\<lparr>rb_handle := h\<rparr>)
   | (Inl err, h) \<Rightarrow> (Inl (WorkerFailure err (rb_identity rb) (log_render (wh_log h))),
                     rb\<lparr>rb_handle := h\<rparr>))"

section \<open>Lemmas\<close>

lemma backend_probe_ready:
  assumes "backend_probe show_status answer = Inr (ProbeReady ready)"
  shows "answer = Some (Inr 200)"
proof (cases answer)
  case None
  with assms show ?thesis by (simp add: backend_probe_def health_probe_def)
next
  case (Some a)
  show ?thesis
  proof (cases a)
    case (Inl err)
    with assms Some show ?thesis by (simp add: backend_probe_def health_probe_def health_request_def)
  next
    case (Inr st)
    with assms Some show ?thesis
      by (auto simp: backend_probe_def health_probe_def health_request_def phase_for_status_def
          split: if_splits)
  qed
qed

lemma shutdown_leak:
  assumes "shutdown e h = (r, h')" and "machine_ok h" and "\<not> gone h'"
  shows "\<exists>err. r = Inl err"
  using shutdown_facts [OF assms(1,2)] assms(3) by (cases r) auto

lemma describe_leak_says:
  "sublist ''may still be running'' (describe_leak secs (Some err))"
proof -
  have "describe_leak secs (Some err) = ''; the worker could not be stopped and '' @
      ''may still be running'' @ '': '' @ show_worker_error secs err"
    by (simp add: describe_leak_def)
  then show ?thesis by (metis sublist_appendI)
qed

lemma sublist_append_right: "sublist xs ys \<Longrightarrow> sublist xs (zs @ ys)"
  by (meson sublist_append)

lemma confirm_credential_facts:
  assumes c: "confirm_credential se identity ch h = (r, h')" and ok: "machine_ok h"
  shows "machine_ok h' \<and> (case r of
      Inr rb \<Rightarrow> h' = h \<and> rb = \<lparr>rb_handle = h, rb_channel = ch, rb_identity = identity,
                rb_readiness = BackendReady\<rparr>
              \<and> (\<exists>s. se_props se = Some (Inr s) \<and> is_success s)
    | Inl (BackendRejected d) \<Rightarrow> gone h' \<or> sublist ''may still be running'' d
    | Inl _ \<Rightarrow> False)"
proof -
  obtain sr sh where sd: "shutdown (se_os se) h = (sr, sh)" by (cases "shutdown (se_os se) h")
  have okh: "machine_ok sh" using shutdown_facts [OF sd ok] by simp
  define left where "left = (case sr of Inl err \<Rightarrow> Some err | Inr _ \<Rightarrow> None)"
  have leak: "gone sh \<or> sublist ''may still be running'' (pre @ describe_leak (se_secs se) left)" for pre
  proof (cases "gone sh")
    case False
    with shutdown_leak [OF sd ok] obtain err where "sr = Inl err" by blast
    then have "left = Some err" by (simp add: left_def)
    then show ?thesis using sublist_append_right [OF describe_leak_says] by metis
  qed blast
  show ?thesis
  proof (cases "probe_credential (se_props se)")
    case (Inl err)
    then have "r = Inl (BackendRejected (unconfirmed_detail (se_status se) err
        @ describe_leak (se_secs se) left))" "h' = sh"
      using c by (simp_all add: confirm_credential_def sd left_def)
    then show ?thesis using okh leak by simp
  next
    case (Inr st)
    show ?thesis
    proof (cases st)
      case Accepted
      with Inr c have "r = Inr \<lparr>rb_handle = h, rb_channel = ch, rb_identity = identity,
          rb_readiness = BackendReady\<rparr>" "h' = h"
        by (auto simp: confirm_credential_def)
      moreover have "\<exists>s. se_props se = Some (Inr s) \<and> is_success s" using Inr Accepted
        by (auto simp: probe_credential_def rbind_eq_Inr split: option.splits if_splits)
      ultimately show ?thesis using ok by simp
    next
      case (CredentialRefused s)
      with Inr have "r = Inl (BackendRejected (refused_detail s @ describe_leak (se_secs se) left))"
        "h' = sh" using c by (simp_all add: confirm_credential_def sd left_def)
      then show ?thesis using okh leak by simp
    qed
  qed
qed

lemma secret_file_create_cases:
  assumes "secret_file_create ke dir secret ks = (r, ks')"
  shows "(case r of Inr path \<Rightarrow> private_to (ho_euid (ke_host ke)) (ks_dir ks')
        \<and> map_of (ks_files ks) path = None
        \<and> ks_files ks' = (path, \<lparr>kf_mode = 384, kf_contents = expose secret\<rparr>) # ks_files ks
      | Inl err \<Rightarrow> ks_files ks' = ks_files ks \<or>
          (\<exists>path n. ke_write ke = Some (n, err) \<and> map_of (ks_files ks) path = None
            \<and> ks_files ks' = (path, \<lparr>kf_mode = 384, kf_contents = take n (expose secret)\<rparr>) # ks_files ks))"
proof -
  have priv: "private_to (ho_euid (ke_host ke)) d"
    if "ensure_credential_directory (ke_host ke) dir look = (Inr u, d)" for look u d
    using that by (auto simp: ensure_credential_directory_def Let_def private_to_def
        FORBIDDEN_DIR_BITS_def split: dir_look.splits option.splits if_splits)
  from assms show ?thesis
    by (auto simp: secret_file_create_def Let_def dest: priv
        split: prod.splits sum.splits option.splits if_splits)
qed

lemma drop_created: "map_of fs path = None \<Longrightarrow> filter (\<lambda>e. fst e \<noteq> path) ((path, f) # fs) = fs"
  by (auto simp: map_of_eq_None_iff intro!: filter_True)

definition sample_start :: start_env where
  "sample_start = \<lparr>
     se_identify = Inl ''none'', se_port = Inr 4000, se_secret = Inr (replicate 32 7),
     se_temp = ''/tmp'',
     se_keys = \<lparr>ke_host = sample_host, ke_random = Inr [1, 2, 3, 4, 5, 6, 7, 8], ke_pid = 9,
                ke_open = None, ke_write = None\<rparr>,
     se_spawn = Inr (), se_rounds = 1, se_elapsed = 0, se_os = obedient,
     se_health = \<lambda>_. Some (Inr 200), se_props = Some (Inr 200),
     se_status = \<lambda>_. [], se_secs = \<lambda>_. []\<rparr>"

definition sample_llama_spec :: llama_spec where
  "sample_llama_spec = \<lparr>sp_model_path = ''m.gguf'',
     sp_descriptor = \<lparr>d_architecture = None, d_context_length = None, d_embedding_length = None,
       d_tokenizer_model = None, d_has_chat_template = False\<rparr>,
     sp_context_size = None, sp_gpu_layers = None, sp_deadlines = default_deadlines\<rparr>"

definition sample_channel :: backend_channel where
  "sample_channel = \<lparr>ch_ip = [127, 0, 0, 1], ch_port = 4000,
     ch_secret = ChannelSecret (hex_encode (replicate 32 7))\<rparr>"

lemma reserve_sample: "reserve_channel (se_port sample_start) (se_secret sample_start) = Inr sample_channel"
  by (simp add: reserve_channel_def generate_secret_def generate_hex_def sample_start_def sample_channel_def)

definition sample_store :: key_store where
  "sample_store = \<lparr>ks_dir = NoDir, ks_files = []\<rparr>"

lemma key_sample: "\<exists>path ks. secret_file_create (se_keys sample_start) dir secret sample_store = (Inr path, ks)"
  by (simp add: secret_file_create_def Let_def ensure_credential_directory_def generate_hex_def
      sample_start_def sample_host_def sample_store_def)

lemma spawn_sample:
  "\<exists>h. spawn (se_spawn sample_start) (backend_worker_spec exe i spec ch key) = Inr h
     \<and> wh_state h = WStarting \<and> wh_child h \<and> wh_process h = Alive"
  by (simp add: spawn_def transition_to_def sample_start_def)

lemma ready_sample:
  assumes "wh_state h = WStarting" and "wh_child h" and "wh_process h = Alive"
  shows "\<exists>ready h'. wait_ready_with (se_rounds sample_start) (se_elapsed sample_start) (se_os sample_start)
     (\<lambda>n. backend_probe (se_status sample_start) (se_health sample_start n)) h = (Inr ready, h')"
  using assms
  by (simp add: wait_ready_with_def sample_start_def obedient_def os_try_wait_def os_look_def
      backend_probe_def health_probe_def health_request_def phase_for_status_def
      set_worker_state_def transition_to_def Let_def numeral_eq_Suc)

lemma confirm_sample:
  "\<exists>rb. confirm_credential sample_start identity ch h = (Inr rb, h)"
  by (simp add: confirm_credential_def probe_credential_def is_success_def sample_start_def)

lemma backend_start_sample:
  "\<exists>rb h ks. backend_start sample_start exe i spec sample_store = (Inr rb, Some h, ks)"
proof -
  let ?dir = "secret_directory (se_temp sample_start) (ho_euid (ke_host (se_keys sample_start)))"
  obtain path ks1 where k: "secret_file_create (se_keys sample_start) ?dir (ch_secret sample_channel) sample_store
      = (Inr path, ks1)" using key_sample by blast
  obtain h where h: "spawn (se_spawn sample_start) (backend_worker_spec exe i spec sample_channel path) = Inr h"
    "wh_state h = WStarting" "wh_child h" "wh_process h = Alive" using spawn_sample by blast
  from ready_sample [OF h(2-4)] obtain ready h1 where
    r: "wait_ready_with (se_rounds sample_start) (se_elapsed sample_start) (se_os sample_start)
     (\<lambda>n. backend_probe (se_status sample_start) (se_health sample_start n)) h = (Inr ready, h1)" by blast
  obtain rb where c: "confirm_credential sample_start
      (case identify exe (se_identify sample_start) of Inl _ \<Rightarrow> None | Inr b \<Rightarrow> Some b) sample_channel h1
      = (Inr rb, h1)" using confirm_sample by blast
  show ?thesis by (simp add: backend_start_def Let_def reserve_sample k h r c)
qed

text \<open>What \<open>start\<close> can return, by the stage that decides it. A worker it drops has ended unless the system
  refuses to have it killed.\<close>

definition refuses_kills :: "os \<Rightarrow> bool" where
  "refuses_kills e \<longleftrightarrow> (\<exists>n. os_kill_error e n \<noteq> None)"

lemma dropped_gone:
  assumes "machine_ok h"
  shows "gone (worker_drop e h) \<or> refuses_kills e"
  using worker_drop_gone [of h e] assms by (auto simp: machine_ok_def refuses_kills_def)

lemma dropped_keeps_gone: "gone h \<Longrightarrow> gone (worker_drop e h)"
  using worker_drop_facts(1) [of h e] by (simp add: same_worker_def)

lemma backend_start_facts:
  assumes "backend_start se exe i spec ks = (r, ho, ks')"
  shows "(case r of
      Inr rb \<Rightarrow> ho = Some (rb_handle rb) \<and> wh_state (rb_handle rb) = Ready
          \<and> rb_readiness rb = BackendReady \<and> channel_is_loopback (rb_channel rb)
          \<and> (\<exists>n. se_health se n = Some (Inr 200)) \<and> (\<exists>s. se_props se = Some (Inr s) \<and> is_success s)
          \<and> supervised (se_os se) (rb_handle rb)
          \<and> ks_files ks' = ks_files ks
    | Inl (BackendRejected d) \<Rightarrow> (\<exists>h. ho = Some h
            \<and> (gone h \<or> sublist ''may still be running'' d \<and> refuses_kills (se_os se)))
          \<and> ks_files ks' = ks_files ks
    | Inl (WorkerFailure err identity out) \<Rightarrow> (\<forall>h. ho = Some h \<longrightarrow> gone h \<or> refuses_kills (se_os se))
          \<and> ks_files ks' = ks_files ks
    | Inl (ChannelError err) \<Rightarrow> ho = None \<and> (ks_files ks' = ks_files ks \<or>
          (\<exists>path n secret. ke_write (se_keys se) = Some (n, err) \<and> map_of (ks_files ks) path = None
            \<and> ks_files ks' = (path, \<lparr>kf_mode = 384, kf_contents = take n secret\<rparr>) # ks_files ks))
    | Inl _ \<Rightarrow> False)"
proof (cases "reserve_channel (se_port se) (se_secret se)")
  case (Inl err)
  with assms show ?thesis by (auto simp: backend_start_def Let_def)
next
  case (Inr ch)
  let ?dir = "secret_directory (se_temp se) (ho_euid (ke_host (se_keys se)))"
  define identity where "identity = (case identify exe (se_identify se) of Inl _ \<Rightarrow> None | Inr b \<Rightarrow> Some b)"
  have loop: "channel_is_loopback ch" using Inr
    by (auto simp: reserve_channel_def rbind_eq_Inr channel_is_loopback_def)
  obtain kr ks1 where k: "secret_file_create (se_keys se) ?dir (ch_secret ch) ks = (kr, ks1)"
    by (cases "secret_file_create (se_keys se) ?dir (ch_secret ch) ks")
  show ?thesis
  proof (cases kr)
    case (Inl err)
    with assms Inr k have "r = Inl (ChannelError err)" "ho = None" "ks' = ks1"
      by (auto simp: backend_start_def Let_def)
    with secret_file_create_cases [OF k] Inl show ?thesis by auto
  next
    case key: (Inr key_file)
    from secret_file_create_cases [OF k] key
    have drop: "ks_files (secret_file_drop key_file ks1) = ks_files ks"
      using drop_created by (auto simp: secret_file_drop_def)
    show ?thesis
    proof (cases "spawn (se_spawn se) (backend_worker_spec exe i spec ch key_file)")
      case (Inl err)
      with assms Inr k key drop show ?thesis by (auto simp: backend_start_def Let_def)
    next
      case sp: (Inr h)
      let ?probe = "\<lambda>n. backend_probe (se_status se) (se_health se n)"
      from supervised.spawn [OF sp] have sup: "supervised (se_os se) h" .
      obtain wr h1 where w: "wait_ready_with (se_rounds se) (se_elapsed se) (se_os se) ?probe h = (wr, h1)"
        by (cases "wait_ready_with (se_rounds se) (se_elapsed se) (se_os se) ?probe h")
      note w1 = wait_ready_with_facts [OF w supervised_ok [OF sup]]
      show ?thesis
      proof (cases wr)
        case (Inl err)
        with assms Inr k key sp w have "ho = Some (worker_drop (se_os se) h1)"
          "\<exists>identity out. r = Inl (WorkerFailure err identity out)" "ks' = secret_file_drop key_file ks1"
          by (auto simp: backend_start_def Let_def)
        with drop dropped_gone [of h1 "se_os se"] w1 show ?thesis by auto
      next
        case wr: (Inr ready)
        with w1 have st: "wh_state h1 = Ready" and "\<exists>n. se_health se n = Some (Inr 200)"
          using backend_probe_ready by blast+
        obtain cr h2 where c: "confirm_credential se identity ch h1 = (cr, h2)"
          by (cases "confirm_credential se identity ch h1")
        have "machine_ok h1" using w1 by blast
        note c1 = confirm_credential_facts [OF c this]
        have "r = cr" "ho = Some (case r of Inl _ \<Rightarrow> worker_drop (se_os se) h2 | Inr _ \<Rightarrow> h2)"
          "ks' = secret_file_drop key_file ks1"
          using assms Inr k key sp w wr c by (auto simp: backend_start_def Let_def identity_def)
        moreover have "supervised (se_os se) h1" using supervised.wait_ready [OF sup w] .
        moreover have "gone (worker_drop (se_os se) h2) \<or> refuses_kills (se_os se)"
          "gone h2 \<Longrightarrow> gone (worker_drop (se_os se) h2)"
          using c1 dropped_gone dropped_keeps_gone by blast+
        ultimately show ?thesis using c1 st loop drop \<open>\<exists>n. se_health se n = Some (Inr 200)\<close>
          by (auto split: sum.splits backend_error.splits)
      qed
    qed
  qed
qed

section \<open>Properties\<close>





end
