(* ===== verification/Capability.thy ===== *)
theory Capability
  imports BTree Backend
begin

text \<open>
  What a model can do and how strongly that is known (\<open>mehoy-runtime/src/capability.rs\<close>), and
  live instances (\<open>instance.rs\<close>). The evidence map is a \<open>BTreeMap\<close> keyed by capability, whose
  derived order is the order of its constructors. An \<open>Instant\<close> is a number.
\<close>

datatype model_capability = TextGeneration | Embeddings | Vision | ToolCalling | StructuredOutput

fun capability_as_str :: "model_capability \<Rightarrow> string" where
  "capability_as_str TextGeneration = ''text-generation''"
| "capability_as_str Embeddings = ''embeddings''"
| "capability_as_str Vision = ''vision''"
| "capability_as_str ToolCalling = ''tool-calling''"
| "capability_as_str StructuredOutput = ''structured-output''"

fun capability_rank :: "model_capability \<Rightarrow> nat" where
  "capability_rank TextGeneration = 0"
| "capability_rank Embeddings = 1"
| "capability_rank Vision = 2"
| "capability_rank ToolCalling = 3"
| "capability_rank StructuredOutput = 4"

lemma capability_rank_inject: "capability_rank a = capability_rank b \<longleftrightarrow> a = b"
  by (cases a; cases b) simp_all

instantiation model_capability :: linorder
begin

definition less_eq_model_capability :: "model_capability \<Rightarrow> model_capability \<Rightarrow> bool" where
  "less_eq_model_capability a b \<longleftrightarrow> capability_rank a \<le> capability_rank b"

definition less_model_capability :: "model_capability \<Rightarrow> model_capability \<Rightarrow> bool" where
  "less_model_capability a b \<longleftrightarrow> capability_rank a < capability_rank b"

instance
  by standard (auto simp: less_eq_model_capability_def less_model_capability_def capability_rank_inject)

end

datatype capability_evidence = Metadata | BackendSupported

fun show_evidence :: "capability_evidence \<Rightarrow> string" where
  "show_evidence Metadata = ''suggested by the artifact metadata''"
| "show_evidence BackendSupported = ''reported by the backend''"

datatype capability_state =
  CapUnknown
| Indicated capability_evidence
| CapVerified nat "backend_identity option"

fun state_is_verified :: "capability_state \<Rightarrow> bool" where
  "state_is_verified (CapVerified _ _) = True"
| "state_is_verified _ = False"

fun show_capability_state :: "capability_state \<Rightarrow> string" where
  "show_capability_state CapUnknown = ''unknown''"
| "show_capability_state (Indicated ev) = ''indicated ('' @ show_evidence ev @ '')''"
| "show_capability_state (CapVerified _ None) = ''verified''"
| "show_capability_state (CapVerified _ (Some b)) = ''verified on '' @ show_identity b"

type_synonym model_capabilities = "(model_capability \<times> capability_state) list"

definition indicate ::
    "model_capability \<Rightarrow> capability_evidence \<Rightarrow> model_capabilities \<Rightarrow> model_capabilities" where
  "indicate c e m =
     (let current = (case map_of m c of None \<Rightarrow> CapUnknown | Some s \<Rightarrow> s)
      in bt_insert c (if state_is_verified current then current else Indicated e) m)"

definition verify_capability ::
    "model_capability \<Rightarrow> nat \<Rightarrow> backend_identity option \<Rightarrow> model_capabilities \<Rightarrow> model_capabilities" where
  "verify_capability c now backend m = bt_insert c (CapVerified now backend) m"

definition capability_state_of :: "model_capabilities \<Rightarrow> model_capability \<Rightarrow> capability_state" where
  "capability_state_of m c = (case map_of m c of None \<Rightarrow> CapUnknown | Some s \<Rightarrow> s)"

definition capability_is_verified :: "model_capabilities \<Rightarrow> model_capability \<Rightarrow> bool" where
  "capability_is_verified m c = state_is_verified (capability_state_of m c)"

definition indicated_by_metadata ::
    "string option \<Rightarrow> u64 option \<Rightarrow> bool \<Rightarrow> model_capabilities" where
  "indicated_by_metadata arch embedding_len template =
     (let m = (if template then indicate TextGeneration Metadata [] else [])
      in case arch of
           None \<Rightarrow> m
         | Some a \<Rightarrow> if str_contains a ''bert'' \<and> embedding_len \<noteq> None
                     then indicate Embeddings Metadata m else m)"

section \<open>Instances\<close>

type_synonym instance_id = string

definition instance_id_generate :: "string + u8 list \<Rightarrow> string + instance_id" where
  "instance_id_generate drawn = generate_hex drawn"

datatype instance_state = IStarting | IBackendReady | IFailed string

fun instance_is_usable :: "instance_state \<Rightarrow> bool" where
  "instance_is_usable IBackendReady = True"
| "instance_is_usable _ = False"

fun instance_is_terminal :: "instance_state \<Rightarrow> bool" where
  "instance_is_terminal (IFailed _) = True"
| "instance_is_terminal _ = False"

fun instance_can_transition_to :: "instance_state \<Rightarrow> instance_state \<Rightarrow> bool" where
  "instance_can_transition_to IStarting IBackendReady = True"
| "instance_can_transition_to IStarting (IFailed _) = True"
| "instance_can_transition_to IBackendReady (IFailed _) = True"
| "instance_can_transition_to _ _ = False"

fun show_instance_state :: "instance_state \<Rightarrow> string" where
  "show_instance_state IStarting = ''starting''"
| "show_instance_state IBackendReady = ''backend ready''"
| "show_instance_state (IFailed reason) = ''failed: '' @ reason"

record model_instance =
  mi_id :: instance_id
  mi_artifact :: string
  mi_backend :: "backend_identity option"
  mi_state :: instance_state
  mi_capabilities :: model_capabilities

definition new_instance ::
    "instance_id \<Rightarrow> string \<Rightarrow> backend_identity option \<Rightarrow> model_capabilities \<Rightarrow> model_instance" where
  "new_instance i artifact backend caps = \<lparr>mi_id = i, mi_artifact = artifact, mi_backend = backend,
     mi_state = IBackendReady, mi_capabilities = caps\<rparr>"

definition instance_verify ::
    "model_capability \<Rightarrow> nat \<Rightarrow> backend_identity option \<Rightarrow> model_instance \<Rightarrow> model_instance" where
  "instance_verify c now backend mi =
     mi\<lparr>mi_capabilities := verify_capability c now backend (mi_capabilities mi)\<rparr>"

section \<open>Lemmas\<close>

lemma bt_inv_indicate: "bt_inv m \<Longrightarrow> bt_inv (indicate c e m)"
  by (simp add: indicate_def Let_def bt.inv_insert)

lemma bt_inv_verify: "bt_inv m \<Longrightarrow> bt_inv (verify_capability c now b m)"
  by (simp add: verify_capability_def bt.inv_insert)

lemma state_of_indicate:
  "bt_inv m \<Longrightarrow> capability_state_of (indicate c e m) c' =
    (if c' = c then (if capability_is_verified m c then capability_state_of m c else Indicated e)
     else capability_state_of m c')"
  by (auto simp: indicate_def Let_def capability_state_of_def capability_is_verified_def bt.get_insert)

lemma state_of_verify:
  "bt_inv m \<Longrightarrow> capability_state_of (verify_capability c now b m) c' =
    (if c' = c then CapVerified now b else capability_state_of m c')"
  by (auto simp: verify_capability_def capability_state_of_def bt.get_insert)

lemma indicated_by_metadata_facts:
  "bt_inv (indicated_by_metadata a e t) \<and> \<not> capability_is_verified (indicated_by_metadata a e t) c"
proof -
  have empty: "bt_inv ([] :: model_capabilities)" "\<not> capability_is_verified [] c" for c
    using bt.inv_empty by (simp_all add: capability_is_verified_def capability_state_of_def)
  have keep: "bt_inv (indicate c' ev m) \<and> \<not> capability_is_verified (indicate c' ev m) c"
    if "bt_inv m" "\<And>c. \<not> capability_is_verified m c" for m c' ev c
    using that by (simp add: bt_inv_indicate capability_is_verified_def state_of_indicate)
  show ?thesis
    by (auto simp: indicated_by_metadata_def Let_def empty keep split: option.splits)
qed

text \<open>Everything that can happen to the evidence of one model.\<close>

datatype capability_op =
  Indicate model_capability capability_evidence
| Verify model_capability nat "backend_identity option"

fun apply_capability_op :: "capability_op \<Rightarrow> model_capabilities \<Rightarrow> model_capabilities" where
  "apply_capability_op (Indicate c e) m = indicate c e m"
| "apply_capability_op (Verify c now b) m = verify_capability c now b m"

lemma run_capability_ops:
  "bt_inv m \<Longrightarrow> bt_inv (fold apply_capability_op ops m) \<and>
   (capability_is_verified (fold apply_capability_op ops m) c \<longleftrightarrow>
      capability_is_verified m c \<or> (\<exists>now b. Verify c now b \<in> set ops))"
proof (induction ops arbitrary: m)
  case (Cons op ops)
  show ?case
  proof (cases op)
    case (Indicate c' e)
    then have "capability_is_verified (apply_capability_op op m) c = capability_is_verified m c"
      using Cons.prems by (simp add: capability_is_verified_def state_of_indicate)
    with Cons Indicate show ?thesis by (simp add: bt_inv_indicate)
  next
    case (Verify c' now b)
    then have "capability_is_verified (apply_capability_op op m) c \<longleftrightarrow> c = c' \<or> capability_is_verified m c"
      using Cons.prems by (simp add: capability_is_verified_def state_of_verify)
    with Cons Verify show ?thesis by (auto simp: bt_inv_verify)
  qed
qed simp

section \<open>Properties\<close>

text \<open>only a demonstration verifies. Starting from what an artifact's metadata suggests and
  after any sequence of later indications and demonstrations, a capability counts as verified
  exactly when it has been demonstrated at least once; no metadata and no later assertion can
  verify one or take a demonstration back.\<close>

theorem only_demonstration_verifies:
  "capability_is_verified (fold apply_capability_op ops (indicated_by_metadata a e t)) c \<longleftrightarrow>
     (\<exists>now b. Verify c now b \<in> set ops)"
  using run_capability_ops [of "indicated_by_metadata a e t" ops c] indicated_by_metadata_facts [of a e t c]
  by simp

end
