(* ===== verification/Lifecycle.thy ===== *)
theory Lifecycle
  imports Capability Stream Store
begin

text \<open>
  Turning a registered artifact into a live instance and serving requests on it
  (\<open>mehoy-runtime/src/loader.rs\<close>).

  \<open>loaded_model\<close> is a \<open>LoadedModel\<close>: its instance, its backend channel, the lifecycle that its
  lock guards (phase, active requests, worker) and the request handles. Handles are shared with
  the tasks that execute the requests, so they live in the store \<open>lm_handles\<close>, by request
  identifier, and \<open>lm_active\<close> holds the identifiers of the entries of the \<open>active\<close> map. A call
  that waits for the backend is given what the backend answers and a function \<open>during\<close> that says
  what others did to the model in the meantime: \<open>during 0\<close> while the backend worked, \<open>during 1\<close> after the
  last look at the token.
\<close>

section \<open>Errors\<close>

datatype load_error =
  LUnknownArtifact artifact_id
| ArtifactMissing artifact_id string
| ArtifactChanged artifact_id string
| Incompatible string
| LBackend backend_error
| LRegistry registry_error
| InstanceError string
| NotUsable string
| Stopped cancellation_cause
| InvalidRequest string
| Inference string
| UnusableResult string

fun show_load_error :: "(duration \<Rightarrow> string) \<Rightarrow> (string \<Rightarrow> string) \<Rightarrow> load_error \<Rightarrow> string" where
  "show_load_error secs dbg (LUnknownArtifact i) = ''no artifact registered with id '' @ i"
| "show_load_error secs dbg (ArtifactMissing i p) =
     ''artifact '' @ i @ '' is registered but '' @ p @ '' no longer exists''"
| "show_load_error secs dbg (ArtifactChanged i reason) =
     ''artifact '' @ i @ '' has changed since it was registered ('' @ reason
     @ ''); re-register it rather than loading something that was never inspected''"
| "show_load_error secs dbg (Incompatible reason) = ''the backend cannot run this artifact: '' @ reason"
| "show_load_error secs dbg (LBackend err) = show_backend_error secs err"
| "show_load_error secs dbg (LRegistry err) = show_registry_error dbg err"
| "show_load_error secs dbg (InstanceError reason) =
     ''the backend started but the instance could not be created: '' @ reason"
| "show_load_error secs dbg (NotUsable st) = ''the instance cannot serve requests while it is '' @ st"
| "show_load_error secs dbg (InvalidRequest detail) = ''the request cannot be honoured: '' @ detail"
| "show_load_error secs dbg (Stopped cause) = ''the request was stopped: '' @ show_cause cause"
| "show_load_error secs dbg (Inference detail) = detail"
| "show_load_error secs dbg (UnusableResult detail) =
     ''the backend returned a result that cannot be used: '' @ detail"

datatype cancel_outcome =
  CancelRequested | AlreadyStopping cancellation_cause | AlreadyFinished request_state

fun show_cancel_outcome :: "cancel_outcome \<Rightarrow> string" where
  "show_cancel_outcome CancelRequested = ''the request has been asked to stop''"
| "show_cancel_outcome (AlreadyStopping cause) =
     ''the request was already stopping ('' @ show_cause cause @ '')''"
| "show_cancel_outcome (AlreadyFinished st) = ''the request had already '' @ show_request_state st"

datatype cancel_error = UnknownRequest request_id

fun show_cancel_error :: "cancel_error \<Rightarrow> string" where
  "show_cancel_error (UnknownRequest i) =
     ''no request '' @ show_request_id i @ '' is running on this instance''"

section \<open>Loaded models\<close>

datatype lifecycle_phase = Serving | Unloading | Unloaded | UnloadFailed

fun show_phase :: "lifecycle_phase \<Rightarrow> string" where
  "show_phase Serving = ''serving''"
| "show_phase Unloading = ''unloading''"
| "show_phase Unloaded = ''unloaded''"
| "show_phase UnloadFailed = ''failed to unload''"

datatype unload_outcome =
  Drained nat | Escalated nat nat | AlreadyUnloading | AlreadyUnloaded | AlreadyFailed

fun show_unload_outcome :: "unload_outcome \<Rightarrow> string" where
  "show_unload_outcome (Drained n) = ''unloaded after '' @ show_nat n @ '' request(s) settled''"
| "show_unload_outcome (Escalated n k) =
     ''unloaded with '' @ show_nat k @ '' of '' @ show_nat n @ '' request(s) still unsettled''"
| "show_unload_outcome AlreadyUnloading = ''an unload was already in progress''"
| "show_unload_outcome AlreadyUnloaded = ''the instance was already unloaded''"
| "show_unload_outcome AlreadyFailed = ''an earlier teardown failed and cannot be retried; ''
     @ ''the worker it could not stop is unaccounted for''"

record loaded_model =
  lm_instance :: model_instance
  lm_channel :: backend_channel
  lm_identity :: "backend_identity option"
  lm_requests :: id_allocator
  lm_phase :: lifecycle_phase
  lm_active :: "request_id list"
  lm_worker :: "running_backend option"
  lm_handles :: "request_id \<Rightarrow> request_handle"

definition live :: "loaded_model \<Rightarrow> request_id \<Rightarrow> bool" where
  "live m i \<longleftrightarrow> \<not> handle_is_terminal (lm_handles m i)"

text \<open>\<open>active.retain(|_, handle| !handle.is_terminal())\<close>.\<close>

definition retain_live :: "loaded_model \<Rightarrow> loaded_model" where
  "retain_live m = m\<lparr>lm_active := filter (live m) (lm_active m)\<rparr>"

definition on_handle ::
    "request_id \<Rightarrow> (request_handle \<Rightarrow> 'a \<times> request_handle) \<Rightarrow> loaded_model \<Rightarrow> 'a \<times> loaded_model" where
  "on_handle i f m = (let (r, h) = f (lm_handles m i) in (r, m\<lparr>lm_handles := (lm_handles m)(i := h)\<rparr>))"

definition admit :: "loaded_model \<Rightarrow> load_error + (request_id \<times> loaded_model)" where
  "admit m =
     (if lm_phase m \<noteq> Serving then Inl (NotUsable (show_phase (lm_phase m)))
      else if \<not> instance_is_usable (mi_state (lm_instance m))
      then Inl (NotUsable (show_instance_state (mi_state (lm_instance m))))
      else
        let m = retain_live m;
            (i, alloc) = allocate_request (lm_requests m)
        in Inr (i, m\<lparr>lm_requests := alloc,
                      lm_active := i # filter (\<lambda>j. j \<noteq> i) (lm_active m),
                      lm_handles := (lm_handles m)(i := new_handle i)\<rparr>))"

text \<open>The part of \<open>embed\<close> after admission: \<open>sent\<close> is what the backend answered, and \<open>judge\<close>
  checks it. The token is polled first, so a request that has been stopped stays stopped; \<open>gap\<close> is what
  others do between that poll and the end of the request, when the token is not looked at again.\<close>

definition settle ::
    "(loaded_model \<Rightarrow> loaded_model) \<Rightarrow> request_id \<Rightarrow> string + 'r \<Rightarrow> ('r \<Rightarrow> string option) \<Rightarrow> loaded_model \<Rightarrow>
     (load_error + 'r) \<times> loaded_model" where
  "settle gap i sent judge m = (case h_token (lm_handles m i) of
     Some cause \<Rightarrow> (Inl (Stopped cause), snd (on_handle i (finish Cancelled) (gap m)))
   | None \<Rightarrow> (case sent of
       Inl detail \<Rightarrow> (Inl (Inference detail), snd (on_handle i (finish Failed) (gap m)))
     | Inr result \<Rightarrow> (case judge result of
         Some defect \<Rightarrow> (Inl (UnusableResult defect), snd (on_handle i (finish Failed) (gap m)))
       | None \<Rightarrow> (Inr result, snd (on_handle i (finish Completed) (gap m))))))"

definition defect_of :: "('e \<Rightarrow> string) \<Rightarrow> 'e + unit \<Rightarrow> string option" where
  "defect_of show_it r = (case r of Inl e \<Rightarrow> Some (show_it e) | Inr _ \<Rightarrow> None)"

text \<open>
  The part before the await: admission and \<open>mark_running\<close>. A caller may drop the future there, by a
  timeout or a \<open>select!\<close>; the handle has no destructor, so this is then all that has happened.
\<close>

definition start_request :: "loaded_model \<Rightarrow> load_error + (request_id \<times> loaded_model)" where
  "start_request m =
     rbind (admit m) (\<lambda>(i, m). Inr (i, snd (on_handle i (\<lambda>h. ((), mark_running h)) m)))"

definition embed ::
    "(nat \<Rightarrow> loaded_model \<Rightarrow> loaded_model) \<Rightarrow> string + embedding_result \<Rightarrow> embed_request \<Rightarrow> loaded_model \<Rightarrow>
     (load_error + embedding_result) \<times> loaded_model" where
  "embed during sent request m = (case start_request m of
     Inl err \<Rightarrow> (Inl err, m)
   | Inr (i, m) \<Rightarrow>
       settle (during 1) i sent (\<lambda>r. defect_of show_result_defect (validate request r)) (during 0 m))"

definition demonstrate :: "nat \<Rightarrow> model_capability \<Rightarrow> loaded_model \<Rightarrow> loaded_model" where
  "demonstrate now c m = m\<lparr>lm_instance := instance_verify c now (lm_identity m) (lm_instance m)\<rparr>"

definition verify_embeddings ::
    "nat \<Rightarrow> (nat \<Rightarrow> loaded_model \<Rightarrow> loaded_model) \<Rightarrow> string + embedding_result \<Rightarrow> embed_request \<Rightarrow>
     loaded_model \<Rightarrow> (load_error + embedding_result) \<times> loaded_model" where
  "verify_embeddings now during sent request m = (case embed during sent request m of
     (Inl err, m) \<Rightarrow> (Inl err, m)
   | (Inr r, m) \<Rightarrow> (Inr r, demonstrate now Embeddings m))"

definition checked_parameters ::
    "(u32 \<Rightarrow> string) \<Rightarrow> generate_text_request \<Rightarrow> load_error + unit" where
  "checked_parameters show_f32 request = map_err (\<lambda>e. InvalidRequest (show_invalid_parameter e))
     (validate_parameters show_f32 (gt_parameters request))"

definition generate_text ::
    "(u32 \<Rightarrow> string) \<Rightarrow> (nat \<Rightarrow> loaded_model \<Rightarrow> loaded_model) \<Rightarrow> string + generation_result \<Rightarrow>
     generate_text_request \<Rightarrow> loaded_model \<Rightarrow> (load_error + generation_result) \<times> loaded_model" where
  "generate_text show_f32 during sent request m = (case checked_parameters show_f32 request of
     Inl err \<Rightarrow> (Inl err, m)
   | Inr _ \<Rightarrow> (case start_request m of
       Inl err \<Rightarrow> (Inl err, m)
     | Inr (i, m) \<Rightarrow>
         settle (during 1) i sent (\<lambda>r. defect_of show_generation_defect (validate_generation r)) (during 0 m)))"

definition verify_text_generation ::
    "nat \<Rightarrow> (u32 \<Rightarrow> string) \<Rightarrow> (nat \<Rightarrow> loaded_model \<Rightarrow> loaded_model) \<Rightarrow> string + generation_result \<Rightarrow>
     generate_text_request \<Rightarrow> loaded_model \<Rightarrow> (load_error + generation_result) \<times> loaded_model" where
  "verify_text_generation now show_f32 during sent request m =
     (case generate_text show_f32 during sent request m of
        (Inl err, m) \<Rightarrow> (Inl err, m)
      | (Inr r, m) \<Rightarrow> (Inr r, demonstrate now TextGeneration m))"

text \<open>The stream's handle is the entry of the store; \<open>generation_stream\<close> starts from it.\<close>

definition generate_stream_within ::
    "(u32 \<Rightarrow> string) \<Rightarrow> generate_text_request \<Rightarrow> loaded_model \<Rightarrow>
     load_error + (request_id \<times> generation \<times> loaded_model)" where
  "generate_stream_within show_f32 request m =
     rbind (checked_parameters show_f32 request) (\<lambda>_.
     rbind (admit m) (\<lambda>(i, m). Inr (i, generation_stream (lm_handles m i), m)))"

definition record_generation_stream :: "nat \<Rightarrow> generation \<Rightarrow> loaded_model \<Rightarrow> bool \<times> loaded_model" where
  "record_generation_stream now g m =
     (if \<not> demonstrated_generation g then (False, m) else (True, demonstrate now TextGeneration m))"

text \<open>
  \<open>cancel\<close> looks the handle up under the lock and works on it afterwards; \<open>between k\<close> is what
  others did in the meantime: after the look-up, before the claim, and after a claim that failed.
\<close>

definition cancel ::
    "(nat \<Rightarrow> loaded_model \<Rightarrow> loaded_model) \<Rightarrow> request_id \<Rightarrow> loaded_model \<Rightarrow>
     (cancel_error + cancel_outcome) \<times> loaded_model" where
  "cancel between i m =
     (let m = retain_live m
      in if i \<notin> set (lm_active m) then (Inl (UnknownRequest i), m)
         else
           let m = between 0 m
           in if \<not> live m i then (Inr (AlreadyFinished (h_state (lm_handles m i))), m)
              else
                let (claimed, m) = on_handle i (request_cancellation User) (between 1 m)
                in if claimed then (Inr CancelRequested, m)
                   else
                     let m = between 2 m
                     in if \<not> live m i then (Inr (AlreadyFinished (h_state (lm_handles m i))), m)
                        else (Inr (AlreadyStopping (case h_token (lm_handles m i) of
                                Some cause \<Rightarrow> cause | None \<Rightarrow> User)), m))"

definition active_requests :: "loaded_model \<Rightarrow> nat \<times> loaded_model" where
  "active_requests m = (let m = retain_live m in (length (lm_active m), m))"

definition request_state_of :: "loaded_model \<Rightarrow> request_id \<Rightarrow> request_state option" where
  "request_state_of m i = (if i \<in> set (lm_active m) then Some (h_state (lm_handles m i)) else None)"

section \<open>Unloading\<close>

definition finish_unload :: "lifecycle_phase \<Rightarrow> loaded_model \<Rightarrow> loaded_model" where
  "finish_unload phase m = m\<lparr>lm_phase := phase, lm_active := []\<rparr>"

text \<open>Phase one, under the lock: the outcome when there is nothing to do, or the worker and the
  outstanding requests.\<close>

definition unload_begin ::
    "loaded_model \<Rightarrow> (unload_outcome + (running_backend option \<times> request_id list)) \<times> loaded_model" where
  "unload_begin m = (case lm_phase m of
     Unloading \<Rightarrow> (Inl AlreadyUnloading, m)
   | Unloaded \<Rightarrow> (Inl AlreadyUnloaded, m)
   | UnloadFailed \<Rightarrow> (Inl AlreadyFailed, m)
   | Serving \<Rightarrow> (Inr (lm_worker m, filter (live m) (lm_active m)),
                 m\<lparr>lm_phase := Unloading, lm_worker := None\<rparr>))"

fun cancel_all :: "request_id list \<Rightarrow> loaded_model \<Rightarrow> loaded_model" where
  "cancel_all [] m = m"
| "cancel_all (i # is) m =
     cancel_all is (snd (on_handle i (request_cancellation InstanceUnloading) m))"

definition unsettled :: "request_id list \<Rightarrow> loaded_model \<Rightarrow> nat" where
  "unsettled is m = length (filter (live m) is)"

text \<open>\<open>drain\<close>: \<open>rounds\<close> sleeps fit into the budget; \<open>others n\<close> is what happens in the \<open>n\<close>-th.\<close>

fun drain_requests ::
    "nat \<Rightarrow> (nat \<Rightarrow> loaded_model \<Rightarrow> loaded_model) \<Rightarrow> nat \<Rightarrow> request_id list \<Rightarrow> loaded_model \<Rightarrow>
     nat \<times> loaded_model" where
  "drain_requests 0 others n is m = (unsettled is m, m)"
| "drain_requests (Suc rounds) others n is m =
     (if unsettled is m = 0 then (0, m)
      else drain_requests rounds others (n + 1) is (others n m))"

record unload_env =
  ue_rounds :: nat
  ue_others :: "nat \<Rightarrow> loaded_model \<Rightarrow> loaded_model"
  ue_stopping :: "loaded_model \<Rightarrow> loaded_model"
  ue_os :: os

text \<open>The third component is what became of the backend this call took.\<close>

definition unload_within ::
    "unload_env \<Rightarrow> loaded_model \<Rightarrow>
     (load_error + unload_outcome) \<times> loaded_model \<times> running_backend option" where
  "unload_within ue m = (case unload_begin m of
     (Inl outcome, m) \<Rightarrow> (Inr outcome, m, None)
   | (Inr (None, _), m) \<Rightarrow> (Inr AlreadyFailed, finish_unload UnloadFailed m, None)
   | (Inr (Some worker, outstanding), m) \<Rightarrow>
       (let cancelled = length outstanding;
            m = cancel_all outstanding m;
            (left, m) = drain_requests (ue_rounds ue) (ue_others ue) 0 outstanding m;
            (stopped, worker) = backend_stop (ue_os ue) worker;
            m = ue_stopping ue m;
            m = finish_unload (case stopped of Inr _ \<Rightarrow> Unloaded | Inl _ \<Rightarrow> UnloadFailed) m
        in (case stopped of
              Inl err \<Rightarrow> Inl (LBackend err)
            | Inr _ \<Rightarrow> Inr (if left = 0 then Drained cancelled else Escalated cancelled left),
            m, Some worker)))"

section \<open>Loading\<close>

definition describe :: "model_artifact \<Rightarrow> model_descriptor" where
  "describe a = \<lparr>
     d_architecture = am_architecture (a_meta a),
     d_context_length = context_length (a_meta a),
     d_embedding_length = embedding_length (a_meta a),
     d_tokenizer_model = tokenizer_model (a_meta a),
     d_has_chat_template = has_chat_template (a_meta a)\<rparr>"

definition resolve :: "file_system \<Rightarrow> database \<Rightarrow> artifact_id \<Rightarrow> load_error + model_artifact" where
  "resolve fs db i =
     rbind (map_err LRegistry (get_artifact db i)) (\<lambda>found.
     rbind (ok_or found (LUnknownArtifact i)) (\<lambda>a.
       case detect_drift fs a of
         Unchanged \<Rightarrow> Inr a
       | Missing \<Rightarrow> Inl (ArtifactMissing i (a_path a))
       | Changed reason \<Rightarrow> Inl (ArtifactChanged i reason)))"

definition commit ::
    "string option \<Rightarrow> string + u8 list \<Rightarrow> model_artifact \<Rightarrow> running_backend \<Rightarrow>
     (string \<times> running_backend) + loaded_model" where
  "commit fault drawn a backend = (case fault of
     Some reason \<Rightarrow> Inl (reason, backend)
   | None \<Rightarrow> (case instance_id_generate drawn of
       Inl err \<Rightarrow> Inl (err, backend)
     | Inr i \<Rightarrow> Inr \<lparr>
         lm_instance = new_instance i (a_id a) (rb_identity backend)
           (indicated_by_metadata (am_architecture (a_meta a)) (embedding_length (a_meta a))
              (has_chat_template (a_meta a))),
         lm_channel = rb_channel backend,
         lm_identity = rb_identity backend,
         lm_requests = new_allocator,
         lm_phase = Serving,
         lm_active = [],
         lm_worker = Some backend,
         lm_handles = new_handle\<rparr>))"

definition also_running :: "string \<Rightarrow> string \<Rightarrow> string" where
  "also_running reason err = reason @ ''; the backend could not be stopped afterwards and ''
     @ ''may still be running'' @ '': '' @ err"

record load_env =
  lo_start :: start_env
  lo_fault :: "string option"
  lo_random :: "string + u8 list"
  lo_files :: file_system

definition load ::
    "load_env \<Rightarrow> string \<Rightarrow> database \<Rightarrow> artifact_id \<Rightarrow> worker_id \<Rightarrow> worker_deadlines \<Rightarrow> key_store \<Rightarrow>
     (load_error + loaded_model) \<times> worker_handle option \<times> key_store" where
  "load lo exe db i w deadlines ks = (case resolve (lo_files lo) db i of
     Inl err \<Rightarrow> (Inl err, None, ks)
   | Inr a \<Rightarrow>
       (let descriptor = describe a; compat = assess descriptor
        in if \<not> permits_start compat then (Inl (Incompatible (show_compatibility compat)), None, ks)
           else
             (case backend_start (lo_start lo) exe w
                     \<lparr>sp_model_path = a_path a, sp_descriptor = descriptor, sp_context_size = None,
                      sp_gpu_layers = None, sp_deadlines = deadlines\<rparr> ks of
                (Inl err, h, ks) \<Rightarrow> (Inl (LBackend err), h, ks)
              | (Inr backend, h, ks) \<Rightarrow>
                  (case commit (lo_fault lo) (lo_random lo) a backend of
                     Inr m \<Rightarrow> (Inr m, h, ks)
                   | Inl (reason, backend) \<Rightarrow>
                       (let (stopped, backend) = backend_stop (se_os (lo_start lo)) backend
                        in (Inl (InstanceError (case stopped of
                              Inr _ \<Rightarrow> reason
                            | Inl err \<Rightarrow> also_running reason (show_backend_error (se_secs (lo_start lo)) err))),
                            Some (worker_drop (se_os (lo_start lo)) (rb_handle backend)), ks))))))"

section \<open>Lemmas\<close>

lemma on_handle_fields [simp]:
  "lm_phase (snd (on_handle i f m)) = lm_phase m"
  "lm_active (snd (on_handle i f m)) = lm_active m"
  "lm_worker (snd (on_handle i f m)) = lm_worker m"
  "lm_instance (snd (on_handle i f m)) = lm_instance m"
  "lm_requests (snd (on_handle i f m)) = lm_requests m"
  "lm_handles (snd (on_handle i f m)) = (lm_handles m)(i := snd (f (lm_handles m i)))"
  by (auto simp: on_handle_def split: prod.splits)

lemma on_handle_result [simp]: "fst (on_handle i f m) = fst (f (lm_handles m i))"
  by (auto simp: on_handle_def split: prod.splits)

lemma retain_live_fields [simp]:
  "lm_phase (retain_live m) = lm_phase m" "lm_worker (retain_live m) = lm_worker m"
  "lm_instance (retain_live m) = lm_instance m" "lm_requests (retain_live m) = lm_requests m"
  "lm_handles (retain_live m) = lm_handles m" "live (retain_live m) = live m"
  "set (lm_active (retain_live m)) = {i \<in> set (lm_active m). live m i}"
  by (auto simp: retain_live_def live_def fun_eq_iff)

text \<open>What others may do to a model while one call works on it: everything but unloading.\<close>

inductive others_step :: "loaded_model \<Rightarrow> loaded_model \<Rightarrow> bool" where
  admit: "admit m = Inr (i, m') \<Longrightarrow> others_step m m'"
| handle: "legal_op op \<Longrightarrow> others_step m (snd (on_handle i (handle_step op) m))"
| retain: "others_step m (retain_live m)"
| demonstrate: "others_step m (demonstrate now c m)"

definition others :: "loaded_model \<Rightarrow> loaded_model \<Rightarrow> bool" where
  "others = others_step\<^sup>*\<^sup>*"

text \<open>The life of one model: the calls of its clients, and an unload as its locked parts.\<close>

inductive life_step :: "loaded_model \<Rightarrow> loaded_model \<Rightarrow> bool" where
  others: "others_step m m' \<Longrightarrow> life_step m m'"
| unload_begin: "unload_begin m = (r, m') \<Longrightarrow> life_step m m'"
| finish_unload: "lm_phase m = Unloading \<Longrightarrow> phase \<in> {Unloaded, UnloadFailed} \<Longrightarrow>
    life_step m (finish_unload phase m)"

lemma admit_Inr:
  assumes "admit m = Inr (i, m')"
  shows "lm_phase m = Serving \<and> lm_phase m' = Serving \<and> i \<in> set (lm_active m')
    \<and> lm_handles m' i = new_handle i \<and> lm_worker m' = lm_worker m \<and> lm_instance m' = lm_instance m
    \<and> (\<forall>j. j \<noteq> i \<longrightarrow> lm_handles m' j = lm_handles m j)
    \<and> set (lm_active m') = insert i {j \<in> set (lm_active m). live m j}"
  using assms by (auto simp: admit_def Let_def split: if_splits prod.splits)

lemma admit_not_serving: "lm_phase m \<noteq> Serving \<Longrightarrow> admit m = Inl (NotUsable (show_phase (lm_phase m)))"
  by (simp add: admit_def)

text \<open>Once admission has closed, others can only make the requests progress.\<close>

definition closed_progress :: "loaded_model \<Rightarrow> loaded_model \<Rightarrow> bool" where
  "closed_progress m m' \<longleftrightarrow> lm_phase m' = lm_phase m \<and> lm_worker m' = lm_worker m
     \<and> set (lm_active m') \<subseteq> set (lm_active m)
     \<and> (\<forall>i. progress (h_state (lm_handles m i)) \<le> progress (h_state (lm_handles m' i))
           \<and> (\<forall>c. h_token (lm_handles m i) = Some c \<longrightarrow> h_token (lm_handles m' i) = Some c))"

lemma closed_progress_refl [simp]: "closed_progress m m"
  by (simp add: closed_progress_def)

lemma closed_progress_trans:
  "closed_progress m m1 \<Longrightarrow> closed_progress m1 m2 \<Longrightarrow> closed_progress m m2"
  unfolding closed_progress_def by (metis order_trans subset_trans)

lemma handle_step_token:
  "handle_step op h = (b, h') \<Longrightarrow> h_token h = Some c \<Longrightarrow> h_token h' = Some c"
  by (cases op) (auto simp: handle_op_defs Let_def split: if_splits option.splits)

lemma on_handle_progress:
  assumes "legal_op op"
  shows "closed_progress m (snd (on_handle i (handle_step op) m))"
proof -
  obtain b h' where s: "handle_step op (lm_handles m i) = (b, h')" by (cases "handle_step op (lm_handles m i)")
  from handle_step_progress [OF assms s] handle_step_token [OF s]
  show ?thesis by (simp add: closed_progress_def s)
qed

lemma others_step_closed:
  assumes "others_step m m'" and "lm_phase m \<noteq> Serving"
  shows "closed_progress m m'"
  using assms
proof cases
  case (admit i)
  with admit_Inr [OF admit(1)] assms(2) show ?thesis by simp
next
  case (handle op i)
  with on_handle_progress show ?thesis by simp
next
  case retain
  then show ?thesis by (auto simp: closed_progress_def)
next
  case (demonstrate now c)
  then show ?thesis by (simp add: closed_progress_def demonstrate_def)
qed

interpretation neighbours: directed others_step
    "\<lambda>m m'. lm_phase m \<noteq> Serving \<longrightarrow> lm_phase m' \<noteq> Serving \<and> closed_progress m m'"
proof
  fix s t u
  assume "lm_phase s \<noteq> Serving \<longrightarrow> lm_phase t \<noteq> Serving \<and> closed_progress s t"
    and "lm_phase t \<noteq> Serving \<longrightarrow> lm_phase u \<noteq> Serving \<and> closed_progress t u"
  then show "lm_phase s \<noteq> Serving \<longrightarrow> lm_phase u \<noteq> Serving \<and> closed_progress s u"
    using closed_progress_trans by blast
next
  fix s t assume "others_step s t"
  then show "lm_phase s \<noteq> Serving \<longrightarrow> lm_phase t \<noteq> Serving \<and> closed_progress s t"
    using others_step_closed by (auto simp: closed_progress_def)
qed simp

lemma others_closed:
  assumes "others m m'" and "lm_phase m \<noteq> Serving"
  shows "closed_progress m m'"
  using assms neighbours.runs unfolding others_def by blast

lemma closed_progress_dead:
  assumes "closed_progress m m'" and "\<not> live m i"
  shows "\<not> live m' i"
proof -
  have "progress (h_state (lm_handles m i)) = 3"
    using assms(2) by (simp add: live_def handle_is_terminal_def progress_3_iff)
  moreover have "progress (h_state (lm_handles m i)) \<le> progress (h_state (lm_handles m' i))"
    using assms(1) unfolding closed_progress_def by blast
  ultimately have "progress (h_state (lm_handles m' i)) = 3"
    using progress_le_3 [of "h_state (lm_handles m' i)"] by simp
  then show ?thesis by (simp add: live_def handle_is_terminal_def progress_3_iff)
qed

lemma closed_progress_token:
  "closed_progress m m' \<Longrightarrow> h_token (lm_handles m i) = Some c \<Longrightarrow> h_token (lm_handles m' i) = Some c"
  unfolding closed_progress_def by blast

definition stopping_or_dead :: "loaded_model \<Rightarrow> request_id \<Rightarrow> bool" where
  "stopping_or_dead m i \<longleftrightarrow> \<not> live m i \<or> h_token (lm_handles m i) \<noteq> None"

lemma closed_progress_stopping:
  "closed_progress m m' \<Longrightarrow> stopping_or_dead m i \<Longrightarrow> stopping_or_dead m' i"
  using closed_progress_dead closed_progress_token unfolding stopping_or_dead_def by blast

lemma request_cancellation_stops:
  "is_terminal (h_state h') \<or> h_token h' \<noteq> None" if "h' = snd (request_cancellation c h)"
  using that by (auto simp: request_cancellation_def token_cancel_def Let_def split: option.splits)

lemma cancel_all_progress: "closed_progress m (cancel_all is m)"
proof (induction "is" arbitrary: m)
  case (Cons i js)
  have "closed_progress m (snd (on_handle i (handle_step (RequestCancel InstanceUnloading)) m))"
    by (rule on_handle_progress) simp
  moreover have "handle_step (RequestCancel InstanceUnloading) = request_cancellation InstanceUnloading"
    by (rule ext) simp
  ultimately show ?case using Cons closed_progress_trans by fastforce
qed simp

lemma cancel_all_cancelled: "i \<in> set is \<Longrightarrow> stopping_or_dead (cancel_all is m) i"
proof (induction "is" arbitrary: m)
  case (Cons j js)
  let ?m = "snd (on_handle j (request_cancellation InstanceUnloading) m)"
  show ?case
  proof (cases "i = j")
    case True
    have "stopping_or_dead ?m i"
      using request_cancellation_stops [OF refl, of InstanceUnloading "lm_handles m j"]
      by (auto simp: True stopping_or_dead_def live_def handle_is_terminal_def)
    from closed_progress_stopping [OF cancel_all_progress this] show ?thesis by simp
  next
    case False
    with Cons show ?thesis by simp
  qed
qed simp

lemma drain_requests_facts:
  assumes "\<And>n m. others m (ue n m)"
  shows "drain_requests rounds ue n is m = (k, m') \<Longrightarrow> lm_phase m \<noteq> Serving \<Longrightarrow>
    k = unsettled is m' \<and> closed_progress m m'"
proof (induction rounds arbitrary: n m)
  case (Suc rounds)
  show ?case
  proof (cases "unsettled is m = 0")
    case True
    with Suc.prems(1) show ?thesis by simp
  next
    case False
    have c: "closed_progress m (ue n m)" using others_closed [OF assms Suc.prems(2)] .
    then have "lm_phase (ue n m) \<noteq> Serving" using Suc.prems(2) by (simp add: closed_progress_def)
    with Suc False c closed_progress_trans show ?thesis by auto
  qed
qed simp

text \<open>What \<open>j\<close> sleeps of the drain leave of a model.\<close>

fun elapse :: "(nat \<Rightarrow> loaded_model \<Rightarrow> loaded_model) \<Rightarrow> nat \<Rightarrow> nat \<Rightarrow> loaded_model \<Rightarrow> loaded_model" where
  "elapse ue n 0 m = m"
| "elapse ue n (Suc j) m = elapse ue (n + 1) j (ue n m)"

lemma drain_elapses:
  "drain_requests rounds ue n is m = (k, m') \<Longrightarrow>
   \<exists>j \<le> rounds. m' = elapse ue n j m \<and> k = unsettled is m' \<and> (j < rounds \<longrightarrow> k = 0)
     \<and> (\<forall>j' < j. unsettled is (elapse ue n j' m) \<noteq> 0)"
proof (induction rounds arbitrary: n m)
  case (Suc rounds)
  show ?case
  proof (cases "unsettled is m = 0")
    case True
    with Suc.prems show ?thesis by (intro exI [of _ 0]) auto
  next
    case False
    with Suc.prems have "drain_requests rounds ue (n + 1) is (ue n m) = (k, m')" by simp
    from Suc.IH [OF this] obtain j where j: "j \<le> rounds" "m' = elapse ue (n + 1) j (ue n m)"
      "k = unsettled is m'" "j < rounds \<longrightarrow> k = 0" "\<forall>j' < j. unsettled is (elapse ue (n + 1) j' (ue n m)) \<noteq> 0"
      by blast
    have "unsettled is (elapse ue n j' m) \<noteq> 0" if "j' < Suc j" for j'
      using that j(5) False by (cases j') simp_all
    with j(1-4) show ?thesis by (intro exI [of _ "Suc j"]) simp
  qed
qed auto

lemma unsettled_0: "unsettled is m = 0 \<longleftrightarrow> (\<forall>i\<in>set is. \<not> live m i)"
  by (auto simp: unsettled_def filter_empty_conv)

lemma backend_stop_facts:
  assumes "backend_stop e rb = (r, rb')" and "machine_ok (rb_handle rb)"
  shows "machine_ok (rb_handle rb') \<and> (r = Inr () \<longrightarrow> gone (rb_handle rb'))
    \<and> (r \<noteq> Inr () \<longrightarrow> (\<exists>err out. r = Inl (WorkerFailure err (rb_identity rb) out)))"
proof -
  obtain sr h where sd: "shutdown e (rb_handle rb) = (sr, h)" by (cases "shutdown e (rb_handle rb)")
  with shutdown_facts [OF sd assms(2)] assms(1) show ?thesis
    by (cases sr) (auto simp: backend_stop_def)
qed

text \<open>The four stages of an unload that finds a serving instance with a worker.\<close>

lemma unload_within_serving:
  assumes "unload_within ue m = (r, m', left)" and "lm_phase m = Serving" and "lm_worker m = Some rb"
    and others: "\<And>n m. others m (ue_others ue n m)" "\<And>m. others m (ue_stopping ue m)"
  obtains m1 m2 k sr rb' where
    "m1 = m\<lparr>lm_phase := Unloading, lm_worker := None\<rparr>"
    "drain_requests (ue_rounds ue) (ue_others ue) 0 (filter (live m) (lm_active m))
       (cancel_all (filter (live m) (lm_active m)) m1) = (k, m2)"
    "backend_stop (ue_os ue) rb = (sr, rb')" "left = Some rb'"
    "m' = finish_unload (case sr of Inr _ \<Rightarrow> Unloaded | Inl _ \<Rightarrow> UnloadFailed) (ue_stopping ue m2)"
    "r = (case sr of Inl err \<Rightarrow> Inl (LBackend err)
       | Inr _ \<Rightarrow> Inr (if k = 0 then Drained (length (filter (live m) (lm_active m)))
            else Escalated (length (filter (live m) (lm_active m))) k))"
    "closed_progress m1 m2" "closed_progress m1 (ue_stopping ue m2)"
    "k = unsettled (filter (live m) (lm_active m)) m2"
    "\<forall>i\<in>set (lm_active m). stopping_or_dead m2 i"
proof -
  let ?out = "filter (live m) (lm_active m)"
  let ?m1 = "m\<lparr>lm_phase := Unloading, lm_worker := None\<rparr>"
  obtain k m2 where d: "drain_requests (ue_rounds ue) (ue_others ue) 0 ?out (cancel_all ?out ?m1) = (k, m2)"
    by (cases "drain_requests (ue_rounds ue) (ue_others ue) 0 ?out (cancel_all ?out ?m1)")
  obtain sr rb' where st: "backend_stop (ue_os ue) rb = (sr, rb')" by (cases "backend_stop (ue_os ue) rb")
  have c1: "closed_progress ?m1 (cancel_all ?out ?m1)" by (rule cancel_all_progress)
  then have "lm_phase (cancel_all ?out ?m1) \<noteq> Serving" by (simp add: closed_progress_def)
  from drain_requests_facts [OF others(1) d this]
  have k: "k = unsettled ?out m2" and c2: "closed_progress (cancel_all ?out ?m1) m2" by simp_all
  have c12: "closed_progress ?m1 m2" using c1 c2 closed_progress_trans by blast
  then have "lm_phase m2 \<noteq> Serving" by (simp add: closed_progress_def)
  from others_closed [OF others(2) this] have c3: "closed_progress ?m1 (ue_stopping ue m2)"
    using c12 closed_progress_trans by blast
  have stop: "stopping_or_dead m2 i" if "i \<in> set (lm_active m)" for i
  proof (cases "live m i")
    case True
    with that have "i \<in> set ?out" by simp
    from closed_progress_stopping [OF c2 cancel_all_cancelled [OF this]] show ?thesis .
  next
    case False
    then have "\<not> live ?m1 i" by (simp add: live_def)
    from closed_progress_dead [OF c12 this] show ?thesis by (simp add: stopping_or_dead_def)
  qed
  have "m' = finish_unload (case sr of Inr _ \<Rightarrow> Unloaded | Inl _ \<Rightarrow> UnloadFailed) (ue_stopping ue m2)"
    "r = (case sr of Inl err \<Rightarrow> Inl (LBackend err)
       | Inr _ \<Rightarrow> Inr (if k = 0 then Drained (length ?out) else Escalated (length ?out) k))"
    "left = Some rb'"
    using assms(1-3) d st by (auto simp: unload_within_def unload_begin_def Let_def)
  with d st c12 c3 k stop that [OF refl] show ?thesis by blast
qed

lemma life_step_closed:
  assumes "life_step m m'" and "lm_phase m \<noteq> Serving"
  shows "lm_phase m' \<noteq> Serving \<and> set (lm_active m') \<subseteq> set (lm_active m)"
  using assms
proof cases
  case others
  with others_step_closed [OF others assms(2)] assms(2) show ?thesis by (simp add: closed_progress_def)
next
  case (unload_begin r)
  with assms(2) show ?thesis by (auto simp: unload_begin_def split: lifecycle_phase.splits)
next
  case (finish_unload phase)
  then show ?thesis by (auto simp: finish_unload_def)
qed

interpretation life: directed life_step "\<lambda>m m'. lm_phase m \<noteq> Serving \<longrightarrow>
    lm_phase m' \<noteq> Serving \<and> set (lm_active m') \<subseteq> set (lm_active m)"
  using life_step_closed by unfold_locales blast+

lemma life_closed:
  assumes "life_step\<^sup>*\<^sup>* m m'" and "lm_phase m \<noteq> Serving"
  shows "lm_phase m' \<noteq> Serving \<and> set (lm_active m') \<subseteq> set (lm_active m)"
  using assms life.runs by blast

lemma commit_facts:
  assumes "commit fault drawn a backend = r"
  shows "(case r of
      Inr m \<Rightarrow> lm_phase m = Serving \<and> lm_worker m = Some backend \<and> lm_active m = []
          \<and> mi_artifact (lm_instance m) = a_id a \<and> instance_is_usable (mi_state (lm_instance m))
          \<and> (\<forall>c. \<not> capability_is_verified (mi_capabilities (lm_instance m)) c)
    | Inl (reason, backend') \<Rightarrow> backend' = backend)"
  using assms indicated_by_metadata_facts
  by (auto simp: commit_def new_instance_def split: option.splits sum.splits)

lemma resolve_cases:
  obtains (registry) err where "resolve fs db i = Inl (LRegistry err)"
  | (absent) "resolve fs db i = Inl (LUnknownArtifact i)"
  | (missing) p where "resolve fs db i = Inl (ArtifactMissing i p)"
  | (changed) reason where "resolve fs db i = Inl (ArtifactChanged i reason)"
  | (found) a where "get_artifact db i = Inr (Some a)" "detect_drift fs a = Unchanged"
      "resolve fs db i = Inr a"
proof (cases "get_artifact db i")
  case (Inl err)
  then show ?thesis by (intro registry) (simp add: resolve_def)
next
  case (Inr found)
  show ?thesis
  proof (cases found)
    case None
    with Inr show ?thesis by (intro absent) (simp add: resolve_def)
  next
    case (Some a)
    show ?thesis
    proof (cases "detect_drift fs a")
      case Unchanged
      with Inr Some show ?thesis by (intro found) (simp_all add: resolve_def)
    next
      case (Changed reason)
      with Inr Some show ?thesis by (intro changed) (simp add: resolve_def)
    next
      case Missing
      with Inr Some show ?thesis by (intro missing) (simp add: resolve_def)
    qed
  qed
qed

lemma resolve_Inr:
  "resolve fs db i = Inr a \<Longrightarrow> get_artifact db i = Inr (Some a) \<and> detect_drift fs a = Unchanged"
  by (cases rule: resolve_cases [of fs db i]) auto

lemma also_running_says: "sublist ''may still be running'' (also_running reason err)"
  unfolding also_running_def by (metis append_assoc sublist_appendI)

text \<open>What a load that fails in the backend leaves behind, by the backend's error.\<close>

definition backend_left :: "start_env \<Rightarrow> backend_error \<Rightarrow> worker_handle option \<Rightarrow> key_store \<Rightarrow> key_store \<Rightarrow> bool" where
  "backend_left se err h ks ks' \<longleftrightarrow> (case err of
     ChannelError e \<Rightarrow> h = None \<and> (ks_files ks' = ks_files ks \<or>
       (\<exists>path n secret. ke_write (se_keys se) = Some (n, e) \<and> map_of (ks_files ks) path = None
         \<and> ks_files ks' = (path, \<lparr>kf_mode = 384, kf_contents = take n secret\<rparr>) # ks_files ks))
   | WorkerFailure _ _ _ \<Rightarrow> ks_files ks' = ks_files ks \<and> (\<forall>h'. h = Some h' \<longrightarrow> gone h' \<or> refuses_kills (se_os se))
   | BackendRejected d \<Rightarrow> ks_files ks' = ks_files ks
       \<and> (\<exists>h'. h = Some h' \<and> (gone h' \<or> sublist ''may still be running'' d \<and> refuses_kills (se_os se)))
   | _ \<Rightarrow> False)"

lemma load_facts:
  assumes "load lo exe db i w deadlines ks = (r, h, ks')"
  shows "(case r of
      Inr m \<Rightarrow> (\<exists>a rb. resolve (lo_files lo) db i = Inr a \<and> permits_start (assess (describe a))
          \<and> lm_worker m = Some rb \<and> wh_state (rb_handle rb) = Ready \<and> machine_ok (rb_handle rb)
          \<and> h = Some (rb_handle rb)
          \<and> lm_phase m = Serving \<and> lm_active m = [] \<and> mi_artifact (lm_instance m) = a_id a
          \<and> (\<forall>c. \<not> capability_is_verified (mi_capabilities (lm_instance m)) c))
          \<and> ks_files ks' = ks_files ks
    | Inl (InstanceError d) \<Rightarrow> ks_files ks' = ks_files ks
          \<and> (\<exists>h'. h = Some h' \<and> (gone h' \<or> sublist ''may still be running'' d \<and> refuses_kills (se_os (lo_start lo))))
    | Inl (LBackend err) \<Rightarrow> backend_left (lo_start lo) err h ks ks'
    | Inl _ \<Rightarrow> h = None \<and> ks' = ks)"
proof (cases "resolve (lo_files lo) db i")
  case (Inl err)
  with assms have "r = Inl err" "h = None" "ks' = ks" by (auto simp: load_def)
  then show ?thesis using Inl by (cases rule: resolve_cases [of "lo_files lo" db i]) auto
next
  case (Inr a)
  let ?compat = "assess (describe a)"
  let ?spec = "\<lparr>sp_model_path = a_path a, sp_descriptor = describe a, sp_context_size = None,
      sp_gpu_layers = None, sp_deadlines = deadlines\<rparr>"
  obtain br bh ks1 where b: "backend_start (lo_start lo) exe w ?spec ks = (br, bh, ks1)"
    by (cases "backend_start (lo_start lo) exe w ?spec ks") auto
  note b1 = backend_start_facts [OF b]
  show ?thesis
  proof (cases "permits_start ?compat")
    case False
    with Inr assms show ?thesis by (auto simp: load_def Let_def)
  next
    case True
    show ?thesis
    proof (cases br)
      case (Inl err)
      with Inr True b assms have "r = Inl (LBackend err)" "h = bh" "ks' = ks1" by (auto simp: load_def Let_def)
      with b1 Inl show ?thesis by (cases err) (auto simp: backend_left_def)
    next
      case rb: (Inr rb)
      with b1 have rbok: "wh_state (rb_handle rb) = Ready" "machine_ok (rb_handle rb)"
        and rbh: "bh = Some (rb_handle rb)" "ks_files ks1 = ks_files ks"
        using supervised_ok by auto
      show ?thesis
      proof (cases "commit (lo_fault lo) (lo_random lo) a rb")
        case c: (Inr m)
        with Inr True b rb assms have "r = Inr m" "h = bh" "ks' = ks1" by (auto simp: load_def Let_def)
        with commit_facts [OF c] Inr True rbok rbh show ?thesis by auto
      next
        case c: (Inl p)
        obtain reason where p: "p = (reason, rb)" using commit_facts [OF c] by (cases p) auto
        obtain sr rb2 where s: "backend_stop (se_os (lo_start lo)) rb = (sr, rb2)"
          by (cases "backend_stop (se_os (lo_start lo)) rb")
        note s1 = backend_stop_facts [OF s rbok(2)]
        have "h = Some (worker_drop (se_os (lo_start lo)) (rb_handle rb2))" "ks' = ks1" "r = Inl (InstanceError (case sr of Inr _ \<Rightarrow> reason
            | Inl err \<Rightarrow> also_running reason (show_backend_error (se_secs (lo_start lo)) err)))"
          using Inr True b rb c p s assms by (auto simp: load_def Let_def)
        with s1 also_running_says dropped_gone [of "rb_handle rb2" "se_os (lo_start lo)"]
          dropped_keeps_gone [of "rb_handle rb2" "se_os (lo_start lo)"] rbh(2)
        show ?thesis by (cases sr) auto
      qed
    qed
  qed
qed

text \<open>After admission \<open>embed\<close> and \<open>generate_text\<close> settle the request one way or another.\<close>

lemma finish_terminal: "is_terminal st \<Longrightarrow> is_terminal (h_state (snd (finish st h)))"
  by (simp add: finish_state)

text \<open>How a request is recorded for what its caller is given.\<close>

fun settled_as :: "load_error + 'r \<Rightarrow> request_state" where
  "settled_as (Inr _) = Completed"
| "settled_as (Inl (Stopped _)) = Cancelled"
| "settled_as (Inl _) = Failed"

lemma settle_facts:
  assumes "settle gap i sent judge m = (r, m')"
  shows "m' = snd (on_handle i (finish (settled_as r)) (gap m))"
    and "\<not> live m' i"
    and "lm_instance m' = lm_instance (gap m)"
    and "lm_identity m' = lm_identity (gap m)"
    and "h_token (lm_handles m' i) = h_token (lm_handles (gap m) i)"
    and "live (gap m) i \<longrightarrow> h_state (lm_handles m' i) = settled_as r"
    and "\<forall>j. j \<noteq> i \<longrightarrow> lm_handles m' j = lm_handles (gap m) j"
    and "r = (case h_token (lm_handles m i) of
         Some c \<Rightarrow> Inl (Stopped c)
       | None \<Rightarrow> (case sent of
           Inl detail \<Rightarrow> Inl (Inference detail)
         | Inr result \<Rightarrow> (case judge result of
             Some defect \<Rightarrow> Inl (UnusableResult defect) | None \<Rightarrow> Inr result)))"
proof -
  show m': "m' = snd (on_handle i (finish (settled_as r)) (gap m))"
    and "r = (case h_token (lm_handles m i) of
         Some c \<Rightarrow> Inl (Stopped c)
       | None \<Rightarrow> (case sent of
           Inl detail \<Rightarrow> Inl (Inference detail)
         | Inr result \<Rightarrow> (case judge result of
             Some defect \<Rightarrow> Inl (UnusableResult defect) | None \<Rightarrow> Inr result)))"
    using assms by (auto simp: settle_def split: option.splits sum.splits)
  have "is_terminal (settled_as r)" by (cases r rule: settled_as.cases) simp_all
  moreover have "h_token (snd (finish st h)) = h_token h" for st h by (simp add: finish_def)
  moreover show "lm_identity m' = lm_identity (gap m)" by (simp add: m' on_handle_def split: prod.split)
  ultimately show "\<not> live m' i" "lm_instance m' = lm_instance (gap m)"
    "h_token (lm_handles m' i) = h_token (lm_handles (gap m) i)"
    "live (gap m) i \<longrightarrow> h_state (lm_handles m' i) = settled_as r"
    "\<forall>j. j \<noteq> i \<longrightarrow> lm_handles m' j = lm_handles (gap m) j"
    by (simp_all add: m' live_def handle_is_terminal_def finish_state)
qed

lemma start_request_Inr:
  assumes "start_request m = Inr (i, m1)"
  shows "\<exists>m0. admit m = Inr (i, m0) \<and> m1 = snd (on_handle i (\<lambda>h. ((), mark_running h)) m0)"
  using assms by (cases "admit m") (auto simp: start_request_def)

lemma start_request_Inl: "start_request m = Inl err \<Longrightarrow> admit m = Inl err"
  by (cases "admit m") (auto simp: start_request_def)

lemma embed_cases:
  assumes "embed during sent request m = (r, m')"
  obtains (refused) err where "admit m = Inl err" "r = Inl err" "m' = m"
  | (admitted) i m1 where "admit m = Inr (i, m1)"
      "settle (during 1) i sent (\<lambda>r. defect_of show_result_defect (validate request r))
         (during 0 (snd (on_handle i (\<lambda>h. ((), mark_running h)) m1))) = (r, m')"
  using assms start_request_Inr start_request_Inl
  by (auto simp: embed_def split: sum.splits; blast)

lemma unload_within_facts:
  assumes "unload_within ue m = (r, m', left)" and "lm_phase m = Serving" and "lm_worker m = Some rb"
    and "machine_ok (rb_handle rb)"
    and "\<And>n m. others m (ue_others ue n m)" and "\<And>m. others m (ue_stopping ue m)"
  shows "lm_active m' = [] \<and> lm_worker m' = None
    \<and> (\<forall>i\<in>set (lm_active m). stopping_or_dead m' i)
    \<and> (case r of
         Inr outcome \<Rightarrow> lm_phase m' = Unloaded \<and> (\<exists>rb'. left = Some rb' \<and> gone (rb_handle rb'))
           \<and> (\<exists>n. outcome = Drained n \<and> (\<forall>i\<in>set (lm_active m). \<not> live m' i)
                \<or> (\<exists>k > 0. outcome = Escalated n k))
       | Inl err \<Rightarrow> lm_phase m' = UnloadFailed)"
proof -
  obtain m1 m2 k sr rb' where
    m1: "m1 = m\<lparr>lm_phase := Unloading, lm_worker := None\<rparr>"
    and "drain_requests (ue_rounds ue) (ue_others ue) 0 (filter (live m) (lm_active m))
       (cancel_all (filter (live m) (lm_active m)) m1) = (k, m2)"
    and st: "backend_stop (ue_os ue) rb = (sr, rb')" and left: "left = Some rb'"
    and m': "m' = finish_unload (case sr of Inr _ \<Rightarrow> Unloaded | Inl _ \<Rightarrow> UnloadFailed) (ue_stopping ue m2)"
    and r: "r = (case sr of Inl err \<Rightarrow> Inl (LBackend err)
       | Inr _ \<Rightarrow> Inr (if k = 0 then Drained (length (filter (live m) (lm_active m)))
            else Escalated (length (filter (live m) (lm_active m))) k))"
    and c: "closed_progress m1 m2" "closed_progress m1 (ue_stopping ue m2)"
    and k: "k = unsettled (filter (live m) (lm_active m)) m2"
    and stop: "\<forall>i\<in>set (lm_active m). stopping_or_dead m2 i"
    by (rule unload_within_serving [OF assms(1-3,5,6)])
  have fin: "lm_active m' = []" "lm_worker m' = None" "lm_handles m' = lm_handles (ue_stopping ue m2)"
    using m' c(2) m1 by (simp_all add: finish_unload_def closed_progress_def)
  have "lm_phase m2 \<noteq> Serving" using c(1) m1 by (simp add: closed_progress_def)
  from others_closed [OF assms(6) this] have c3: "closed_progress m2 (ue_stopping ue m2)" .
  have stop': "\<forall>i\<in>set (lm_active m). stopping_or_dead m' i"
    using stop closed_progress_stopping [OF c3] by (simp add: stopping_or_dead_def live_def fin(3))
  have dead: "\<forall>i\<in>set (lm_active m). \<not> live m' i" if "k = 0"
  proof
    fix i assume i: "i \<in> set (lm_active m)"
    have "\<not> live m2 i"
    proof (cases "live m i")
      case True
      with i that k show ?thesis by (simp add: unsettled_0)
    next
      case False
      then have "\<not> live m1 i" by (simp add: m1 live_def)
      from closed_progress_dead [OF c(1) this] show ?thesis .
    qed
    from closed_progress_dead [OF c3 this] show "\<not> live m' i" by (simp add: live_def fin(3))
  qed
  show ?thesis
  proof (cases sr)
    case (Inl err)
    with fin stop' m' r show ?thesis by (simp add: finish_unload_def)
  next
    case (Inr u)
    then have "gone (rb_handle rb')" using backend_stop_facts [OF st assms(4)] by simp
    with fin stop' m' r left dead Inr show ?thesis by (auto simp: finish_unload_def)
  qed
qed

definition sample_model :: loaded_model where
  "sample_model = \<lparr>
     lm_instance = new_instance ''i'' ''a'' None [],
     lm_channel = sample_channel, lm_identity = None, lm_requests = new_allocator,
     lm_phase = Serving, lm_active = [],
     lm_worker = Some \<lparr>rb_handle = sample_handle Terminate, rb_channel = sample_channel,
       rb_identity = None, rb_readiness = BackendReady\<rparr>,
     lm_handles = new_handle\<rparr>"

lemma sample_worker_ok: "machine_ok (sample_handle st)"
  by (simp add: machine_ok_def handle_ok_def sample_handle_def)

definition sample_unload :: unload_env where
  "sample_unload = \<lparr>ue_rounds = 0, ue_others = \<lambda>n m. m, ue_stopping = \<lambda>m. m, ue_os = obedient\<rparr>"

definition sample_backend :: running_backend where
  "sample_backend = \<lparr>rb_handle = sample_handle Terminate, rb_channel = sample_channel,
     rb_identity = None, rb_readiness = BackendReady\<rparr>"

lemma sample_model_facts: "lm_phase sample_model = Serving" "lm_worker sample_model = Some sample_backend"
    "machine_ok (rb_handle sample_backend)"
  by (simp_all add: sample_model_def sample_backend_def sample_worker_ok)

lemma sample_unload_succeeds:
  "\<exists>outcome m left. unload_within sample_unload sample_model = (Inr outcome, m, left)"
proof -
  have "fst (backend_stop obedient sample_backend) = Inr ()"
    by (simp add: backend_stop_def shutdown_def begin_stopping_def leave_stopping_def set_worker_state_def
        transition_to_def sample_handle_def obedient_def terminate_def try_to_kill_def os_try_wait_def
        os_kill_def os_look_def sample_backend_def Let_def)
  then show ?thesis
    by (auto simp: unload_within_def unload_begin_def sample_model_def sample_unload_def
        sample_backend_def Let_def split: prod.splits sum.splits)
qed

lemma others_refl [simp]: "others m m"
  by (simp add: others_def)

section \<open>Properties\<close>

text \<open>C30: once an instance stops serving it never serves again. After an unload has begun,
  whatever its clients and the unload itself do, in any order, no request is admitted, so no new
  work can reach a backend that is being torn down.\<close>

theorem admission_stays_closed:
  assumes "unload_begin m = (r, m1)" and "life_step\<^sup>*\<^sup>* m1 m2"
  shows "admit m2 = Inl (NotUsable (show_phase (lm_phase m2)))
    \<and> set (lm_active m2) \<subseteq> set (lm_active m)
    \<and> (\<exists>outcome. unload_begin m2 = (Inl outcome, m2))"
proof -
  have "lm_phase m1 \<noteq> Serving" "set (lm_active m1) \<subseteq> set (lm_active m)"
    using assms(1) by (auto simp: unload_begin_def split: lifecycle_phase.splits)
  with life_closed [OF assms(2)] have "lm_phase m2 \<noteq> Serving" "set (lm_active m2) \<subseteq> set (lm_active m)"
    by auto
  then show ?thesis using admit_not_serving
    by (auto simp: unload_begin_def split: lifecycle_phase.splits)
qed

theorem admission_stays_closed_witness:
  "admit (snd (unload_begin sample_model)) = Inl (NotUsable ''unloading'')"
proof -
  obtain r m1 where b: "unload_begin sample_model = (r, m1)" by (cases "unload_begin sample_model")
  moreover have "lm_phase m1 = Unloading" using b by (auto simp: unload_begin_def sample_model_def)
  moreover have "life_step\<^sup>*\<^sup>* m1 m1" by simp
  ultimately show ?thesis using admission_stays_closed [OF b] by fastforce
qed

text \<open>C3: unloading tells the truth. Whatever others do while it waits, the instance is left with no
  request and no worker; every request it found has ended or has been told to stop; the wait goes on
  until all of them have ended, and otherwise through the whole budget. When it reports success the
  worker's process has ended and the instance is unloaded, and it says how many requests it told to
  stop and how the wait ended: drained exactly when every request it found had ended by then, which
  is before the worker was stopped, and else the number that had not. When stopping the worker fails
  the instance is marked as failed, never as unloaded.\<close>

theorem unload_truthful:
  assumes "unload_within ue m = (r, m', left)" and "lm_phase m = Serving" and "lm_worker m = Some rb"
    and "machine_ok (rb_handle rb)"
    and "\<And>n m. others m (ue_others ue n m)" and "\<And>m. others m (ue_stopping ue m)"
    and "found = filter (live m) (lm_active m)"
    and "m1 = cancel_all found (m\<lparr>lm_phase := Unloading, lm_worker := None\<rparr>)"
  shows "lm_active m' = [] \<and> lm_worker m' = None
    \<and> (\<forall>i\<in>set (lm_active m). stopping_or_dead m' i)
    \<and> (\<exists>j \<le> ue_rounds ue. \<exists>m2. m2 = elapse (ue_others ue) 0 j m1
        \<and> (j < ue_rounds ue \<longrightarrow> (\<forall>i\<in>set (lm_active m). \<not> live m2 i))
        \<and> (\<forall>j' < j. \<exists>i\<in>set found. live (elapse (ue_others ue) 0 j' m1) i)
        \<and> lm_handles m' = lm_handles (ue_stopping ue m2)
        \<and> (case r of
             Inr outcome \<Rightarrow> lm_phase m' = Unloaded \<and> (\<exists>rb'. left = Some rb' \<and> gone (rb_handle rb'))
               \<and> outcome = (if \<forall>i\<in>set (lm_active m). \<not> live m2 i then Drained (length found)
                    else Escalated (length found) (length (filter (live m2) found)))
           | Inl err \<Rightarrow> lm_phase m' = UnloadFailed))"
proof -
  note f = unload_within_facts [OF assms(1-6)]
  obtain m0 m2 k sr rb' where m0: "m0 = m\<lparr>lm_phase := Unloading, lm_worker := None\<rparr>"
    and d: "drain_requests (ue_rounds ue) (ue_others ue) 0 found (cancel_all found m0) = (k, m2)"
    and st: "backend_stop (ue_os ue) rb = (sr, rb')" and left: "left = Some rb'"
    and m': "m' = finish_unload (case sr of Inr _ \<Rightarrow> Unloaded | Inl _ \<Rightarrow> UnloadFailed) (ue_stopping ue m2)"
    and r: "r = (case sr of Inl err \<Rightarrow> Inl (LBackend err)
       | Inr _ \<Rightarrow> Inr (if k = 0 then Drained (length found) else Escalated (length found) k))"
    and c: "closed_progress m0 m2" "closed_progress m0 (ue_stopping ue m2)"
    and ku: "k = unsettled found m2" and stop: "\<forall>i\<in>set (lm_active m). stopping_or_dead m2 i"
    unfolding assms(7) by (rule unload_within_serving [OF assms(1-3,5,6)])
  have m1: "m1 = cancel_all found m0" by (simp add: assms(8) m0)
  have old: "live m2 i \<Longrightarrow> live m i" for i
    using closed_progress_dead [OF c(1), of i] by (auto simp: m0 live_def)
  from drain_elapses [OF d] obtain j where j: "j \<le> ue_rounds ue" "m2 = elapse (ue_others ue) 0 j m1"
    "k = unsettled found m2" "j < ue_rounds ue \<longrightarrow> k = 0"
    "\<forall>j' < j. unsettled found (elapse (ue_others ue) 0 j' m1) \<noteq> 0" unfolding m1 by blast
  have k: "k = 0 \<longleftrightarrow> (\<forall>i\<in>set (lm_active m). \<not> live m2 i)" "k = length (filter (live m2) found)"
    using old unsettled_0 [of found m2] by (auto simp: j(3) assms(7)) (simp add: unsettled_def)
  have "\<forall>j' < j. \<exists>i\<in>set found. live (elapse (ue_others ue) 0 j' m1) i"
    using j(5) by (auto simp: unsettled_0)
  moreover have "lm_handles m' = lm_handles (ue_stopping ue m2)" by (simp add: m' finish_unload_def)
  moreover have "case r of
         Inr outcome \<Rightarrow> lm_phase m' = Unloaded \<and> (\<exists>rb'. left = Some rb' \<and> gone (rb_handle rb'))
           \<and> outcome = (if \<forall>i\<in>set (lm_active m). \<not> live m2 i then Drained (length found)
                else Escalated (length found) (length (filter (live m2) found)))
       | Inl err \<Rightarrow> lm_phase m' = UnloadFailed"
    using f r k by (cases sr) auto
  moreover have "j < ue_rounds ue \<longrightarrow> (\<forall>i\<in>set (lm_active m). \<not> live m2 i)" using j(4) k(1) by blast
  ultimately show ?thesis using f j(1,2) by blast
qed

theorem unload_truthful_witness:
  "lm_phase (fst (snd (unload_within sample_unload sample_model))) = Unloaded
   \<and> fst (unload_within sample_unload sample_model) = Inr (Drained 0)"
proof -
  obtain outcome m' left where u: "unload_within sample_unload sample_model = (Inr outcome, m', left)"
    using sample_unload_succeeds by blast
  from unload_truthful [OF u sample_model_facts _ _ refl refl] show ?thesis using u
    by (simp add: sample_worker_ok sample_unload_def sample_model_def)
qed



text \<open>Others race on a handle only with the operations it offers.\<close>

definition races :: "(nat \<Rightarrow> loaded_model \<Rightarrow> loaded_model) \<Rightarrow> request_id \<Rightarrow> bool" where
  "races between i \<longleftrightarrow> (\<forall>k m. \<exists>ops. list_all legal_op ops
     \<and> lm_handles (between k m) i = snd (run_handle ops (lm_handles m i)))"

lemma run_handle_keeps:
  assumes "list_all legal_op ops"
  shows "h_token h = Some c \<Longrightarrow> h_token (snd (run_handle ops h)) = Some c"
    and "is_terminal (h_state h) \<Longrightarrow> h_state (snd (run_handle ops h)) = h_state h"
proof -
  show "h_token h = Some c \<Longrightarrow> h_token (snd (run_handle ops h)) = Some c"
  proof (induction ops arbitrary: h)
    case (Cons op ops)
    obtain b h1 where s: "handle_step op h = (b, h1)" by (cases "handle_step op h")
    with handle_step_token [OF s Cons.prems] Cons.IH [of h1] show ?case by (auto split: prod.splits)
  qed simp
  obtain log h' where r: "run_handle ops h = (log, h')" by (cases "run_handle ops h")
  show "is_terminal (h_state h) \<Longrightarrow> h_state (snd (run_handle ops h)) = h_state h"
    using outcome.run_written [OF assms, of h "h_state h" log h'] r
    by (auto simp: outcome_of_def split: if_splits)
qed

lemma races_token:
  assumes "races between i" and "h_token (lm_handles m i) = Some c"
  shows "h_token (lm_handles (between k m) i) = Some c"
proof -
  obtain ops where "list_all legal_op ops"
    and "lm_handles (between k m) i = snd (run_handle ops (lm_handles m i))"
    using assms(1) unfolding races_def by blast
  with run_handle_keeps(1) assms(2) show ?thesis by simp
qed

lemma races_ended:
  assumes "races between i" and "\<not> live m i"
  shows "\<not> live (between k m) i"
proof -
  obtain ops where "list_all legal_op ops"
    and "lm_handles (between k m) i = snd (run_handle ops (lm_handles m i))"
    using assms(1) unfolding races_def by blast
  with run_handle_keeps(2) assms(2) show ?thesis by (simp add: live_def handle_is_terminal_def)
qed

lemma request_cancellation_cases:
  assumes "request_cancellation cause h = (b, h')"
  obtains (ended) "\<not> b" "is_terminal (h_state h)" "h' = h"
  | (claimed) "b" "h_token h = None" "h_state h' = Cancelling" "h_token h' = Some cause"
  | (late) c where "\<not> b" "\<not> is_terminal (h_state h)" "h_token h = Some c" "h' = h"
  using assms by (auto simp: request_cancellation_def token_cancel_def Let_def
      split: if_splits option.splits)

text \<open>what cancelling reports is true, whatever others do to the request meanwhile. Only a
  request that is unknown or has ended is reported as unknown; one reported as told to stop is
  stopping with the caller as its cause, and undisturbed that is what a running one gets; one reported as already stopping has that cause; and one
  reported as finished has ended in that state. The last happens only in a race: undisturbed, an
  ended request is always reported as unknown, because ended requests are forgotten before the
  identifier is looked up.\<close>

theorem cancel_reports:
  assumes "cancel between i m = (r, m')" and "races between i"
  shows "(r = Inl (UnknownRequest i) \<longleftrightarrow> i \<notin> set (lm_active m) \<or> \<not> live m i)
    \<and> (r = Inr CancelRequested \<longrightarrow>
         h_state (lm_handles m' i) = Cancelling \<and> h_token (lm_handles m' i) = Some User
         \<and> h_token (lm_handles m i) = None)
    \<and> (\<forall>c. r = Inr (AlreadyStopping c) \<longrightarrow> live m' i \<and> h_token (lm_handles m' i) = Some c)
    \<and> (\<forall>st. r = Inr (AlreadyFinished st) \<longrightarrow>
         is_terminal st \<and> h_state (lm_handles m' i) = st \<and> between \<noteq> (\<lambda>k m. m))
    \<and> (between = (\<lambda>k m. m) \<and> i \<in> set (lm_active m) \<and> live m i \<and> h_token (lm_handles m i) = None
         \<longrightarrow> r = Inr CancelRequested)"
proof (cases "i \<in> set (lm_active m) \<and> live m i")
  case False
  with assms(1) show ?thesis by (auto simp: cancel_def Let_def)
next
  case known: True
  let ?m0 = "between 0 (retain_live m)" and ?m1 = "between 1 (between 0 (retain_live m))"
  obtain b h' where q: "request_cancellation User (lm_handles ?m1 i) = (b, h')"
    by (cases "request_cancellation User (lm_handles ?m1 i)")
  let ?m2 = "snd (on_handle i (request_cancellation User) ?m1)"
  have m2: "lm_handles ?m2 i = h'" using q by simp
  have unasked: "h_token (lm_handles m i) = None" if "h_token (lm_handles ?m1 i) = None"
  proof (cases "h_token (lm_handles m i)")
    case (Some c)
    then have "h_token (lm_handles (retain_live m) i) = Some c" by simp
    from races_token [OF assms(2) races_token [OF assms(2) this]] that show ?thesis by simp
  qed simp
  have stops: "h_token (lm_handles (between 2 ?m2) i) = Some c" if "h_token h' = Some c" for c
    using races_token [OF assms(2)] that m2 by simp
  have out: "(r, m') = (if \<not> live ?m0 i then (Inr (AlreadyFinished (h_state (lm_handles ?m0 i))), ?m0)
     else if b then (Inr CancelRequested, ?m2)
     else if \<not> live (between 2 ?m2) i
       then (Inr (AlreadyFinished (h_state (lm_handles (between 2 ?m2) i))), between 2 ?m2)
     else (Inr (AlreadyStopping (case h_token (lm_handles (between 2 ?m2) i) of
            Some cause \<Rightarrow> cause | None \<Rightarrow> User)), between 2 ?m2))"
    using assms(1) known q
    by (auto simp: cancel_def Let_def on_handle_def split: if_splits prod.splits)
  from q show ?thesis
  proof (cases rule: request_cancellation_cases)
    case ended
    then have "\<not> live ?m2 i" using m2 by (simp add: live_def handle_is_terminal_def)
    from races_ended [OF assms(2) this] ended(1) out show ?thesis
      using known by (auto simp: live_def handle_is_terminal_def split: if_splits)
  next
    case claimed
    with out known m2 unasked show ?thesis
      by (auto simp: live_def handle_is_terminal_def split: if_splits)
  next
    case (late c)
    with out known m2 stops [of c] show ?thesis
      by (auto simp: live_def handle_is_terminal_def split: if_splits)
  qed
qed

theorem cancel_reports_witness:
  "fst (cancel (\<lambda>k m. m) (RequestId 1)
     (sample_model\<lparr>lm_active := [RequestId 1],
        lm_handles := (\<lambda>i. (new_handle i)\<lparr>h_state := Completed\<rparr>)\<rparr>)) = Inl (UnknownRequest (RequestId 1))"
proof -
  let ?m = "sample_model\<lparr>lm_active := [RequestId 1],
        lm_handles := (\<lambda>i. (new_handle i)\<lparr>h_state := Completed\<rparr>)\<rparr>"
  obtain r m' where c: "cancel (\<lambda>k m. m) (RequestId 1) ?m = (r, m')"
    by (cases "cancel (\<lambda>k m. m) (RequestId 1) ?m")
  have "\<not> live ?m (RequestId 1)" by (simp add: live_def handle_is_terminal_def new_handle_def)
  moreover have "races (\<lambda>k m. m) (RequestId 1)"
    unfolding races_def by (metis list.pred_inject(1) run_handle.simps(1) snd_conv)
  ultimately show ?thesis using cancel_reports [OF c] c by simp
qed

text \<open>C31: an embedding request is refused before it starts, changing nothing, or leaves an ended
  request behind, whatever happens while the backend works. When its task last looks, a request that
  has been told to stop reports that cause, an answer the backend could not give is an error, one that
  is not valid is unusable, and only a valid one is returned. A stop that is claimed after that look
  does not change what is returned, and stays on record; the request is recorded as what its caller
  is told, unless something else has ended it; no other request is touched; and the capability is
  recorded as demonstrated exactly when a result is returned.\<close>

theorem embed_settles:
  assumes "verify_embeddings now during sent request m = (r, m')"
  shows "(\<exists>err. admit m = Inl err \<and> r = Inl err \<and> m' = m)
    \<or> (\<exists>i m1 m2 m3. admit m = Inr (i, m1) \<and> m2 = during 0 (snd (on_handle i (\<lambda>h. ((), mark_running h)) m1))
        \<and> m3 = during 1 m2
        \<and> r = (case h_token (lm_handles m2 i) of
             Some c \<Rightarrow> Inl (Stopped c)
           | None \<Rightarrow> (case sent of
               Inl detail \<Rightarrow> Inl (Inference detail)
             | Inr result \<Rightarrow> (case validate request result of
                 Inl defect \<Rightarrow> Inl (UnusableResult (show_result_defect defect))
               | Inr _ \<Rightarrow> Inr result)))
        \<and> \<not> live m' i \<and> h_token (lm_handles m' i) = h_token (lm_handles m3 i)
        \<and> (live m3 i \<longrightarrow> h_state (lm_handles m' i) = settled_as r)
        \<and> (\<forall>j. j \<noteq> i \<longrightarrow> lm_handles m' j = lm_handles m3 j)
        \<and> lm_instance m' = (case r of
             Inl _ \<Rightarrow> lm_instance m3
           | Inr _ \<Rightarrow> instance_verify Embeddings now (lm_identity m3) (lm_instance m3)))"
proof -
  obtain r1 m1 where e: "embed during sent request m = (r1, m1)" by (cases "embed during sent request m")
  then have out: "r1 = r" "m' = (case r of Inl _ \<Rightarrow> m1 | Inr _ \<Rightarrow> demonstrate now Embeddings m1)"
    using assms by (auto simp: verify_embeddings_def split: sum.splits)
  have same: "live m' = live m1" "lm_handles m' = lm_handles m1"
    by (cases r; simp add: out live_def demonstrate_def fun_eq_iff)+
  have inst: "lm_instance m' = (case r of Inl _ \<Rightarrow> lm_instance m1
      | Inr _ \<Rightarrow> instance_verify Embeddings now (lm_identity m1) (lm_instance m1))"
    by (cases r) (simp_all add: out demonstrate_def)
  have judged: "(case (defect_of show_result_defect (validate request x)) of
        Some defect \<Rightarrow> Inl (UnusableResult defect) | None \<Rightarrow> Inr x)
      = (case validate request x of Inl defect \<Rightarrow> Inl (UnusableResult (show_result_defect defect)) | Inr _ \<Rightarrow> Inr x)"
    for x by (simp add: defect_of_def split: sum.split)
  from e show ?thesis
  proof (cases rule: embed_cases)
    case (refused err)
    with out show ?thesis by auto
  next
    case (admitted i m2)
    note f = settle_facts [OF admitted(2), unfolded judged]
    let ?m3 = "during 1 (during 0 (snd (on_handle i (\<lambda>h. ((), mark_running h)) m2)))"
    have res: "r = (case h_token (lm_handles (during 0 (snd (on_handle i (\<lambda>h. ((), mark_running h)) m2))) i) of
             Some c \<Rightarrow> Inl (Stopped c)
           | None \<Rightarrow> (case sent of
               Inl detail \<Rightarrow> Inl (Inference detail)
             | Inr result \<Rightarrow> (case validate request result of
                 Inl defect \<Rightarrow> Inl (UnusableResult (show_result_defect defect))
               | Inr _ \<Rightarrow> Inr result)))"
      using f(8) unfolding out(1) .
    have rest: "\<not> live m' i" "h_token (lm_handles m' i) = h_token (lm_handles ?m3 i)"
      "live ?m3 i \<longrightarrow> h_state (lm_handles m' i) = settled_as r"
      "\<forall>j. j \<noteq> i \<longrightarrow> lm_handles m' j = lm_handles ?m3 j"
      unfolding same out(1) [symmetric] by (rule f(2) f(5) f(6) f(7))+
    show ?thesis
      by (intro disjI2 exI conjI, rule admitted(1), rule refl, rule refl, rule res)
         (rule rest | simp only: inst f(3,4))+
  qed
qed

theorem embed_settles_witness:
  "\<exists>i m'. verify_embeddings 0 (\<lambda>k m. m) (Inl ''down'') (embed_batch []) sample_model
     = (Inl (Inference ''down''), m') \<and> \<not> live m' i \<and> h_state (lm_handles m' i) = Failed"
proof -
  obtain i m1 where a: "admit sample_model = Inr (i, m1)"
    by (cases "admit sample_model")
       (auto simp: admit_def sample_model_def new_instance_def Let_def split: prod.splits)
  let ?m2 = "snd (on_handle i (\<lambda>h. ((), mark_running h)) m1)"
  have fresh: "h_token (lm_handles ?m2 i) = None" "live ?m2 i"
    using admit_Inr [OF a] by (simp_all add: mark_running_def new_handle_def new_token_def live_def
        handle_is_terminal_def)
  obtain r m' where v: "verify_embeddings 0 (\<lambda>k m. m) (Inl ''down'') (embed_batch []) sample_model = (r, m')"
    by fastforce
  from embed_settles [OF v] a fresh have "r = Inl (Inference ''down'') \<and> \<not> live m' i \<and> h_state (lm_handles m' i) = Failed"
    by auto
  with v show ?thesis by blast
qed

lemma cancel_all_live: "live m i \<Longrightarrow> live (cancel_all is m) i"
proof (induction "is" arbitrary: m)
  case (Cons j js)
  have "live (snd (on_handle j (request_cancellation InstanceUnloading) m)) i"
    using Cons.prems
    by (auto simp: live_def handle_is_terminal_def request_cancellation_def Let_def split: prod.splits)
  with Cons.IH show ?case by simp
qed simp

lemma drain_untouched:
  assumes "\<And>n m. lm_handles (ue n m) i = lm_handles m i" and "i \<in> set is"
  shows "drain_requests rounds ue n is m = (k, m') \<Longrightarrow> live m i \<Longrightarrow> k > 0 \<and> live m' i"
proof (induction rounds arbitrary: n m)
  case 0
  with unsettled_0 [of "is" m] assms(2) show ?case by auto
next
  case (Suc rounds)
  from Suc.prems(2) assms(2) have "unsettled is m \<noteq> 0" by (auto simp: unsettled_0)
  with Suc assms(1) show ?case by (auto simp: live_def)
qed

text \<open>C24: dropping the future of an embedding or a text request after admission leaves its handle
  open for good: when nothing else settles that request, an unload waits through its whole budget,
  and then, if the worker stops, reports that request among those it had to escalate; it never
  reports that it drained, however much time it is given, and gives up on the request only then.\<close>

theorem dropped_request_escalates:
  assumes "start_request m = Inr (i, m1)" and "unload_within ue m1 = (r, m', left)"
    and "lm_worker m1 = Some rb"
    and "\<And>n m. lm_handles (ue_others ue n m) i = lm_handles m i"
    and "found = filter (live m1) (lm_active m1)"
    and "m2 = elapse (ue_others ue) 0 (ue_rounds ue)
           (cancel_all found (m1\<lparr>lm_phase := Unloading, lm_worker := None\<rparr>))"
  shows "i \<in> set found \<and> live m2 i
    \<and> m' = finish_unload (case r of Inr _ \<Rightarrow> Unloaded | Inl _ \<Rightarrow> UnloadFailed) (ue_stopping ue m2)
    \<and> (case r of
         Inr outcome \<Rightarrow> outcome = Escalated (length found) (length (filter (live m2) found))
       | Inl err \<Rightarrow> True)"
proof -
  obtain m0 where a: "admit m = Inr (i, m0)"
    and m1: "m1 = snd (on_handle i (\<lambda>h. ((), mark_running h)) m0)"
    using start_request_Inr [OF assms(1)] by blast
  from admit_Inr [OF a] have live: "live m1 i" "i \<in> set (lm_active m1)" "lm_phase m1 = Serving"
    by (simp_all add: m1 live_def handle_is_terminal_def mark_running_def new_handle_def)
  then have found: "i \<in> set found" by (simp add: assms(5))
  let ?m2 = "m1\<lparr>lm_phase := Unloading, lm_worker := None\<rparr>"
  obtain k m3 where d: "drain_requests (ue_rounds ue) (ue_others ue) 0 found (cancel_all found ?m2) = (k, m3)"
    by (cases "drain_requests (ue_rounds ue) (ue_others ue) 0 found (cancel_all found ?m2)")
  obtain sr rb' where st: "backend_stop (ue_os ue) rb = (sr, rb')" by (cases "backend_stop (ue_os ue) rb")
  have "live ?m2 i" using live(1) by (simp add: live_def)
  with drain_untouched [OF assms(4) found d cancel_all_live] have k: "k > 0" "live m3 i" by simp_all
  from drain_elapses [OF d] k(1) have m3: "m3 = m2" "k = length (filter (live m2) found)"
    unfolding assms(6) by (auto simp: unsettled_def le_less)
  have "r = (case sr of Inl err \<Rightarrow> Inl (LBackend err) | Inr _ \<Rightarrow> Inr (Escalated (length found) k))"
    "m' = finish_unload (case sr of Inr _ \<Rightarrow> Unloaded | Inl _ \<Rightarrow> UnloadFailed) (ue_stopping ue m3)"
    using assms(2,3) live(3) d st k(1)
    by (auto simp: unload_within_def unload_begin_def Let_def assms(5) split: sum.splits)
  with m3 k(2) found show ?thesis by (cases sr) simp_all
qed

theorem dropped_request_escalates_witness:
  "\<exists>i m1. start_request sample_model = Inr (i, m1)
     \<and> (case fst (unload_within sample_unload m1) of Inr (Drained _) \<Rightarrow> False | _ \<Rightarrow> True)"
proof -
  obtain i m1 where s: "start_request sample_model = Inr (i, m1)"
    by (cases "start_request sample_model")
       (auto simp: start_request_def admit_def sample_model_def new_instance_def Let_def
         split: prod.splits)
  then have "lm_worker m1 = lm_worker sample_model"
    by (auto dest!: start_request_Inr admit_Inr)
  then obtain rb where "lm_worker m1 = Some rb" using sample_model_facts by auto
  moreover obtain r m' left where "unload_within sample_unload m1 = (r, m', left)"
    by (cases "unload_within sample_unload m1")
  ultimately show ?thesis using dropped_request_escalates [OF s, of sample_unload r m' left rb, OF _ _ _ refl refl] s
    by (auto simp: sample_unload_def split: sum.splits unload_outcome.splits)
qed

end
