(* ===== verification/Ledger.thy ===== *)
theory Ledger
  imports Lifecycle
begin

text \<open>
  The runtime's ownership of live models (\<open>mehoy-runtime/src/runtime.rs\<close>) and the limits it holds
  them to (\<open>resources.rs\<close>).

  \<open>runtime_state\<close> is what the ledger lock guards (loads in flight, resident models with what they
  are accounted for, the reservation counter) and the models themselves, which are shared and so
  live in a store by instance identifier. Each operation on the ledger happens under one lock and
  is one function; what others do between two of them is a function \<open>during\<close>, and the limit is
  proved over every interleaving of the locked operations.
\<close>

section \<open>Resources\<close>

definition DEFAULT_RESIDENT_CAPACITY :: nat where
  "DEFAULT_RESIDENT_CAPACITY = 1"

datatype footprint_basis = ContainerSize

fun show_basis :: "footprint_basis \<Rightarrow> string" where
  "show_basis ContainerSize = ''the registered container size''"

record resource_footprint =
  weight_bytes :: u64
  basis :: footprint_basis

definition from_container_size :: "u64 \<Rightarrow> resource_footprint" where
  "from_container_size n = \<lparr>weight_bytes = n, basis = ContainerSize\<rparr>"

definition show_footprint :: "resource_footprint \<Rightarrow> string" where
  "show_footprint f = show_u64 (weight_bytes f) @ '' byte(s) of weights, from '' @ show_basis (basis f)"

record resident_limits =
  max_instances :: nat
  max_weight_bytes :: "u64 option"

definition default_limits :: resident_limits where
  "default_limits = \<lparr>max_instances = DEFAULT_RESIDENT_CAPACITY, max_weight_bytes = None\<rparr>"

definition limits_instances :: "nat \<Rightarrow> resident_limits" where
  "limits_instances n = \<lparr>max_instances = n, max_weight_bytes = None\<rparr>"

definition with_weight_budget :: "u64 \<Rightarrow> resident_limits \<Rightarrow> resident_limits" where
  "with_weight_budget b l = l\<lparr>max_weight_bytes := Some b\<rparr>"

definition show_limits :: "resident_limits \<Rightarrow> string" where
  "show_limits l = ''at most '' @ show_nat (max_instances l) @ '' model(s)''
     @ (case max_weight_bytes l of
          Some b \<Rightarrow> '' and '' @ show_u64 b @ '' byte(s) of weights''
        | None \<Rightarrow> '', with no byte budget'')"

record resident_usage =
  u_instances :: nat
  u_loading :: nat
  u_weight :: u64

definition show_usage :: "resident_usage \<Rightarrow> string" where
  "show_usage u = show_nat (u_instances u) @ '' model(s), '' @ show_nat (u_loading u)
     @ '' still loading, '' @ show_u64 (u_weight u) @ '' byte(s) of weights''"

datatype refusal = RefusedInstances nat | RefusedWeight u64 u64 u64

definition admits :: "resident_limits \<Rightarrow> resident_usage \<Rightarrow> resource_footprint \<Rightarrow> refusal + unit" where
  "admits l committed f =
     (if max_instances l \<le> u_instances committed then Inl (RefusedInstances (max_instances l))
      else case max_weight_bytes l of
        None \<Rightarrow> Inr ()
      | Some limit \<Rightarrow>
          if (case checked_add (u_weight committed) (weight_bytes f) of
                None \<Rightarrow> False | Some tot \<Rightarrow> tot \<le> limit)
          then Inr ()
          else Inl (RefusedWeight (weight_bytes f) (u_weight committed) limit))"

section \<open>Errors\<close>

datatype runtime_error =
  UnknownInstance instance_id
| ResidentCapacityReached nat
| ResourcesExhausted u64 u64 u64
| RInstance load_error
| RCancel cancel_error

definition show_runtime_error ::
    "(duration \<Rightarrow> string) \<Rightarrow> (string \<Rightarrow> string) \<Rightarrow> runtime_error \<Rightarrow> string" where
  "show_runtime_error secs dbg err = (case err of
     UnknownInstance i \<Rightarrow> ''no instance '' @ i @ '' is resident''
   | ResidentCapacityReached n \<Rightarrow> ''this runtime holds at most '' @ show_nat n
       @ '' resident model(s); unload one first''
   | ResourcesExhausted requested committed limit \<Rightarrow>
       if limit < requested then
         ''this model is accounted at '' @ show_u64 requested @ '' byte(s) of weights, more than the whole ''
         @ show_u64 limit
         @ '' byte budget, so it will not fit here however much is unloaded first''
       else
         ''this model is accounted at '' @ show_u64 requested @ '' byte(s) of weights and ''
         @ show_u64 committed @ '' of '' @ show_u64 limit
         @ '' are already committed; unload something first''
   | RInstance e \<Rightarrow> show_load_error secs dbg e
   | RCancel e \<Rightarrow> show_cancel_error e)"

fun from_refusal :: "refusal \<Rightarrow> runtime_error" where
  "from_refusal (RefusedInstances n) = ResidentCapacityReached n"
| "from_refusal (RefusedWeight r c l) = ResourcesExhausted r c l"

section \<open>The ledger\<close>

record ledger =
  ld_pending :: "(u64 \<times> resource_footprint) list"
  ld_resident :: "(instance_id \<times> resource_footprint) list"
  ld_next :: u64

definition empty_ledger :: ledger where
  "empty_ledger = \<lparr>ld_pending = [], ld_resident = [], ld_next = 0\<rparr>"

definition ledger_footprints :: "ledger \<Rightarrow> resource_footprint list" where
  "ledger_footprints l = map snd (ld_pending l) @ map snd (ld_resident l)"

definition usize_add :: "nat \<Rightarrow> nat \<Rightarrow> nat" where
  "usize_add a b = min u64_max (a + b)"

definition committed :: "ledger \<Rightarrow> resident_usage" where
  "committed l = \<lparr>
     u_instances = usize_add (length (ld_pending l)) (length (ld_resident l)),
     u_loading = length (ld_pending l),
     u_weight = foldl (\<lambda>tot f. saturating_add tot (weight_bytes f)) 0 (ledger_footprints l)\<rparr>"

definition allocate_reservation :: "ledger \<Rightarrow> u64 \<times> ledger" where
  "allocate_reservation l = (let n = ld_next l + 1 in (n, l\<lparr>ld_next := n\<rparr>))"

definition reserve ::
    "resident_limits \<Rightarrow> resource_footprint \<Rightarrow> ledger \<Rightarrow> (runtime_error + u64) \<times> ledger" where
  "reserve limits f l = (case admits limits (committed l) f of
     Inl refusal \<Rightarrow> (Inl (from_refusal refusal), l)
   | Inr _ \<Rightarrow> (let (i, l) = allocate_reservation l
              in (Inr i, l\<lparr>ld_pending := hm_insert i f (ld_pending l)\<rparr>)))"

text \<open>\<open>Reserved::drop\<close> of a claim that was not turned into a resident model.\<close>

definition release :: "u64 \<Rightarrow> ledger \<Rightarrow> ledger" where
  "release i l = l\<lparr>ld_pending := hm_remove i (ld_pending l)\<rparr>"

definition fulfil_ledger :: "u64 \<Rightarrow> instance_id \<Rightarrow> ledger \<Rightarrow> (string + instance_id) \<times> ledger" where
  "fulfil_ledger i model l = (case map_of (ld_pending l) i of
     None \<Rightarrow> (Inl ''the reservation this load was admitted under had already been released'', l)
   | Some f \<Rightarrow>
       (let l = l\<lparr>ld_pending := hm_remove i (ld_pending l)\<rparr>
        in case map_of (ld_resident l) model of
             None \<Rightarrow> (Inr model, l\<lparr>ld_resident := hm_insert model f (ld_resident l)\<rparr>)
           | Some _ \<Rightarrow> (Inl (''instance '' @ model @ '' is already resident''), l)))"

definition forget_resident :: "instance_id \<Rightarrow> ledger \<Rightarrow> ledger" where
  "forget_resident i l = l\<lparr>ld_resident := hm_remove i (ld_resident l)\<rparr>"

section \<open>The runtime\<close>

record runtime_state =
  rt_ledger :: ledger
  rt_models :: "instance_id \<Rightarrow> loaded_model"

definition is_resident :: "runtime_state \<Rightarrow> instance_id \<Rightarrow> bool" where
  "is_resident rt i \<longleftrightarrow> map_of (ld_resident (rt_ledger rt)) i \<noteq> None"

definition resident_instances :: "runtime_state \<Rightarrow> instance_id list" where
  "resident_instances rt = map fst (ld_resident (rt_ledger rt))"

definition runtime_usage :: "runtime_state \<Rightarrow> resident_usage" where
  "runtime_usage rt = committed (rt_ledger rt)"

definition runtime_footprint :: "runtime_state \<Rightarrow> instance_id \<Rightarrow> resource_footprint option" where
  "runtime_footprint rt i = map_of (ld_resident (rt_ledger rt)) i"

text \<open>\<open>resolve\<close> followed by a question about the model.\<close>

definition ask_model :: "instance_id \<Rightarrow> (loaded_model \<Rightarrow> 'a) \<Rightarrow> runtime_state \<Rightarrow> 'a option" where
  "ask_model i f rt = (if is_resident rt i then Some (f (rt_models rt i)) else None)"

text \<open>\<open>require\<close> followed by an operation of the model.\<close>

definition on_model ::
    "instance_id \<Rightarrow> (loaded_model \<Rightarrow> (load_error + 'a) \<times> loaded_model) \<Rightarrow> runtime_state \<Rightarrow>
     (runtime_error + 'a) \<times> runtime_state" where
  "on_model i f rt =
     (if \<not> is_resident rt i then (Inl (UnknownInstance i), rt)
      else let (r, m) = f (rt_models rt i)
           in (map_err RInstance r, rt\<lparr>rt_models := (rt_models rt)(i := m)\<rparr>))"

definition runtime_embed where
  "runtime_embed during sent request i rt = on_model i (embed during sent request) rt"

definition runtime_verify_embeddings where
  "runtime_verify_embeddings now during sent request i rt =
     on_model i (verify_embeddings now during sent request) rt"

definition runtime_generate_text where
  "runtime_generate_text show_f32 during sent request i rt =
     on_model i (generate_text show_f32 during sent request) rt"

definition runtime_verify_text_generation where
  "runtime_verify_text_generation now show_f32 during sent request i rt =
     on_model i (verify_text_generation now show_f32 during sent request) rt"

definition runtime_generate_stream where
  "runtime_generate_stream show_f32 request i rt =
     on_model i (\<lambda>m. case generate_stream_within show_f32 request m of
       Inl err \<Rightarrow> (Inl err, m) | Inr (r, g, m') \<Rightarrow> (Inr (r, g), m')) rt"

definition runtime_record_stream where
  "runtime_record_stream now g i rt =
     on_model i (\<lambda>m. case record_generation_stream now g m of (b, m') \<Rightarrow> (Inr b, m')) rt"

definition runtime_cancel ::
    "(nat \<Rightarrow> loaded_model \<Rightarrow> loaded_model) \<Rightarrow> instance_id \<Rightarrow> request_id \<Rightarrow> runtime_state \<Rightarrow>
     (runtime_error + cancel_outcome) \<times> runtime_state" where
  "runtime_cancel between i request rt =
     (if \<not> is_resident rt i then (Inl (UnknownInstance i), rt)
      else let (r, m) = cancel between request (rt_models rt i)
           in (map_err RCancel r, rt\<lparr>rt_models := (rt_models rt)(i := m)\<rparr>))"

definition declared_footprint :: "database \<Rightarrow> artifact_id \<Rightarrow> load_error + resource_footprint" where
  "declared_footprint db a =
     rbind (map_err LRegistry (get_artifact db a)) (\<lambda>found.
     rbind (ok_or found (LUnknownArtifact a)) (\<lambda>record.
       Inr (from_container_size (a_size record))))"

text \<open>
  \<open>load\<close>: size, claim, bring up while others go on, and keep or give back. \<open>ue\<close> is the unload of
  a model the runtime will not take. The last component is what became of the worker.
\<close>

definition runtime_load ::
    "resident_limits \<Rightarrow> load_env \<Rightarrow> string \<Rightarrow> unload_env \<Rightarrow> (runtime_state \<Rightarrow> runtime_state) \<Rightarrow>
     database \<Rightarrow> artifact_id \<Rightarrow> worker_id \<Rightarrow> worker_deadlines \<Rightarrow> key_store \<Rightarrow> runtime_state \<Rightarrow>
     (runtime_error + instance_id) \<times> runtime_state" where
  "runtime_load limits lo exe ue during db a w deadlines ks rt =
     (case declared_footprint db a of
        Inl err \<Rightarrow> (Inl (RInstance err), rt)
      | Inr f \<Rightarrow> (case reserve limits f (rt_ledger rt) of
          (Inl err, l) \<Rightarrow> (Inl err, rt\<lparr>rt_ledger := l\<rparr>)
        | (Inr claim, l) \<Rightarrow>
            (let rt = during (rt\<lparr>rt_ledger := l\<rparr>)
             in case fst (load lo exe db a w deadlines ks) of
                  Inl err \<Rightarrow> (Inl (RInstance err), rt\<lparr>rt_ledger := release claim (rt_ledger rt)\<rparr>)
                | Inr m \<Rightarrow>
                    (case fulfil_ledger claim (mi_id (lm_instance m)) (rt_ledger rt) of
                       (Inr i, l) \<Rightarrow>
                         (Inr i, rt\<lparr>rt_ledger := l, rt_models := (rt_models rt)(i := m)\<rparr>)
                     | (Inl reason, l) \<Rightarrow>
                         (Inl (RInstance (InstanceError (case fst (unload_within ue m) of
                            Inr _ \<Rightarrow> reason
                          | Inl err \<Rightarrow> also_running reason
                              (show_load_error (se_secs (lo_start lo)) (\<lambda>s. s) err)))),
                          rt\<lparr>rt_ledger := l\<rparr>)))))"

text \<open>\<open>unload\<close>: the entry goes only once the model says it is unloaded. \<open>after\<close> is what others
  did between the end of the teardown and the look at the phase.\<close>

definition runtime_unload ::
    "unload_env \<Rightarrow> (runtime_state \<Rightarrow> runtime_state) \<Rightarrow> instance_id \<Rightarrow> runtime_state \<Rightarrow>
     (runtime_error + unload_outcome) \<times> runtime_state" where
  "runtime_unload ue after i rt =
     (if \<not> is_resident rt i then (Inl (UnknownInstance i), rt)
      else
        let (outcome, m, _) = unload_within ue (rt_models rt i);
            rt = after (rt\<lparr>rt_models := (rt_models rt)(i := m)\<rparr>)
        in (map_err RInstance outcome,
            if (case outcome of Inr _ \<Rightarrow> True | Inl _ \<Rightarrow> False) \<and> lm_phase (rt_models rt i) = Unloaded
            then rt\<lparr>rt_ledger := forget_resident i (rt_ledger rt)\<rparr> else rt))"

section \<open>The locked operations as steps\<close>

inductive ledger_step :: "resident_limits \<Rightarrow> ledger \<Rightarrow> ledger \<Rightarrow> bool" for limits where
  step_reserve: "ledger_step limits l (snd (reserve limits f l))"
| step_release: "ledger_step limits l (release i l)"
| step_fulfil: "ledger_step limits l (snd (fulfil_ledger i model l))"
| step_forget: "ledger_step limits l (forget_resident i l)"

inductive_cases ledger_stepE: "ledger_step limits l l'"

text \<open>What is accounted, as numbers that cannot wrap or saturate.\<close>

definition weight_sum :: "('k \<times> resource_footprint) list \<Rightarrow> nat" where
  "weight_sum m = sum_list (map (\<lambda>e. unat (weight_bytes (snd e))) m)"

definition held :: "ledger \<Rightarrow> nat" where
  "held l = length (ld_pending l) + length (ld_resident l)"

definition weighed :: "ledger \<Rightarrow> nat" where
  "weighed l = weight_sum (ld_pending l) + weight_sum (ld_resident l)"

definition within_limits :: "resident_limits \<Rightarrow> ledger \<Rightarrow> bool" where
  "within_limits limits l \<longleftrightarrow> hm_inv (ld_pending l) \<and> hm_inv (ld_resident l)
     \<and> held l \<le> max_instances limits
     \<and> (case max_weight_bytes limits of None \<Rightarrow> True | Some b \<Rightarrow> weighed l \<le> unat b)"

section \<open>Lemmas\<close>

lemma weight_sum_simps [simp]:
  "weight_sum [] = 0" "weight_sum (e # m) = unat (weight_bytes (snd e)) + weight_sum m"
  by (simp_all add: weight_sum_def)

lemma weight_sum_remove_le: "weight_sum (hm_remove k m) \<le> weight_sum m"
  by (induction m) (auto simp: hm_remove_def)

lemma length_remove_le: "length (hm_remove k m) \<le> length m"
  by (simp add: hm_remove_def)

lemma remove_present:
  assumes "map_of m k = Some f"
  shows "Suc (length (hm_remove k m)) \<le> length m"
    and "weight_sum (hm_remove k m) + unat (weight_bytes f) \<le> weight_sum m"
proof -
  have "(k, f) \<in> set m" using assms by (rule map_of_SomeD)
  then show "Suc (length (hm_remove k m)) \<le> length m"
    and "weight_sum (hm_remove k m) + unat (weight_bytes f) \<le> weight_sum m"
  proof (induction m)
    case (Cons e m)
    { case 1
      show ?case
      proof (cases "e = (k, f)")
        case True
        with length_remove_le [of k m] show ?thesis by (simp add: hm_remove_def)
      next
        case False
        with 1 Cons.IH(1) length_remove_le [of k m] show ?thesis by (auto simp: hm_remove_def)
      qed
    next
      case 2
      show ?case
      proof (cases "e = (k, f)")
        case True
        with weight_sum_remove_le [of k m] show ?thesis by (simp add: hm_remove_def)
      next
        case False
        with 2 Cons.IH(2) weight_sum_remove_le [of k m] show ?thesis by (auto simp: hm_remove_def)
      qed }
  qed auto
qed

lemmas hm_inv_remove = hm.inv_remove
lemmas hm_inv_insert = hm.inv_insert

lemma insert_measures:
  "length (hm_insert k f m) \<le> Suc (length m)"
  "weight_sum (hm_insert k f m) \<le> unat (weight_bytes f) + weight_sum m"
  using length_remove_le [of k m] weight_sum_remove_le [of k m] by (simp_all add: hm_insert_def)

lemma unat_fold_weights:
  "unat (foldl (\<lambda>tot f. saturating_add tot (weight_bytes f)) a fs)
    = min u64_max (unat a + sum_list (map (\<lambda>f. unat (weight_bytes f)) fs))"
proof (induction fs arbitrary: a)
  case Nil
  then show ?case using unat_u64_le_max [of a] by simp
next
  case (Cons f fs)
  then show ?case by (simp add: unat_saturating_add)
qed

lemma committed_weight: "unat (u_weight (committed l)) = min u64_max (weighed l)"
  by (simp add: committed_def unat_fold_weights ledger_footprints_def weighed_def weight_sum_def comp_def)

lemma committed_count: "u_instances (committed l) = min u64_max (held l)"
  by (simp add: committed_def usize_add_def held_def)

lemma admits_Inr:
  "admits limits (committed l) f = Inr () \<longleftrightarrow>
     min u64_max (held l) < max_instances limits
     \<and> (case max_weight_bytes limits of None \<Rightarrow> True
        | Some b \<Rightarrow> weighed l + unat (weight_bytes f) \<le> unat b \<or>
            u64_max < weighed l \<and> u64_max + unat (weight_bytes f) \<le> unat b)"
proof (cases "max_weight_bytes limits")
  case None
  then show ?thesis by (auto simp: admits_def committed_count)
next
  case (Some b)
  have fits: "(case checked_add (u_weight (committed l)) (weight_bytes f) of
        None \<Rightarrow> False | Some tot \<Rightarrow> tot \<le> b)
      \<longleftrightarrow> min u64_max (weighed l) + unat (weight_bytes f) \<le> unat b"
    using unat_u64_le_max [of b]
    by (auto simp: checked_add_def word_le_nat_alt unat_add_no_overflow committed_weight)
  with Some show ?thesis by (auto simp: admits_def committed_count min_def)
qed

lemma reserve_cases:
  obtains (refused) refusal where "admits limits (committed l) f = Inl refusal"
      "reserve limits f l = (Inl (from_refusal refusal), l)"
  | (claimed) "admits limits (committed l) f = Inr ()"
      "reserve limits f l = (Inr (ld_next l + 1),
         l\<lparr>ld_next := ld_next l + 1, ld_pending := hm_insert (ld_next l + 1) f (ld_pending l)\<rparr>)"
  by (cases "admits limits (committed l) f") (auto simp: reserve_def allocate_reservation_def Let_def)

lemma fulfil_cases:
  obtains (gone) "map_of (ld_pending l) i = None"
      "fulfil_ledger i model l =
         (Inl ''the reservation this load was admitted under had already been released'', l)"
  | (kept) f where "map_of (ld_pending l) i = Some f" "map_of (ld_resident l) model = None"
      "fulfil_ledger i model l = (Inr model, l\<lparr>ld_pending := hm_remove i (ld_pending l),
         ld_resident := hm_insert model f (ld_resident l)\<rparr>)"
  | (clash) f g where "map_of (ld_pending l) i = Some f" "map_of (ld_resident l) model = Some g"
      "fulfil_ledger i model l = (Inl (''instance '' @ model @ '' is already resident''),
         l\<lparr>ld_pending := hm_remove i (ld_pending l)\<rparr>)"
  by (cases "map_of (ld_pending l) i"; cases "map_of (ld_resident l) model")
    (auto simp: fulfil_ledger_def Let_def)

lemma reserve_within:
  assumes "within_limits limits l" and "max_instances limits \<le> u64_max"
  shows "within_limits limits (snd (reserve limits f l))"
proof (cases rule: reserve_cases [where limits = limits and l = l and f = f])
  case (refused refusal)
  with assms show ?thesis by simp
next
  case claimed
  let ?m = "hm_insert (ld_next l + 1) f (ld_pending l)"
  have room: "held l < max_instances limits"
    using claimed(1) assms by (auto simp: admits_Inr within_limits_def)
  have weight: "case max_weight_bytes limits of None \<Rightarrow> True
      | Some b \<Rightarrow> weighed l + unat (weight_bytes f) \<le> unat b"
    using claimed(1) assms(1) unat_u64_le_max
    by (auto simp: admits_Inr within_limits_def split: option.splits) (meson le_trans not_le)
  have "length ?m \<le> Suc (length (ld_pending l))"
    and "weight_sum ?m \<le> unat (weight_bytes f) + weight_sum (ld_pending l)"
    by (rule insert_measures)+
  with claimed(2) room weight assms(1) show ?thesis
    by (auto simp: within_limits_def held_def weighed_def hm_inv_insert split: option.splits)
qed

lemma shrink_within:
  assumes "within_limits limits l" and "hm_inv (ld_pending l')" and "hm_inv (ld_resident l')"
    and "held l' \<le> held l" and "weighed l' \<le> weighed l"
  shows "within_limits limits l'"
  using assms by (auto simp: within_limits_def split: option.splits)

lemma release_within: "within_limits limits l \<Longrightarrow> within_limits limits (release i l)"
  by (rule shrink_within)
    (auto simp: release_def within_limits_def hm_inv_remove held_def weighed_def length_remove_le
      weight_sum_remove_le)

lemma forget_within: "within_limits limits l \<Longrightarrow> within_limits limits (forget_resident i l)"
  by (rule shrink_within)
    (auto simp: forget_resident_def within_limits_def hm_inv_remove held_def weighed_def length_remove_le
      weight_sum_remove_le)

lemma fulfil_within:
  assumes "within_limits limits l"
  shows "within_limits limits (snd (fulfil_ledger i model l))"
proof (cases rule: fulfil_cases [where l = l and i = i and model = model])
  case gone
  with assms show ?thesis by simp
next
  case (kept f)
  note small = remove_present [OF kept(1)] insert_measures [of model f "ld_resident l"]
  show ?thesis
    by (rule shrink_within [OF assms], unfold kept(3))
      (use small assms in \<open>auto simp: within_limits_def held_def weighed_def hm_inv_remove hm_inv_insert\<close>)
next
  case (clash f g)
  note small = remove_present [OF clash(1)]
  show ?thesis
    by (rule shrink_within [OF assms], unfold clash(3))
      (use small assms in \<open>auto simp: within_limits_def held_def weighed_def hm_inv_remove\<close>)
qed

lemma empty_within: "within_limits limits empty_ledger"
  by (auto simp: within_limits_def empty_ledger_def hm_inv_def held_def weighed_def split: option.splits)

interpretation accounting: preserved "ledger_step limits"
    "\<lambda>l. max_instances limits \<le> u64_max \<longrightarrow> within_limits limits l" for limits
  by unfold_locales
    (auto elim!: ledger_stepE simp: reserve_within release_within fulfil_within forget_within)

lemma steps_within:
  assumes "(ledger_step limits)\<^sup>*\<^sup>* l l'" and "max_instances limits \<le> u64_max" and "within_limits limits l"
  shows "within_limits limits l'"
  using accounting.run.runs [OF assms(1)] assms(2,3) by blast

lemma reported_usage:
  assumes "within_limits limits l" and "max_instances limits \<le> u64_max"
  shows "u_instances (committed l) = held l"
    and "max_weight_bytes limits = Some b \<Longrightarrow> unat (u_weight (committed l)) = weighed l"
  using assms unat_u64_le_max [of b]
  by (auto simp: committed_count committed_weight within_limits_def)

lemma lookup_insert: "map_of (hm_insert k v m) k' = (if k' = k then Some v else map_of m k')"
  by (simp add: hm_insert_def hm_remove_def map_of_filter_key)

lemma lookup_remove: "map_of (hm_remove k m) k' = (if k' = k then None else map_of m k')"
  by (simp add: hm_remove_def map_of_filter_key)

lemma declared_footprint_Inr:
  "declared_footprint db a = Inr f \<longleftrightarrow>
     (\<exists>rec. get_artifact db a = Inr (Some rec) \<and> f = from_container_size (a_size rec))"
  by (cases "get_artifact db a") (auto simp: declared_footprint_def ok_or_def split: option.splits)

lemma fulfil_own_claim:
  assumes "map_of (ld_pending l) c = Some f" and "fulfil_ledger c model l = (r, l')"
  shows "map_of (ld_pending l') = (map_of (ld_pending l))(c := None)
    \<and> (case r of
        Inr i \<Rightarrow> i = model \<and> map_of (ld_resident l) i = None \<and> map_of (ld_resident l') i = Some f
          \<and> (\<forall>j. j \<noteq> i \<longrightarrow> map_of (ld_resident l') j = map_of (ld_resident l) j)
      | Inl _ \<Rightarrow> ld_resident l' = ld_resident l)"
  using assms
  by (cases rule: fulfil_cases [where l = l and i = c and model = model])
    (auto simp: lookup_insert hm_remove_def map_of_filter_key)

text \<open>What a load leaves in the ledger, given that nobody else settles its claim.\<close>

lemma load_serving: "fst (load lo exe db a w deadlines ks) = Inr m \<Longrightarrow> lm_phase m = Serving"
  using load_facts [of lo exe db a w deadlines ks "Inr m"]
  by (cases "load lo exe db a w deadlines ks") auto

definition claimed_state :: "resident_limits \<Rightarrow> resource_footprint \<Rightarrow> runtime_state \<Rightarrow> runtime_state" where
  "claimed_state limits f rt = rt\<lparr>rt_ledger := snd (reserve limits f (rt_ledger rt))\<rparr>"

lemma runtime_load_cases:
  assumes "runtime_load limits lo exe ue during db a w deadlines ks rt = (r, rt')"
  obtains (unknown) e where "r = Inl (RInstance e)" "declared_footprint db a = Inl e" "rt' = rt"
  | (refused) f refusal where "declared_footprint db a = Inr f"
      "admits limits (committed (rt_ledger rt)) f = Inl refusal"
      "r = Inl (from_refusal refusal)" "rt' = rt"
  | (failed) f e rtd where "declared_footprint db a = Inr f"
      "admits limits (committed (rt_ledger rt)) f = Inr ()"
      "rtd = during (claimed_state limits f rt)" "r = Inl (RInstance e)"
      "fst (load lo exe db a w deadlines ks) = Inl e"
      "rt' = rtd\<lparr>rt_ledger := release (ld_next (rt_ledger rt) + 1) (rt_ledger rtd)\<rparr>"
  | (rejected) f m reason e l rtd where "declared_footprint db a = Inr f"
      "admits limits (committed (rt_ledger rt)) f = Inr ()"
      "rtd = during (claimed_state limits f rt)" "r = Inl (RInstance e)"
      "fst (load lo exe db a w deadlines ks) = Inr m"
      "fulfil_ledger (ld_next (rt_ledger rt) + 1) (mi_id (lm_instance m)) (rt_ledger rtd) = (Inl reason, l)"
      "rt' = rtd\<lparr>rt_ledger := l\<rparr>"
  | (kept) f m i l rtd where "declared_footprint db a = Inr f"
      "admits limits (committed (rt_ledger rt)) f = Inr ()"
      "rtd = during (claimed_state limits f rt)" "r = Inr i"
      "fst (load lo exe db a w deadlines ks) = Inr m"
      "fulfil_ledger (ld_next (rt_ledger rt) + 1) (mi_id (lm_instance m)) (rt_ledger rtd) = (Inr i, l)"
      "rt' = rtd\<lparr>rt_ledger := l, rt_models := (rt_models rtd)(i := m)\<rparr>"
proof (cases "declared_footprint db a")
  case (Inl e)
  with assms have "r = Inl (RInstance e)" "rt' = rt" by (simp_all add: runtime_load_def)
  with Inl show ?thesis by (intro unknown)
next
  case f: (Inr f)
  show ?thesis
  proof (cases rule: reserve_cases [where limits = limits and l = "rt_ledger rt" and f = f])
    case 1: (refused refusal)
    with f assms have "r = Inl (from_refusal refusal)" "rt' = rt" by (simp_all add: runtime_load_def)
    with f 1(1) show ?thesis by (intro refused)
  next
    case 1: claimed
    let ?rtd = "during (claimed_state limits f rt)"
    show ?thesis
    proof (cases "fst (load lo exe db a w deadlines ks)")
      case (Inl e)
      with f 1 assms show ?thesis
        by (intro failed [of f ?rtd e]) (auto simp: runtime_load_def claimed_state_def Let_def)
    next
      case m: (Inr m)
      obtain x l where x: "fulfil_ledger (ld_next (rt_ledger rt) + 1) (mi_id (lm_instance m))
          (rt_ledger ?rtd) = (x, l)" by fastforce
      show ?thesis
      proof (cases x)
        case (Inl reason)
        with f 1 m x assms show ?thesis
          by (intro rejected [of f ?rtd _ m reason l]) (auto simp: runtime_load_def claimed_state_def Let_def)
      next
        case (Inr i)
        with f 1 m x assms show ?thesis
          by (intro kept [of f ?rtd i m l]) (auto simp: runtime_load_def claimed_state_def Let_def)
      qed
    qed
  qed
qed

lemma claimed_state_own:
  "admits limits (committed (rt_ledger rt)) f = Inr () \<Longrightarrow>
    map_of (ld_pending (rt_ledger (claimed_state limits f rt))) (ld_next (rt_ledger rt) + 1) = Some f"
  by (simp add: claimed_state_def reserve_def allocate_reservation_def Let_def lookup_insert)

section \<open>Properties\<close>

definition sample_limits :: resident_limits where
  "sample_limits = with_weight_budget 10 (limits_instances 2)"

text \<open>C2: the runtime never holds more than its limits. Whatever order loads claim, give back and
  settle their claims in and models are forgotten in, models and loads in flight together never
  exceed the capacity; with a byte budget the accounted weights never exceed it, and what
  \<open>usage\<close> reports is exact: it neither wraps nor saturates.\<close>

theorem limits_hold:
  assumes "(ledger_step limits)\<^sup>*\<^sup>* empty_ledger l" and "max_instances limits \<le> u64_max"
  shows "u_instances (committed l) = length (ld_pending l) + length (ld_resident l)
    \<and> u_instances (committed l) \<le> max_instances limits
    \<and> (case max_weight_bytes limits of None \<Rightarrow> True
       | Some b \<Rightarrow> unat (u_weight (committed l)) = weighed l \<and> weighed l \<le> unat b)"
proof -
  have w: "within_limits limits l" by (rule steps_within [OF assms empty_within])
  then show ?thesis using reported_usage [OF w assms(2)]
    by (auto simp: within_limits_def held_def split: option.splits)
qed

theorem limits_hold_witness:
  "u_instances (committed (snd (reserve sample_limits (from_container_size 7) empty_ledger))) \<le> 2"
proof -
  have s: "(ledger_step sample_limits)\<^sup>*\<^sup>* empty_ledger
      (snd (reserve sample_limits (from_container_size 7) empty_ledger))"
    by (rule r_into_rtranclp) (rule step_reserve)
  have m: "max_instances sample_limits = 2"
    by (simp add: sample_limits_def with_weight_budget_def limits_instances_def)
  with limits_hold [OF s] show ?thesis by (simp add: u64_max_def)
qed

text \<open>a claim is refused exactly when it would break a limit, for the right reason and without
  touching the ledger: as a full runtime when every place is taken, whatever the size; otherwise
  with the requested, the committed and the permitted bytes when the weights would exceed the
  budget. A claim that is granted is pending with its declared size before any work starts.\<close>

theorem claims_are_exact:
  assumes "within_limits limits l" and "max_instances limits \<le> u64_max"
    and "reserve limits f l = (r, l')"
  shows "(case r of
      Inr c \<Rightarrow> held l < max_instances limits \<and> map_of (ld_pending l') c = Some f
        \<and> ld_resident l' = ld_resident l
        \<and> (case max_weight_bytes limits of None \<Rightarrow> True
           | Some b \<Rightarrow> weighed l + unat (weight_bytes f) \<le> unat b)
    | Inl e \<Rightarrow> l' = l \<and>
        (if held l = max_instances limits then e = ResidentCapacityReached (max_instances limits)
         else (\<exists>b. max_weight_bytes limits = Some b \<and> unat b < weighed l + unat (weight_bytes f)
             \<and> e = ResourcesExhausted (weight_bytes f) (u_weight (committed l)) b)))"
proof (cases rule: reserve_cases [where limits = limits and l = l and f = f])
  case (refused refusal)
  have bound: "weighed l \<le> unat b \<and> unat b \<le> u64_max" if "max_weight_bytes limits = Some b" for b
    using assms(1) that unat_u64_le_max [of b] by (simp add: within_limits_def)
  have not: "\<not> admits limits (committed l) f = Inr ()" using refused(1) by simp
  have le: "held l \<le> max_instances limits" using assms(1) by (simp add: within_limits_def)
  show ?thesis
  proof (cases "held l = max_instances limits")
    case True
    with refused assms(2,3) show ?thesis
      by (auto simp: admits_def committed_count split: if_splits)
  next
    case False
    with le assms(2) have room: "\<not> max_instances limits \<le> u_instances (committed l)"
      by (simp add: committed_count)
    then obtain b where b: "max_weight_bytes limits = Some b"
      and e: "refusal = RefusedWeight (weight_bytes f) (u_weight (committed l)) b"
      using refused(1) by (auto simp: admits_def split: option.splits if_splits)
    from not b room have "unat b < weighed l + unat (weight_bytes f)"
      by (auto simp: admits_Inr committed_count)
    with b e False refused(2) assms(3) show ?thesis by simp
  qed
next
  case claimed
  with assms have "held l < max_instances limits"
    by (auto simp: admits_Inr within_limits_def)
  moreover have "case max_weight_bytes limits of None \<Rightarrow> True
      | Some b \<Rightarrow> weighed l + unat (weight_bytes f) \<le> unat b"
    using claimed(1) assms(1) unat_u64_le_max
    by (auto simp: admits_Inr within_limits_def split: option.splits) (meson le_trans not_le)
  moreover have "map_of (hm_insert (ld_next l + 1) f (ld_pending l)) (ld_next l + 1) = Some f"
    by (simp add: lookup_insert)
  ultimately show ?thesis using claimed(2) assms(3) by auto
qed

theorem claims_are_exact_witness:
  "fst (reserve sample_limits (from_container_size 11) empty_ledger) = Inl (ResourcesExhausted 11 0 10)"
proof -
  obtain r l' where r: "reserve sample_limits (from_container_size 11) empty_ledger = (r, l')" by fastforce
  have m: "max_instances sample_limits = 2" "max_weight_bytes sample_limits = Some 10"
    by (simp_all add: sample_limits_def with_weight_budget_def limits_instances_def)
  have z: "held empty_ledger = 0" "weighed empty_ledger = 0" "u_weight (committed empty_ledger) = 0"
    by (simp_all add: held_def weighed_def empty_ledger_def committed_def ledger_footprints_def)
  from claims_are_exact [OF empty_within _ r] m z r show ?thesis
    by (auto simp: u64_max_def from_container_size_def split: sum.splits)
qed

text \<open>C28: a load gives back what it claimed unless it succeeds. While other operations run during
  it, the limits still hold at its end. A load of an artifact the registry does not have, or one that
  the limits refuse, changes nothing. Any other claims the size the registry declares for the artifact;
  when it fails, the claim is released and everything else is as the others left it; when it succeeds,
  exactly its claim has become a resident model, one that was not resident before, serving, accounted
  at that size, and every other model and claim is as the others left it.\<close>

theorem load_accounts:
  fixes during :: "runtime_state \<Rightarrow> runtime_state"
  assumes "runtime_load limits lo exe ue during db a w deadlines ks rt = (r, rt')"
    and "within_limits limits (rt_ledger rt)" and "max_instances limits \<le> u64_max"
    and "claim = ld_next (rt_ledger rt) + 1"
    and "\<And>s. within_limits limits (rt_ledger s) \<Longrightarrow> within_limits limits (rt_ledger (during s))"
    and "\<And>s. map_of (ld_pending (rt_ledger (during s))) claim = map_of (ld_pending (rt_ledger s)) claim"
  shows "within_limits limits (rt_ledger rt')
    \<and> (case declared_footprint db a of
        Inl e \<Rightarrow> r = Inl (RInstance e) \<and> rt' = rt
      | Inr f \<Rightarrow> (\<exists>rec. get_artifact db a = Inr (Some rec) \<and> f = from_container_size (a_size rec))
          \<and> (case admits limits (committed (rt_ledger rt)) f of
              Inl refusal \<Rightarrow> r = Inl (from_refusal refusal) \<and> rt' = rt
            | Inr _ \<Rightarrow> (\<exists>rtd. rtd = during (claimed_state limits f rt)
                \<and> map_of (ld_pending (rt_ledger rt')) = (map_of (ld_pending (rt_ledger rtd)))(claim := None)
                \<and> (case r of
                    Inl e \<Rightarrow> (\<exists>err. e = RInstance err) \<and> ld_resident (rt_ledger rt') = ld_resident (rt_ledger rtd)
                      \<and> rt_models rt' = rt_models rtd
                  | Inr i \<Rightarrow> (\<exists>m. fst (load lo exe db a w deadlines ks) = Inr m
                      \<and> i = mi_id (lm_instance m) \<and> lm_phase m = Serving \<and> \<not> is_resident rtd i
                      \<and> runtime_footprint rt' = (runtime_footprint rtd)(i := Some f)
                      \<and> rt_models rt' = (rt_models rtd)(i := m))))))"
proof -
  have claimed: "within_limits limits (rt_ledger (during (claimed_state limits f rt)))" for f
    by (rule assms(5)) (simp add: claimed_state_def reserve_within assms(2,3))
  have own: "admits limits (committed (rt_ledger rt)) f = Inr () \<Longrightarrow>
      map_of (ld_pending (rt_ledger (during (claimed_state limits f rt)))) claim = Some f" for f
    unfolding assms(6) using claimed_state_own assms(4) by simp
  from assms(1) show ?thesis
  proof (cases rule: runtime_load_cases)
    case (unknown e)
    with assms(2) show ?thesis by simp
  next
    case (refused f refusal)
    with assms(2) iffD1 [OF declared_footprint_Inr refused(1)] show ?thesis by simp
  next
    case (failed f e rtd)
    have "within_limits limits (rt_ledger rt')"
      using failed(3,6) claimed [of f] by (simp add: release_within)
    moreover have "map_of (ld_pending (rt_ledger rt')) = (map_of (ld_pending (rt_ledger rtd)))(claim := None)"
      by (simp add: failed(6) release_def hm_remove_def map_of_filter_key assms(4))
    ultimately show ?thesis using failed iffD1 [OF declared_footprint_Inr failed(1)] by (simp add: release_def)
  next
    case (rejected f m reason e l rtd)
    have "within_limits limits l"
      using rejected(3,6) claimed [of f] fulfil_within by (metis snd_conv)
    moreover have o: "map_of (ld_pending (rt_ledger rtd)) (ld_next (rt_ledger rt) + 1) = Some f"
      using own [OF rejected(2)] rejected(3) assms(4) by simp
    ultimately show ?thesis
      using fulfil_own_claim [OF o rejected(6)] rejected assms(4)
        iffD1 [OF declared_footprint_Inr rejected(1)] by simp
  next
    case (kept f m i l rtd)
    have w: "within_limits limits l"
      using kept(3,6) claimed [of f] fulfil_within by (metis snd_conv)
    have o: "map_of (ld_pending (rt_ledger rtd)) (ld_next (rt_ledger rt) + 1) = Some f"
      using own [OF kept(2)] kept(3) assms(4) by simp
    note c = fulfil_own_claim [OF o kept(6)]
    then have "runtime_footprint rt' = (runtime_footprint rtd)(i := Some f)" "\<not> is_resident rtd i"
      by (auto simp: kept(7) runtime_footprint_def is_resident_def fun_eq_iff)
    with w c kept load_serving [OF kept(5)] assms(4) iffD1 [OF declared_footprint_Inr kept(1)] show ?thesis
      by simp
  qed
qed

theorem load_accounts_witness:
  "fst (runtime_load sample_limits \<lparr>lo_start = sample_start, lo_fault = None, lo_random = Inr [],
      lo_files = \<lambda>_. None\<rparr> ''llama-server'' sample_unload (\<lambda>s. s) empty_database ''x'' (WorkerId 1)
      default_deadlines sample_store \<lparr>rt_ledger = empty_ledger, rt_models = \<lambda>_. sample_model\<rparr>)
    = Inl (RInstance (LUnknownArtifact ''x''))
   \<and> within_limits sample_limits (rt_ledger (snd (runtime_load sample_limits \<lparr>lo_start = sample_start,
      lo_fault = None, lo_random = Inr [], lo_files = \<lambda>_. None\<rparr> ''llama-server'' sample_unload (\<lambda>s. s)
      empty_database ''x'' (WorkerId 1) default_deadlines sample_store
      \<lparr>rt_ledger = empty_ledger, rt_models = \<lambda>_. sample_model\<rparr>)))"
proof -
  let ?rt = "\<lparr>rt_ledger = empty_ledger, rt_models = \<lambda>_. sample_model\<rparr>"
  let ?lo = "\<lparr>lo_start = sample_start, lo_fault = None, lo_random = Inr [], lo_files = \<lambda>_. None\<rparr>"
  obtain r rt' where l: "runtime_load sample_limits ?lo ''llama-server'' sample_unload (\<lambda>s. s)
      empty_database ''x'' (WorkerId 1) default_deadlines sample_store ?rt = (r, rt')" by fastforce
  have "declared_footprint empty_database ''x'' = Inl (LUnknownArtifact ''x'')"
    by (simp add: declared_footprint_def get_artifact_def query_optional_def empty_database_def)
  then have "r = Inl (RInstance (LUnknownArtifact ''x''))" using l by (auto simp: runtime_load_def)
  moreover have "max_instances sample_limits \<le> u64_max"
    by (simp add: sample_limits_def with_weight_budget_def limits_instances_def u64_max_def)
  ultimately show ?thesis using load_accounts [OF l _ _ refl] l empty_within by simp
qed

text \<open>a model is forgotten exactly when it has been unloaded. An identifier that is not resident
  is refused and changes nothing. When unloading succeeds the backend's process has ended and the
  model and what it was accounted for are gone together, and nobody else's entry is touched; when it
  fails the model stays resident and accounted for, marked as failed, so that its memory is not
  given away while its worker may still run.\<close>

theorem unload_accounts:
  assumes "runtime_unload ue after i rt = (r, rt')"
    and "is_resident rt i \<Longrightarrow> lm_phase (rt_models rt i) = Serving \<and>
      (\<exists>rb. lm_worker (rt_models rt i) = Some rb \<and> machine_ok (rb_handle rb))"
    and "\<And>n m. others m (ue_others ue n m)" and "\<And>m. others m (ue_stopping ue m)"
    and "\<And>s. rt_models (after s) i = rt_models s i \<and> runtime_footprint (after s) i = runtime_footprint s i"
  shows "if is_resident rt i then
      (case r of
         Inr outcome \<Rightarrow> \<not> is_resident rt' i \<and> lm_phase (rt_models rt' i) = Unloaded
           \<and> (\<exists>rb. snd (snd (unload_within ue (rt_models rt i))) = Some rb \<and> gone (rb_handle rb))
       | Inl e \<Rightarrow> (\<exists>err. e = RInstance err) \<and> runtime_footprint rt' i = runtime_footprint rt i
           \<and> lm_phase (rt_models rt' i) = UnloadFailed)
      \<and> (\<forall>j. j \<noteq> i \<longrightarrow> runtime_footprint rt' j = runtime_footprint (after
            (rt\<lparr>rt_models := (rt_models rt)(i := fst (snd (unload_within ue (rt_models rt i))))\<rparr>)) j)
    else r = Inl (UnknownInstance i) \<and> rt' = rt"
proof (cases "is_resident rt i")
  case False
  with assms(1) show ?thesis by (simp add: runtime_unload_def)
next
  case True
  then obtain rb where s: "lm_phase (rt_models rt i) = Serving" "lm_worker (rt_models rt i) = Some rb"
    "machine_ok (rb_handle rb)" using assms(2) by blast
  obtain ur m left where u: "unload_within ue (rt_models rt i) = (ur, m, left)"
    by (cases "unload_within ue (rt_models rt i)") auto
  note facts = unload_within_facts [OF u s assms(3,4)]
  let ?s = "rt\<lparr>rt_models := (rt_models rt)(i := m)\<rparr>"
  have m: "rt_models (after ?s) i = m" and f: "runtime_footprint (after ?s) i = runtime_footprint rt i"
    using assms(5) [of ?s] by (simp_all add: runtime_footprint_def)
  show ?thesis
  proof (cases ur)
    case (Inl err)
    with assms(1) True u have "r = Inl (RInstance err)" "rt' = after ?s"
      by (auto simp: runtime_unload_def Let_def)
    with True facts Inl m f u show ?thesis by auto
  next
    case (Inr outcome)
    with facts have p: "lm_phase m = Unloaded" "\<exists>rb'. left = Some rb' \<and> gone (rb_handle rb')" by auto
    with assms(1) True u Inr m have r: "r = Inr outcome"
      "rt' = (after ?s)\<lparr>rt_ledger := forget_resident i (rt_ledger (after ?s))\<rparr>"
      by (auto simp: runtime_unload_def Let_def)
    have "runtime_footprint rt' j = runtime_footprint (after ?s) j" if "j \<noteq> i" for j
      using that by (simp add: r runtime_footprint_def forget_resident_def lookup_remove)
    moreover have "\<not> is_resident rt' i"
      by (simp add: r is_resident_def forget_resident_def lookup_remove)
    moreover have "rt_models rt' i = m" using m r by simp
    ultimately show ?thesis using True r p u by auto
  qed
qed

definition sample_runtime :: runtime_state where
  "sample_runtime = \<lparr>rt_ledger = \<lparr>ld_pending = [], ld_resident = [(''i'', from_container_size 7)], ld_next = 1\<rparr>,
     rt_models = \<lambda>_. sample_model\<rparr>"

theorem unload_accounts_witness:
  "is_resident sample_runtime ''i''
   \<and> \<not> is_resident (snd (runtime_unload sample_unload (\<lambda>s. s) ''i'' sample_runtime)) ''i''"
proof -
  obtain r rt' where u: "runtime_unload sample_unload (\<lambda>s. s) ''i'' sample_runtime = (r, rt')" by fastforce
  obtain outcome m left where m: "unload_within sample_unload sample_model = (Inr outcome, m, left)"
    using sample_unload_succeeds by blast
  have here: "is_resident sample_runtime ''i''" "rt_models sample_runtime ''i'' = sample_model"
    by (simp_all add: is_resident_def sample_runtime_def)
  with u m have "r = Inr outcome" by (auto simp: runtime_unload_def Let_def)
  moreover have "lm_phase sample_model = Serving \<and>
      (\<exists>rb. lm_worker sample_model = Some rb \<and> machine_ok (rb_handle rb))"
    using sample_model_facts by simp
  ultimately show ?thesis using unload_accounts [OF u] here u by (auto simp: sample_unload_def)
qed

end
