(* ===== verification/Generate.thy ===== *)
theory Generate
  imports Sse Stream Backend
begin

text \<open>
  The adapters that speak the engine's HTTP (\<open>mehoy-backend-llama/src/generate.rs\<close> and
  \<open>embed.rs\<close>): the wire requests, how an answer is classified, the whole-response calls, and
  the task that carries out one streaming generation.

  HTTP and JSON are other people's code: \<open>wire\<close> holds the JSON encoder and decoders, and a
  \<open>peer\<close> says how the connection, the handshake, the request and its body went. In the task every
  wait is a \<open>waited\<close>: what others did to the request and its stream meanwhile, what they did
  between the expiry of the budget and the cancellation it causes, and how the work ended, \<open>None\<close>
  when the budget ran out. The task owns the sink; its text goes through the bounded channel
  of \<open>Stream\<close>, so handing over text may have to wait for the reader.
\<close>

section \<open>The wire\<close>

definition COMPLETIONS_PATH :: string where
  "COMPLETIONS_PATH = ''/v1/completions''"

definition EMBEDDINGS_PATH :: string where
  "EMBEDDINGS_PATH = ''/v1/embeddings''"

definition GENERATE_BUDGET :: duration where
  "GENERATE_BUDGET = seconds 300"

definition EMBED_BUDGET :: duration where
  "EMBED_BUDGET = seconds 60"

text \<open>Both adapters have their own error type with the same five cases.\<close>

datatype adapter_error =
  NotSupported string
| Unauthorised u16
| AdapterRejected u16 string
| MalformedResponse string
| AdapterTransport string

fun show_generate_error :: "adapter_error \<Rightarrow> string" where
  "show_generate_error (NotSupported d) = ''the backend does not generate text as started: '' @ d"
| "show_generate_error (Unauthorised s) =
     ''the backend refused the runtime's credential ('' @ show_nat (unat s) @ '')''"
| "show_generate_error (AdapterRejected s d) =
     ''the backend rejected the request ('' @ show_nat (unat s) @ ''): '' @ d"
| "show_generate_error (MalformedResponse d) =
     ''the backend's generation response was not usable: '' @ d"
| "show_generate_error (AdapterTransport d) = ''the generation request failed: '' @ d"

fun show_embed_error :: "adapter_error \<Rightarrow> string" where
  "show_embed_error (NotSupported d) = ''the backend does not serve embeddings as started: '' @ d"
| "show_embed_error (Unauthorised s) =
     ''the backend refused the runtime's credential ('' @ show_nat (unat s) @ '')''"
| "show_embed_error (AdapterRejected s d) =
     ''the backend rejected the request ('' @ show_nat (unat s) @ ''): '' @ d"
| "show_embed_error (MalformedResponse d) =
     ''the backend's embedding response was not usable: '' @ d"
| "show_embed_error (AdapterTransport d) = ''the embedding request failed: '' @ d"

record wire_request =
  wq_prompt :: string
  wq_n_predict :: "u32 option"
  wq_temperature :: "f32 option"
  wq_seed :: "u64 option"
  wq_stop :: "string list"
  wq_stream :: bool

datatype json_value =
  JText string | JU32 u32 | JF32 f32 | JU64 u64 | JTexts "string list" | JBool bool

text \<open>The fields that are written: everything unset is left out.\<close>

definition wire_fields :: "wire_request \<Rightarrow> (string \<times> json_value) list" where
  "wire_fields q =
     [(''prompt'', JText (wq_prompt q))]
     @ (case wq_n_predict q of None \<Rightarrow> [] | Some n \<Rightarrow> [(''n_predict'', JU32 n)])
     @ (case wq_temperature q of None \<Rightarrow> [] | Some t \<Rightarrow> [(''temperature'', JF32 t)])
     @ (case wq_seed q of None \<Rightarrow> [] | Some s \<Rightarrow> [(''seed'', JU64 s)])
     @ (if wq_stop q = [] then [] else [(''stop'', JTexts (wq_stop q))])
     @ (if \<not> wq_stream q then [] else [(''stream'', JBool True)])"

definition wire_of :: "bool \<Rightarrow> generate_text_request \<Rightarrow> wire_request" where
  "wire_of streaming r = \<lparr>
     wq_prompt = text_input_as_str (gt_input r),
     wq_n_predict = max_output_tokens (gt_parameters r),
     wq_temperature = temperature (gt_parameters r),
     wq_seed = seed (gt_parameters r),
     wq_stop = stop (gt_parameters r),
     wq_stream = streaming\<rparr>"

record wire_choice =
  wc_text :: string
  wc_finish_reason :: "string option"

record wire_usage =
  wu_prompt_tokens :: u64
  wu_completion_tokens :: u64

record wire_response =
  wr_choices :: "wire_choice list"
  wr_usage :: "wire_usage option"

record wire_embedding =
  we_index :: nat
  we_embedding :: "f32 list"

record wire =
  wi_encode :: "(string \<times> json_value) list \<Rightarrow> string + u8 list"
  wi_response :: "u8 list \<Rightarrow> string + wire_response"
  wi_embeddings :: "u8 list \<Rightarrow> string + wire_embedding list"
  wi_error :: "u8 list \<Rightarrow> (string \<times> string) option"
  wi_lossy :: "u8 list \<Rightarrow> string"

fun finish_reason_for :: "string option \<Rightarrow> finish_reason" where
  "finish_reason_for (Some reason) =
     (if reason = ''stop'' then Stop else if reason = ''length'' then Length else Other reason)"
| "finish_reason_for None = Other ''unreported''"

definition usage_of :: "wire_usage \<Rightarrow> generation_usage" where
  "usage_of u = \<lparr>input_tokens = wu_prompt_tokens u, output_tokens = wu_completion_tokens u\<rparr>"

definition classify :: "wire \<Rightarrow> u16 \<Rightarrow> u8 list \<Rightarrow> adapter_error" where
  "classify w status bs =
     (let (message, kind) = (case wi_error w bs of None \<Rightarrow> (wi_lossy w bs, []) | Some body \<Rightarrow> body)
      in if status = 401 \<or> status = 403 then Unauthorised status
         else if status = 501 then NotSupported message
         else if kind = ''not_supported_error'' then NotSupported message
         else AdapterRejected status message)"

section \<open>Whole responses\<close>

record http_request =
  hr_method :: string
  hr_uri :: string
  hr_headers :: "(string \<times> string) list"
  hr_body :: "u8 list"

definition post_request :: "string \<Rightarrow> (string \<times> string) list \<Rightarrow> string \<Rightarrow> string \<Rightarrow> u8 list \<Rightarrow> http_request" where
  "post_request uri extra host secret body = \<lparr>
     hr_method = ''POST'', hr_uri = uri,
     hr_headers = [(''host'', host), (''content-type'', ''application/json'')] @ extra
       @ [(''authorization'', ''Bearer '' @ secret)],
     hr_body = body\<rparr>"

record peer =
  pe_connect :: "string + unit"
  pe_handshake :: "string + unit"
  pe_build :: "http_request \<Rightarrow> string + unit"
  pe_send :: "http_request \<Rightarrow> string + u16"
  pe_collect :: "string + u8 list"

definition post :: "peer \<Rightarrow> http_request \<Rightarrow> adapter_error + (u16 \<times> u8 list)" where
  "post p q = map_err AdapterTransport
     (rbind (pe_connect p) (\<lambda>_.
      rbind (pe_handshake p) (\<lambda>_.
      rbind (pe_build p q) (\<lambda>_.
      rbind (pe_send p q) (\<lambda>status.
      rbind (pe_collect p) (\<lambda>bs. Inr (status, bs)))))))"

definition completion_post :: "backend_channel \<Rightarrow> u8 list \<Rightarrow> http_request" where
  "completion_post c = post_request COMPLETIONS_PATH [] (channel_host c) (expose (ch_secret c))"

definition embedding_post :: "backend_channel \<Rightarrow> u8 list \<Rightarrow> http_request" where
  "embedding_post c = post_request EMBEDDINGS_PATH [] (channel_host c) (expose (ch_secret c))"

definition no_response :: "duration \<Rightarrow> adapter_error" where
  "no_response budget = AdapterTransport (''no response within '' @ show_nat (budget div seconds 1) @ ''s'')"

definition first_choice :: "wire_response \<Rightarrow> adapter_error + wire_choice" where
  "first_choice wr = (case wr_choices wr of
     [] \<Rightarrow> Inl (MalformedResponse ''the response contained no choices'')
   | c # _ \<Rightarrow> Inr c)"

text \<open>\<open>in_time\<close> says whether the exchange ended within the budget.\<close>

definition generate :: "wire \<Rightarrow> bool \<Rightarrow> peer \<Rightarrow> backend_channel \<Rightarrow> generate_text_request \<Rightarrow>
    adapter_error + generation_result" where
  "generate w in_time p c request =
     rbind (map_err (\<lambda>err. MalformedResponse (''cannot encode the request: '' @ err))
       (wi_encode w (wire_fields (wire_of False request)))) (\<lambda>body.
     rbind (if in_time then post p (completion_post c body) else Inl (no_response GENERATE_BUDGET))
       (\<lambda>(status, bs).
     if \<not> is_success status then Inl (classify w status bs)
     else rbind (map_err MalformedResponse (wi_response w bs)) (\<lambda>wr.
     rbind (first_choice wr) (\<lambda>choice.
       Inr \<lparr>g_text = wc_text choice,
            g_finish_reason = finish_reason_for (wc_finish_reason choice),
            g_usage = map_option usage_of (wr_usage wr)\<rparr>))))"

text \<open>\<open>embed.rs\<close> has an exchange and a classification of its own.\<close>

definition embed_exchange :: "peer \<Rightarrow> backend_channel \<Rightarrow> u8 list \<Rightarrow> adapter_error + (u16 \<times> u8 list)" where
  "embed_exchange p c body = map_err AdapterTransport
     (rbind (pe_connect p) (\<lambda>_.
      rbind (pe_handshake p) (\<lambda>_.
      rbind (pe_build p (embedding_post c body)) (\<lambda>_.
      rbind (pe_send p (embedding_post c body)) (\<lambda>status.
      rbind (pe_collect p) (\<lambda>bs. Inr (status, bs)))))))"

definition embed_classify :: "wire \<Rightarrow> u16 \<Rightarrow> u8 list \<Rightarrow> adapter_error" where
  "embed_classify w status bs =
     (let (message, kind) = (case wi_error w bs of None \<Rightarrow> (wi_lossy w bs, []) | Some body \<Rightarrow> body)
      in if status = 401 \<or> status = 403 then Unauthorised status
         else if status = 501 \<or> kind = ''not_supported_error'' then NotSupported message
         else AdapterRejected status message)"

lemma embed_as_generate:
  "embed_exchange p c body = post p (embedding_post c body)" "embed_classify = classify"
  by (auto simp: embed_exchange_def post_def embed_classify_def classify_def fun_eq_iff split: prod.splits)

definition embed_inputs :: "wire \<Rightarrow> bool \<Rightarrow> peer \<Rightarrow> backend_channel \<Rightarrow> embed_request \<Rightarrow>
    adapter_error + embedding_result" where
  "embed_inputs w in_time p c request =
     rbind (map_err (\<lambda>err. MalformedResponse (''cannot encode the request: '' @ err))
       (wi_encode w [(''input'', JTexts (inputs request))])) (\<lambda>body.
     rbind (if in_time then embed_exchange p c body else Inl (no_response EMBED_BUDGET))
       (\<lambda>(status, bs).
     if \<not> is_success status then Inl (embed_classify w status bs)
     else rbind (map_err MalformedResponse (wi_embeddings w bs)) (\<lambda>items.
       Inr (map (\<lambda>item. \<lparr>e_index = we_index item, e_vector = we_embedding item\<rparr>) items))))"

section \<open>Waiting\<close>

datatype 'a waited =
  Waited (others_did: "generation \<Rightarrow> generation") (late: "generation \<Rightarrow> generation") (ended: "'a option")

text \<open>The budget ran out: silence is a cancellation, and whoever cancelled first is the cause.\<close>

definition idle_out :: "generation \<Rightarrow> cancellation_cause \<times> generation" where
  "idle_out g =
     (let h = snd (handle_token_cancel StreamIdleTimeout (gn_handle g))
      in ((case h_token h of Some c \<Rightarrow> c | None \<Rightarrow> StreamIdleTimeout), g\<lparr>gn_handle := h\<rparr>))"

definition await :: "'a waited \<Rightarrow> generation \<Rightarrow> (cancellation_cause + 'a) \<times> generation" where
  "await w g =
     (let g = others_did w g
      in case h_token (gn_handle g) of
           Some cause \<Rightarrow> (Inl cause, g)
         | None \<Rightarrow>
             if \<not> gn_receiver g then (Inl ConsumerGone, g)
             else case ended w of
               Some v \<Rightarrow> (Inr v, g)
             | None \<Rightarrow> (let (cause, g) = idle_out (late w g) in (Inl cause, g)))"

section \<open>Reading the response\<close>

definition DONE_MARKER :: string where
  "DONE_MARKER = ''[DONE]''"

datatype interruption = Interrupted cancellation_cause | Broke generation_stream_error

datatype end_of_body = Marked | BodyClosed

text \<open>The first \<open>n\<close> characters of a text: a character is its first byte and its continuation bytes.\<close>

fun take_chars :: "nat \<Rightarrow> string \<Rightarrow> string" where
  "take_chars n [] = []"
| "take_chars n (c # cs) =
     (if 128 \<le> (of_char c :: nat) \<and> (of_char c :: nat) < 192 then c # take_chars n cs
      else case n of 0 \<Rightarrow> [] | Suc k \<Rightarrow> c # take_chars k cs)"

definition describe_event :: "string \<Rightarrow> string \<Rightarrow> string" where
  "describe_event err payload =
     (let excerpt = take_chars 120 payload
      in err @ '', in: '' @ excerpt @ (if length excerpt < length payload then ''...'' else []))"

text \<open>Handing text to the reader: \<open>room\<close> is what others do while the task waits for room, and
  \<open>None\<close> that there is still none.\<close>

definition hand_over :: "(generation \<Rightarrow> generation) \<Rightarrow> string \<Rightarrow> generation \<Rightarrow> (bool \<times> generation) option" where
  "hand_over room t g = (case sink_delta t g of Some r \<Rightarrow> Some r | None \<Rightarrow> sink_delta t (room g))"

definition note_terminal :: "wire_response \<Rightarrow> wire_choice \<Rightarrow> generation_summary option \<Rightarrow> generation_summary option" where
  "note_terminal wr c terminal = (case wc_finish_reason c of
     None \<Rightarrow> terminal
   | Some reported \<Rightarrow> Some \<lparr>s_finish_reason = finish_reason_for (Some reported),
                            s_usage = map_option usage_of (wr_usage wr)\<rparr>)"

text \<open>The events of one chunk: \<open>None\<close> while waiting for room, otherwise why the body loop ends,
  if it does.\<close>

fun take_payloads :: "wire \<Rightarrow> (generation \<Rightarrow> generation) \<Rightarrow> string list \<Rightarrow>
    generation_summary option \<times> generation \<Rightarrow>
    ((interruption + end_of_body) option \<times> generation_summary option \<times> generation) option" where
  "take_payloads w room [] (terminal, g) = Some (None, terminal, g)"
| "take_payloads w room (payload # payloads) (terminal, g) =
     (if trim payload = DONE_MARKER then Some (Some (Inr Marked), terminal, g)
      else case wi_response w (bytes_of payload) of
        Inl err \<Rightarrow> Some (Some (Inl (Broke (MalformedEvent (describe_event err payload)))), terminal, g)
      | Inr wr \<Rightarrow> (case wr_choices wr of
          [] \<Rightarrow> take_payloads w room payloads (terminal, g)
        | c # _ \<Rightarrow>
            (let terminal = note_terminal wr c terminal
             in case hand_over room (wc_text c) g of
                  None \<Rightarrow> None
                | Some (False, g) \<Rightarrow> Some (Some (Inl (Interrupted ConsumerGone)), terminal, g)
                | Some (True, g) \<Rightarrow> take_payloads w room payloads (terminal, g))))"

datatype frame = Data "u8 list" | Trailers

type_synonym body_event = "(string + frame) option"

fun read_body :: "wire \<Rightarrow> (u8 list \<Rightarrow> string) \<Rightarrow> (generation \<Rightarrow> generation) \<Rightarrow> body_event waited list \<Rightarrow>
    sse_decoder \<Rightarrow> generation_summary option \<Rightarrow> generation \<Rightarrow>
    ((interruption + end_of_body) \<times> sse_decoder \<times> generation_summary option \<times> generation) option" where
  "read_body w su room [] d terminal g = None"
| "read_body w su room (wait # waits) d terminal g =
     (case await wait g of
        (Inl cause, g) \<Rightarrow> Some (Inl (Interrupted cause), d, terminal, g)
      | (Inr None, g) \<Rightarrow> Some (Inr BodyClosed, d, terminal, g)
      | (Inr (Some (Inl err)), g) \<Rightarrow> Some (Inl (Broke (Transport err)), d, terminal, g)
      | (Inr (Some (Inr Trailers)), g) \<Rightarrow> read_body w su room waits d terminal g
      | (Inr (Some (Inr (Data chunk))), g) \<Rightarrow>
          (case push su chunk d of
             Inl detail \<Rightarrow> Some (Inl (Broke (MalformedEvent detail)), d, terminal, g)
           | Inr (payloads, d) \<Rightarrow>
               (case take_payloads w room payloads (terminal, g) of
                  None \<Rightarrow> None
                | Some (Some outcome, terminal, g) \<Rightarrow> Some (outcome, d, terminal, g)
                | Some (None, terminal, g) \<Rightarrow> read_body w su room waits d terminal g)))"

definition end_detail :: "end_of_body \<Rightarrow> sse_decoder \<Rightarrow> string" where
  "end_detail e d = (case e of
     Marked \<Rightarrow> ''the backend ended the stream without reporting why generation stopped''
   | BodyClosed \<Rightarrow>
       if has_partial_event d then ''the backend closed the connection part way through an event''
       else ''the backend closed the connection before completing'')"

definition conclude :: "interruption + end_of_body \<Rightarrow> sse_decoder \<Rightarrow> generation_summary option \<Rightarrow>
    generation \<Rightarrow> generation" where
  "conclude outcome d terminal g = (case outcome of
     Inl (Interrupted cause) \<Rightarrow> sink_cancel cause g
   | Inl (Broke err) \<Rightarrow> sink_fail err g
   | Inr e \<Rightarrow> (case terminal of
       Some summary \<Rightarrow> sink_complete summary g
     | None \<Rightarrow> sink_fail (UnexpectedEnd (end_detail e d)) g))"

definition read_response :: "wire \<Rightarrow> (u8 list \<Rightarrow> string) \<Rightarrow> (generation \<Rightarrow> generation) \<Rightarrow>
    body_event waited list \<Rightarrow> generation \<Rightarrow> generation option" where
  "read_response w su room waits g =
     map_option (\<lambda>(outcome, d, terminal, g). conclude outcome d terminal g)
       (read_body w su room waits new_decoder None g)"

section \<open>One streaming generation\<close>

record job =
  jb_host :: string
  jb_secret :: string
  jb_body :: "string + u8 list"

record stream_peer =
  sp_connect :: "(string + unit) waited"
  sp_handshake :: "(string + unit) waited"
  sp_build :: "http_request \<Rightarrow> string + unit"
  sp_send :: "http_request \<Rightarrow> (string + u16) waited"
  sp_collect :: "(string + u8 list) waited"
  sp_frames :: "body_event waited list"
  sp_room :: "generation \<Rightarrow> generation"

definition stream_request :: "job \<Rightarrow> u8 list \<Rightarrow> http_request" where
  "stream_request j body = post_request COMPLETIONS_PATH [(''accept'', ''text/event-stream'')]
     (jb_host j) (jb_secret j) body"

text \<open>\<open>within\<close> as \<open>execute\<close> uses it: a cancelled wait ends the sink, a failed one too.\<close>

definition step_of :: "(string + 'a) waited \<Rightarrow> generation \<Rightarrow> ('a \<Rightarrow> generation \<Rightarrow> generation option) \<Rightarrow>
    generation option" where
  "step_of w g continue = (case await w g of
     (Inl cause, g) \<Rightarrow> Some (sink_cancel cause g)
   | (Inr (Inl err), g) \<Rightarrow> Some (sink_fail (Transport err) g)
   | (Inr (Inr v), g) \<Rightarrow> continue v g)"

definition refuse :: "wire \<Rightarrow> u16 \<Rightarrow> (string + u8 list) waited \<Rightarrow> generation \<Rightarrow> generation" where
  "refuse w status wait g = (case await wait g of
     (Inl cause, g) \<Rightarrow> sink_cancel cause g
   | (Inr (Inl err), g) \<Rightarrow> sink_fail (Refused err) g
   | (Inr (Inr bs), g) \<Rightarrow> sink_fail (Refused (show_generate_error (classify w status bs))) g)"

definition answered :: "wire \<Rightarrow> (u8 list \<Rightarrow> string) \<Rightarrow> stream_peer \<Rightarrow> u16 \<Rightarrow> generation \<Rightarrow>
    generation option" where
  "answered w su p status g =
     (let g = g\<lparr>gn_handle := mark_running (gn_handle g)\<rparr>
      in if \<not> is_success status then Some (refuse w status (sp_collect p) g)
         else read_response w su (sp_room p) (sp_frames p) g)"

definition send_job :: "wire \<Rightarrow> (u8 list \<Rightarrow> string) \<Rightarrow> stream_peer \<Rightarrow> http_request \<Rightarrow> generation \<Rightarrow>
    generation option" where
  "send_job w su p q g = (case sp_build p q of
     Inl err \<Rightarrow> Some (sink_fail (Transport err) g)
   | Inr _ \<Rightarrow> step_of (sp_send p q) g (answered w su p))"

definition execute :: "wire \<Rightarrow> (u8 list \<Rightarrow> string) \<Rightarrow> stream_peer \<Rightarrow> job \<Rightarrow> generation \<Rightarrow> generation option" where
  "execute w su p j g = (case jb_body j of
     Inl detail \<Rightarrow> Some (sink_fail (Transport detail) g)
   | Inr body \<Rightarrow>
       step_of (sp_connect p) g (\<lambda>_ g.
       step_of (sp_handshake p) g (\<lambda>_. send_job w su p (stream_request j body))))"

definition start_generation :: "wire \<Rightarrow> backend_channel \<Rightarrow> generate_text_request \<Rightarrow> request_handle \<Rightarrow>
    job \<times> generation" where
  "start_generation w c request h =
     (\<lparr>jb_host = channel_host c, jb_secret = expose (ch_secret c),
       jb_body = map_err (\<lambda>err. ''cannot encode the request: '' @ err)
         (wi_encode w (wire_fields (wire_of True request)))\<rparr>,
      generation_stream h)"

section \<open>Lemmas\<close>

text \<open>While the task runs, its sink is open; \<open>polite\<close> is what others can do to it: read, drop the
  stream, cancel, all of which are steps of the protocol of theory \<open>Stream\<close>, leave the sink alone
  and keep the first cause of a cancellation.\<close>

definition stepping :: "generation \<Rightarrow> generation \<Rightarrow> bool" where
  "stepping g g' \<longleftrightarrow> (\<forall>seen. \<exists>seen'. gen_step\<^sup>*\<^sup>* (g, seen) (g', seen'))"

lemma stepping_refl [simp]: "stepping g g"
  by (auto simp: stepping_def)

lemma stepping_trans: "stepping g g' \<Longrightarrow> stepping g' g'' \<Longrightarrow> stepping g g''"
  unfolding stepping_def by (meson rtranclp_trans)

lemma stepping_step: "(\<And>seen. gen_step (g, seen) (g', seen)) \<Longrightarrow> stepping g g'"
  unfolding stepping_def by blast

definition task_ok :: "generation \<Rightarrow> bool" where
  "task_ok g \<longleftrightarrow> gn_sender g \<and> \<not> gn_sink_finished g \<and> gn_pending g = None
     \<and> \<not> is_terminal (h_state (gn_handle g))"

definition outside :: "generation \<Rightarrow> generation \<Rightarrow> bool" where
  "outside g g' \<longleftrightarrow> (task_ok g \<longrightarrow> task_ok g') \<and> h_id (gn_handle g') = h_id (gn_handle g)
     \<and> (\<forall>c. h_token (gn_handle g) = Some c \<longrightarrow> h_token (gn_handle g') = Some c)
     \<and> (\<not> gn_receiver g \<longrightarrow> \<not> gn_receiver g') \<and> (task_ok g \<longrightarrow> stepping g g')"

definition polite :: "(generation \<Rightarrow> generation) \<Rightarrow> bool" where
  "polite f \<longleftrightarrow> (\<forall>g. outside g (f g))"

definition polite_wait :: "'a waited \<Rightarrow> bool" where
  "polite_wait w \<longleftrightarrow> polite (others_did w) \<and> polite (late w)"

lemma outside_refl [simp]: "outside g g"
  by (simp add: outside_def)

lemma outside_trans: "outside g g' \<Longrightarrow> outside g' g'' \<Longrightarrow> outside g g''"
  unfolding outside_def using stepping_trans by auto

lemma polite_outside: "polite f \<Longrightarrow> outside g (f g)"
  by (simp add: polite_def)

lemma outside_task: "outside g g' \<Longrightarrow> task_ok g \<Longrightarrow> task_ok g'"
  by (simp add: outside_def)

lemma outside_stepping: "outside g g' \<Longrightarrow> task_ok g \<Longrightarrow> stepping g g'"
  by (simp add: outside_def)

lemma outsideI:
  assumes "task_ok g \<Longrightarrow> stepping g g'" and "task_ok g \<Longrightarrow> task_ok g'"
    and "h_id (gn_handle g') = h_id (gn_handle g)"
    and "\<And>c. h_token (gn_handle g) = Some c \<Longrightarrow> h_token (gn_handle g') = Some c"
    and "\<not> gn_receiver g \<Longrightarrow> \<not> gn_receiver g'"
  shows "outside g g'"
  using assms by (simp add: outside_def)

lemma stepping_next:
  assumes "gn_receiver g" and "stream_next g = Some (r, g')"
  shows "stepping g g'"
proof (cases r)
  case None
  with assms show ?thesis by (intro stepping_step gen_step.next_none) simp_all
next
  case (Some item)
  then have "gen_step (g, seen) (g', seen @ [item])" for seen
    using assms by (intro gen_step.next_item) simp_all
  then show ?thesis unfolding stepping_def by blast
qed

lemma outside_next:
  assumes "task_ok g" and "gn_receiver g" and "stream_next g = Some (r, g')"
  shows "outside g g'"
  using assms
  by (intro outsideI stepping_next [OF assms(2,3)]; cases "gn_queue g")
     (auto simp: task_ok_def stream_next_def split: if_splits)

lemma outside_drop: "gn_receiver g \<Longrightarrow> outside g (stream_drop g)"
  by (intro outsideI stepping_step gen_step.drop_stream) (simp_all add: task_ok_def stream_drop_def)

lemma outside_request_cancel:
  "outside g (g\<lparr>gn_handle := snd (request_cancellation cause (gn_handle g))\<rparr>)"
  by (intro outsideI stepping_step gen_step.request_cancel)
     (auto simp: task_ok_def request_cancellation_def token_cancel_def Let_def split: option.splits)

lemma outside_running: "outside g (g\<lparr>gn_handle := mark_running (gn_handle g)\<rparr>)"
  by (intro outsideI stepping_step gen_step.running) (auto simp: task_ok_def mark_running_def)

lemma outside_token_cancel:
  "outside g (g\<lparr>gn_handle := snd (handle_token_cancel cause (gn_handle g))\<rparr>)"
  by (intro outsideI stepping_step gen_step.token_cancel)
     (auto simp: task_ok_def handle_token_cancel_def token_cancel_def split: option.splits)

lemma idle_out_outside:
  assumes "idle_out g = (c, g')"
  shows "outside g g'" and "h_token (gn_handle g') = Some c"
proof -
  show "outside g g'"
    using assms outside_token_cancel [of g StreamIdleTimeout] by (simp add: idle_out_def Let_def)
  show "h_token (gn_handle g') = Some c"
    using assms by (auto simp: idle_out_def handle_token_cancel_def token_cancel_def Let_def
        split: option.splits)
qed

lemma await_facts:
  assumes "await w g = (r, g')" and "polite_wait w"
  shows "outside g g'"
    and "r = Inl c \<Longrightarrow> h_token (gn_handle g') = Some c \<or> c = ConsumerGone \<and> \<not> gn_receiver g'"
    and "h_token (gn_handle g) = Some c \<Longrightarrow> r = Inl c"
proof -
  let ?g = "others_did w g"
  have o: "outside g ?g" "outside ?g (late w ?g)"
    using assms(2) by (simp_all add: polite_wait_def polite_outside)
  obtain c' g'' where i: "idle_out (late w ?g) = (c', g'')" by fastforce
  note i' = idle_out_outside [OF i]
  have o2: "outside g g''" by (rule outside_trans [OF outside_trans [OF o] i'(1)])
  have cases: "(\<exists>cause. h_token (gn_handle ?g) = Some cause \<and> r = Inl cause \<and> g' = ?g)
    \<or> h_token (gn_handle ?g) = None \<and> (\<not> gn_receiver ?g \<and> r = Inl ConsumerGone \<and> g' = ?g
        \<or> (\<exists>v. r = Inr v \<and> g' = ?g) \<or> r = Inl c' \<and> g' = g'')"
    using assms(1) i by (auto simp: await_def Let_def split: option.splits if_splits)
  then show "outside g g'" using o(1) o2 by blast
  show "r = Inl c \<Longrightarrow> h_token (gn_handle g') = Some c \<or> c = ConsumerGone \<and> \<not> gn_receiver g'"
    using cases i'(2) by auto
  show "h_token (gn_handle g) = Some c \<Longrightarrow> r = Inl c"
    using cases o(1) by (auto simp: outside_def)
qed

lemma sink_delta_outside:
  assumes "sink_delta t g = Some (b, g')"
  shows "outside g g'"
proof (rule outsideI)
  show "task_ok g \<Longrightarrow> stepping g g'"
    using assms by (intro stepping_step gen_step.delta) (auto simp: task_ok_def)
qed (use assms in \<open>auto simp: sink_delta_def channel_send_def task_ok_def split: if_splits\<close>)

lemma sink_delta_gone: "sink_delta t g = Some (False, g') \<Longrightarrow> task_ok g \<Longrightarrow> \<not> gn_receiver g'"
  by (auto simp: sink_delta_def channel_send_def task_ok_def split: if_splits)

lemma hand_over_gone:
  assumes "hand_over room t g = Some (False, g')" and "polite room" and "task_ok g"
  shows "\<not> gn_receiver g'"
proof (cases "sink_delta t g")
  case None
  with assms(1) have "sink_delta t (room g) = Some (False, g')" by (simp add: hand_over_def)
  with sink_delta_gone outside_task [OF polite_outside [OF assms(2)] assms(3)] show ?thesis by blast
next
  case (Some r)
  with assms(1,3) sink_delta_gone [of t g g'] show ?thesis by (simp add: hand_over_def)
qed

lemma hand_over_outside:
  assumes "hand_over room t g = Some (b, g')" and "polite room"
  shows "outside g g'"
proof (cases "sink_delta t g")
  case None
  with assms(1) have "sink_delta t (room g) = Some (b, g')" by (simp add: hand_over_def)
  from sink_delta_outside [OF this] polite_outside [OF assms(2)] outside_trans show ?thesis by blast
next
  case (Some r)
  with assms(1) sink_delta_outside [of t g b g'] show ?thesis by (simp add: hand_over_def)
qed

text \<open>Where a summary comes from: an event that said why generation stopped.\<close>

definition reports :: "wire \<Rightarrow> string \<Rightarrow> generation_summary \<Rightarrow> bool" where
  "reports w payload s \<longleftrightarrow> (\<exists>wr c cs reason. wi_response w (bytes_of payload) = Inr wr
     \<and> wr_choices wr = c # cs \<and> wc_finish_reason c = Some reason
     \<and> s = \<lparr>s_finish_reason = finish_reason_for (Some reason), s_usage = map_option usage_of (wr_usage wr)\<rparr>)"

definition reported :: "wire \<Rightarrow> generation_summary option \<Rightarrow> bool" where
  "reported w terminal \<longleftrightarrow> (\<forall>s. terminal = Some s \<longrightarrow> (\<exists>payload. reports w payload s))"

lemma note_terminal_reported:
  assumes "wi_response w (bytes_of payload) = Inr wr" and "wr_choices wr = c # cs"
    and "reported w terminal"
  shows "reported w (note_terminal wr c terminal)"
proof (cases "wc_finish_reason c")
  case None
  with assms(3) show ?thesis by (simp add: note_terminal_def)
next
  case (Some reason)
  then have "reports w payload \<lparr>s_finish_reason = finish_reason_for (Some reason),
      s_usage = map_option usage_of (wr_usage wr)\<rparr>"
    unfolding reports_def using assms(1,2) by blast
  with Some show ?thesis by (auto simp: reported_def note_terminal_def simp del: finish_reason_for.simps)
qed

lemma take_payloads_facts:
  assumes "take_payloads w room payloads (terminal, g) = Some (r, terminal', g')" and "polite room"
  shows "outside g g' \<and> (reported w terminal \<longrightarrow> reported w terminal')
    \<and> (task_ok g \<longrightarrow> (\<forall>c. r = Some (Inl (Interrupted c)) \<longrightarrow> \<not> gn_receiver g'))"
  using assms(1)
proof (induction payloads arbitrary: terminal g)
  case Nil
  then show ?case by simp
next
  case (Cons payload payloads)
  show ?case
  proof (cases "trim payload = DONE_MARKER")
    case True
    with Cons.prems show ?thesis by auto
  next
    case False
    show ?thesis
    proof (cases "wi_response w (bytes_of payload)")
      case (Inl err)
      with False Cons.prems show ?thesis by auto
    next
      case wr: (Inr wr)
      show ?thesis
      proof (cases "wr_choices wr")
        case Nil
        with False wr Cons.prems Cons.IH show ?thesis by simp
      next
        case c: (Cons c cs)
        let ?t = "note_terminal wr c terminal"
        from c False wr Cons.prems obtain b g1 where h: "hand_over room (wc_text c) g = Some (b, g1)"
          and rest: "if b then take_payloads w room payloads (?t, g1) = Some (r, terminal', g')
            else terminal' = ?t \<and> g' = g1"
          and gone: "\<not> b \<Longrightarrow> r = Some (Inl (Interrupted ConsumerGone))"
          by (auto simp: Let_def split: option.splits prod.splits bool.splits)
        have o: "outside g g1" by (rule hand_over_outside [OF h assms(2)])
        note t = note_terminal_reported [OF wr c, of terminal]
        show ?thesis
        proof (cases b)
          case True
          with rest Cons.IH [of ?t g1] have "outside g1 g' \<and> (reported w ?t \<longrightarrow> reported w terminal')
            \<and> (task_ok g1 \<longrightarrow> (\<forall>c. r = Some (Inl (Interrupted c)) \<longrightarrow> \<not> gn_receiver g'))" by simp
          with o t outside_trans outside_task show ?thesis by blast
        next
          case False
          then have "task_ok g \<Longrightarrow> \<not> gn_receiver g1"
            using hand_over_gone [of room "wc_text c" g g1] h assms(2) by simp
          with False rest o t show ?thesis by simp
        qed
      qed
    qed
  qed
qed

lemma read_body_facts:
  assumes "read_body w su room waits d terminal g = Some (r, d', terminal', g')" and "polite room"
    and "\<forall>x\<in>set waits. polite_wait x"
  shows "outside g g' \<and> (reported w terminal \<longrightarrow> reported w terminal')
    \<and> (task_ok g \<longrightarrow> (\<forall>c. r = Inl (Interrupted c) \<longrightarrow> h_token (gn_handle g') = Some c \<or> \<not> gn_receiver g'))"
  using assms(1,3)
proof (induction waits arbitrary: d terminal g)
  case Nil
  then show ?case by simp
next
  case (Cons wait waits)
  obtain x g1 where a: "await wait g = (x, g1)" by fastforce
  have o: "outside g g1" using await_facts(1) [OF a] Cons.prems(2) by simp
  have rest: "\<forall>x\<in>set waits. polite_wait x" using Cons.prems(2) by simp
  consider cause where "x = Inl cause" | "x = Inr None" | err where "x = Inr (Some (Inl err))"
    | "x = Inr (Some (Inr Trailers))" | chunk where "x = Inr (Some (Inr (Data chunk)))"
    by (metis frame.exhaust old.sum.exhaust option.exhaust)
  then show ?case
  proof cases
    case (1 cause)
    with a Cons.prems(1) have "r = Inl (Interrupted cause) \<and> terminal' = terminal \<and> g' = g1" by simp
    with o await_facts(2) [OF a, of cause] 1 Cons.prems(2) show ?thesis by auto
  next
    case 4
    with a Cons.prems(1) have "read_body w su room waits d terminal g1 = Some (r, d', terminal', g')" by simp
    from Cons.IH [OF this rest] o outside_trans outside_task show ?thesis by blast
  next
    case (5 chunk)
    show ?thesis
    proof (cases "push su chunk d")
      case (Inl detail)
      with 5 a Cons.prems(1) have "r = Inl (Broke (MalformedEvent detail)) \<and> terminal' = terminal \<and> g' = g1"
        by simp
      with o show ?thesis by auto
    next
      case p: (Inr ps)
      obtain payloads d1 where ps: "ps = (payloads, d1)" by fastforce
      from 5 a p ps Cons.prems(1) obtain y t1 g2 where
        t: "take_payloads w room payloads (terminal, g1) = Some (y, t1, g2)"
        and r: "case y of None \<Rightarrow> read_body w su room waits d1 t1 g2 = Some (r, d', terminal', g')
          | Some outcome \<Rightarrow> r = outcome \<and> terminal' = t1 \<and> g' = g2"
        by (auto split: option.splits prod.splits)
      note tf = take_payloads_facts [OF t assms(2)]
      show ?thesis
      proof (cases y)
        case None
        with r have "read_body w su room waits d1 t1 g2 = Some (r, d', terminal', g')" by simp
        from Cons.IH [OF this rest] o tf outside_trans outside_task show ?thesis by blast
      next
        case (Some outcome)
        with r have eqs: "r = outcome" "terminal' = t1" "g' = g2" by simp_all
        have "outside g g'" using o tf outside_trans eqs(3) by blast
        moreover have "task_ok g \<Longrightarrow> task_ok g1" using o outside_task by blast
        ultimately show ?thesis using tf Some eqs by simp
      qed
    qed
  next
    case 2
    with a Cons.prems(1) have "r = Inr BodyClosed \<and> terminal' = terminal \<and> g' = g1" by simp
    with o show ?thesis by auto
  next
    case (3 err)
    with a Cons.prems(1) have "r = Inl (Broke (Transport err)) \<and> terminal' = terminal \<and> g' = g1" by simp
    with o show ?thesis by auto
  qed
qed

text \<open>How a task ends: once, with an event that matches what the request is recorded as.\<close>

definition ended_by :: "wire \<Rightarrow> request_id \<Rightarrow> generation \<Rightarrow> bool" where
  "ended_by w i g \<longleftrightarrow> gn_sender g \<and> gn_sink_finished g \<and> (case gn_pending g of
       Some (Inl err) \<Rightarrow> h_state (gn_handle g) = Failed
     | Some (Inr (CompletedEvent j s)) \<Rightarrow> j = i \<and> h_state (gn_handle g) = Completed \<and> (\<exists>p. reports w p s)
     | Some (Inr (CancelledEvent j c)) \<Rightarrow> j = i \<and> h_state (gn_handle g) = Cancelled
         \<and> (h_token (gn_handle g) = Some c \<or> \<not> gn_receiver g)
     | _ \<Rightarrow> False)"

lemma finish_token [simp]: "h_token (snd (finish st h)) = h_token h"
  by (simp add: finish_def)

definition task_ends :: "wire \<Rightarrow> generation \<Rightarrow> generation \<Rightarrow> bool" where
  "task_ends w g g' \<longleftrightarrow> ended_by w (h_id (gn_handle g)) g' \<and> stepping g g'"

lemma task_ends_cancel:
  assumes "task_ok g" and "h_token (gn_handle g) = Some c \<or> \<not> gn_receiver g"
  shows "task_ends w g (sink_cancel c g)"
proof -
  have "stepping g (sink_cancel c g)"
    using assms(1) by (intro stepping_step gen_step.cancel) (simp_all add: task_ok_def)
  with assms show ?thesis
    by (auto simp: task_ends_def ended_by_def task_ok_def sink_cancel_def finish_state
        request_cancellation_def token_cancel_def Let_def split: option.splits prod.splits)
qed

lemma task_ends_fail:
  assumes "task_ok g"
  shows "task_ends w g (sink_fail err g)"
proof -
  have "stepping g (sink_fail err g)"
    using assms by (intro stepping_step gen_step.fail) (simp_all add: task_ok_def)
  with assms show ?thesis
    by (simp add: task_ends_def ended_by_def task_ok_def sink_fail_def finish_state)
qed

lemma task_ends_complete:
  assumes "task_ok g" and "reports w p s"
  shows "task_ends w g (sink_complete s g)"
proof -
  have "stepping g (sink_complete s g)"
    using assms(1) by (intro stepping_step gen_step.complete) (simp_all add: task_ok_def)
  with assms show ?thesis
    by (auto simp: task_ends_def ended_by_def task_ok_def sink_complete_def finish_state)
qed

lemma outside_id: "outside g g' \<Longrightarrow> h_id (gn_handle g') = h_id (gn_handle g)"
  by (simp add: outside_def)

lemma task_ends_outside: "outside g g1 \<Longrightarrow> task_ok g \<Longrightarrow> task_ends w g1 g' \<Longrightarrow> task_ends w g g'"
  unfolding task_ends_def using outside_id outside_stepping stepping_trans by metis

lemma conclude_ends:
  assumes "task_ok g" and "reported w t"
    and "\<And>c. r = Inl (Interrupted c) \<Longrightarrow> h_token (gn_handle g) = Some c \<or> \<not> gn_receiver g"
  shows "task_ends w g (conclude r d t g)"
proof -
  consider c where "r = Inl (Interrupted c)" | err where "r = Inl (Broke err)" | e where "r = Inr e"
    by (metis interruption.exhaust old.sum.exhaust)
  then show ?thesis
  proof cases
    case (1 c)
    with assms task_ends_cancel show ?thesis by (simp add: conclude_def)
  next
    case (2 err)
    with assms task_ends_fail show ?thesis by (simp add: conclude_def)
  next
    case (3 e)
    with assms(1,2) show ?thesis
      by (cases t) (auto simp: conclude_def reported_def task_ends_fail intro: task_ends_complete)
  qed
qed

lemma read_response_ends:
  assumes "read_response w su room waits g = Some g'" and "polite room"
    and "\<forall>x\<in>set waits. polite_wait x" and "task_ok g"
  shows "task_ends w g g'"
proof -
  obtain r d t g1 where b: "read_body w su room waits new_decoder None g = Some (r, d, t, g1)"
    and g': "g' = conclude r d t g1"
    using assms(1) by (auto simp: read_response_def)
  note f = read_body_facts [OF b assms(2,3)]
  have "task_ok g1" "reported w t" using f assms(4) outside_task by (auto simp: reported_def)
  then have "task_ends w g1 g'" unfolding g' using f assms(4) by (intro conclude_ends) auto
  with f assms(4) task_ends_outside show ?thesis by blast
qed

lemma step_of_ends:
  assumes "step_of wt g k = Some g'" and "polite_wait wt" and "task_ok g"
    and "\<And>v g1. k v g1 = Some g' \<Longrightarrow> task_ok g1 \<Longrightarrow> task_ends w g1 g'"
  shows "task_ends w g g'"
proof -
  obtain x g1 where a: "await wt g = (x, g1)" by fastforce
  note f = await_facts [OF a assms(2)]
  have ok: "task_ok g1" using f(1) assms(3) by (rule outside_task)
  consider c where "x = Inl c" | err where "x = Inr (Inl err)" | v where "x = Inr (Inr v)"
    by (metis old.sum.exhaust)
  then have "task_ends w g1 g'"
  proof cases
    case (1 c)
    with a assms(1) task_ends_cancel [OF ok, of c w] f(2) [of c] show ?thesis by (auto simp: step_of_def)
  next
    case (2 err)
    with a assms(1) task_ends_fail [OF ok] show ?thesis by (auto simp: step_of_def)
  next
    case (3 v)
    with a assms(1,4) ok show ?thesis by (auto simp: step_of_def)
  qed
  with f(1) assms(3) show ?thesis by (rule task_ends_outside)
qed

lemma refuse_ends:
  assumes "polite_wait wt" and "task_ok g"
  shows "task_ends w g (refuse w status wt g)"
proof -
  obtain x g1 where a: "await wt g = (x, g1)" by fastforce
  note f = await_facts [OF a assms(1)]
  have ok: "task_ok g1" using f(1) assms(2) by (rule outside_task)
  consider c where "x = Inl c" | err where "x = Inr (Inl err)" | bs where "x = Inr (Inr bs)"
    by (metis old.sum.exhaust)
  then have "task_ends w g1 (refuse w status wt g)"
  proof cases
    case (1 c)
    with a f(2) [of c] task_ends_cancel [OF ok, of c w] show ?thesis by (auto simp: refuse_def)
  qed (use a task_ends_fail [OF ok] in \<open>simp_all add: refuse_def\<close>)
  with f(1) assms(2) show ?thesis by (rule task_ends_outside)
qed

definition polite_peer :: "stream_peer \<Rightarrow> bool" where
  "polite_peer p \<longleftrightarrow> polite_wait (sp_connect p) \<and> polite_wait (sp_handshake p)
     \<and> (\<forall>q. polite_wait (sp_send p q)) \<and> polite_wait (sp_collect p)
     \<and> (\<forall>x\<in>set (sp_frames p). polite_wait x) \<and> polite (sp_room p)"

lemma answered_ends:
  assumes "answered w su p status g = Some g'" and "polite_peer p" and "task_ok g"
  shows "task_ends w g g'"
proof (rule task_ends_outside [OF outside_running assms(3)])
  let ?g = "g\<lparr>gn_handle := mark_running (gn_handle g)\<rparr>"
  have "task_ok ?g" by (rule outside_task [OF outside_running assms(3)])
  with assms(1,2) refuse_ends read_response_ends show "task_ends w ?g g'"
    by (auto simp: answered_def Let_def polite_peer_def split: if_splits)
qed

lemma send_job_ends:
  assumes "send_job w su p q g = Some g'" and "polite_peer p" and "task_ok g"
  shows "task_ends w g g'"
proof (cases "sp_build p q")
  case (Inl err)
  with assms(1,3) task_ends_fail show ?thesis by (auto simp: send_job_def)
next
  case (Inr u)
  with assms(1) have "step_of (sp_send p q) g (answered w su p) = Some g'" by (simp add: send_job_def)
  then show ?thesis
    by (rule step_of_ends) (use assms(2,3) answered_ends in \<open>auto simp: polite_peer_def\<close>)
qed

lemma execute_ends:
  assumes "execute w su p j g = Some g'" and "polite_peer p" and "task_ok g"
  shows "task_ends w g g'"
proof (cases "jb_body j")
  case (Inl detail)
  with assms(1,3) task_ends_fail show ?thesis by (auto simp: execute_def)
next
  case (Inr body)
  note p = assms(2) [unfolded polite_peer_def]
  from Inr assms(1) have "step_of (sp_connect p) g (\<lambda>_ g.
      step_of (sp_handshake p) g (\<lambda>_. send_job w su p (stream_request j body))) = Some g'"
    by (simp add: execute_def)
  then show ?thesis
  proof (rule step_of_ends)
    fix g1 assume h: "step_of (sp_handshake p) g1 (\<lambda>_. send_job w su p (stream_request j body)) = Some g'"
      and ok: "task_ok g1"
    show "task_ends w g1 g'"
      by (rule step_of_ends [OF h _ ok]) (use p assms(2) send_job_ends in auto)
  qed (use p assms(3) in auto)
qed

text \<open>A request that was cancelled before a wait ends at it.\<close>

definition cancelled_with :: "request_id \<Rightarrow> cancellation_cause \<Rightarrow> generation \<Rightarrow> bool" where
  "cancelled_with i cause g \<longleftrightarrow> gn_pending g = Some (Inr (CancelledEvent i cause))
     \<and> h_state (gn_handle g) = Cancelled \<and> h_token (gn_handle g) = Some cause"

lemma await_cancelled:
  assumes "h_token (gn_handle (others_did wt g)) = Some cause" and "polite_wait wt" and "task_ok g"
  shows "await wt g = (Inl cause, others_did wt g)"
    and "cancelled_with (h_id (gn_handle g)) cause (sink_cancel cause (others_did wt g))"
proof -
  have o: "outside g (others_did wt g)" using assms(2) by (simp add: polite_wait_def polite_outside)
  with assms(1,3) have "cancelled_with (h_id (gn_handle (others_did wt g))) cause
      (sink_cancel cause (others_did wt g))"
    by (auto simp: cancelled_with_def sink_cancel_def task_ok_def finish_state
        request_cancellation_def token_cancel_def dest: outside_task)
  then show "cancelled_with (h_id (gn_handle g)) cause (sink_cancel cause (others_did wt g))"
    by (simp add: outside_id [OF o])
  show "await wt g = (Inl cause, others_did wt g)" using assms(1) by (simp add: await_def)
qed

text \<open>The waits of the body loop: \<open>body_wait w su room waits d terminal g wt gx\<close> says that reading
  \<open>waits\<close> from \<open>g\<close> comes to wait for \<open>wt\<close>, in the state \<open>gx\<close>.\<close>

inductive body_wait :: "wire \<Rightarrow> (u8 list \<Rightarrow> string) \<Rightarrow> (generation \<Rightarrow> generation) \<Rightarrow> body_event waited list \<Rightarrow>
    sse_decoder \<Rightarrow> generation_summary option \<Rightarrow> generation \<Rightarrow> body_event waited \<Rightarrow> generation \<Rightarrow> bool"
  for w su room where
  at_this: "body_wait w su room (wt # waits) d terminal g wt g"
| after_trailers: "await wt g = (Inr (Some (Inr Trailers)), g1) \<Longrightarrow>
    body_wait w su room waits d terminal g1 wx gx \<Longrightarrow>
    body_wait w su room (wt # waits) d terminal g wx gx"
| after_data: "await wt g = (Inr (Some (Inr (Data chunk))), g1) \<Longrightarrow> push su chunk d = Inr (payloads, d1) \<Longrightarrow>
    take_payloads w room payloads (terminal, g1) = Some (None, terminal1, g2) \<Longrightarrow>
    body_wait w su room waits d1 terminal1 g2 wx gx \<Longrightarrow>
    body_wait w su room (wt # waits) d terminal g wx gx"

text \<open>The waits of the whole task. Their results have different types, so a wait is given by what the
  others do during it.\<close>

inductive task_wait :: "wire \<Rightarrow> (u8 list \<Rightarrow> string) \<Rightarrow> stream_peer \<Rightarrow> job \<Rightarrow> generation \<Rightarrow>
    (generation \<Rightarrow> generation) \<Rightarrow> generation \<Rightarrow> bool" for w su p j g where
  connecting: "jb_body j = Inr body \<Longrightarrow> task_wait w su p j g (others_did (sp_connect p)) g"
| shaking: "jb_body j = Inr body \<Longrightarrow> await (sp_connect p) g = (Inr (Inr ()), g1) \<Longrightarrow>
    task_wait w su p j g (others_did (sp_handshake p)) g1"
| sending: "jb_body j = Inr body \<Longrightarrow> await (sp_connect p) g = (Inr (Inr ()), g1) \<Longrightarrow>
    await (sp_handshake p) g1 = (Inr (Inr ()), g2) \<Longrightarrow> sp_build p (stream_request j body) = Inr () \<Longrightarrow>
    task_wait w su p j g (others_did (sp_send p (stream_request j body))) g2"
| refusing: "jb_body j = Inr body \<Longrightarrow> await (sp_connect p) g = (Inr (Inr ()), g1) \<Longrightarrow>
    await (sp_handshake p) g1 = (Inr (Inr ()), g2) \<Longrightarrow> sp_build p (stream_request j body) = Inr () \<Longrightarrow>
    await (sp_send p (stream_request j body)) g2 = (Inr (Inr status), g3) \<Longrightarrow> \<not> is_success status \<Longrightarrow>
    task_wait w su p j g (others_did (sp_collect p)) (g3\<lparr>gn_handle := mark_running (gn_handle g3)\<rparr>)"
| reading: "jb_body j = Inr body \<Longrightarrow> await (sp_connect p) g = (Inr (Inr ()), g1) \<Longrightarrow>
    await (sp_handshake p) g1 = (Inr (Inr ()), g2) \<Longrightarrow> sp_build p (stream_request j body) = Inr () \<Longrightarrow>
    await (sp_send p (stream_request j body)) g2 = (Inr (Inr status), g3) \<Longrightarrow> is_success status \<Longrightarrow>
    body_wait w su (sp_room p) (sp_frames p) new_decoder None
      (g3\<lparr>gn_handle := mark_running (gn_handle g3)\<rparr>) wt gx \<Longrightarrow>
    task_wait w su p j g (others_did wt) gx"

lemma body_wait_cancelled:
  assumes "body_wait w su room waits d terminal g wt gx" and "\<forall>x\<in>set waits. polite_wait x"
    and "polite room" and "task_ok g" and "h_token (gn_handle (others_did wt gx)) = Some cause"
  shows "\<exists>d' t'. read_body w su room waits d terminal g
      = Some (Inl (Interrupted cause), d', t', others_did wt gx)"
    and "cancelled_with (h_id (gn_handle g)) cause (sink_cancel cause (others_did wt gx))"
proof -
  have "(\<exists>d' t'. read_body w su room waits d terminal g
        = Some (Inl (Interrupted cause), d', t', others_did wt gx))
      \<and> cancelled_with (h_id (gn_handle g)) cause (sink_cancel cause (others_did wt gx))"
    using assms
  proof (induction rule: body_wait.induct)
    case (at_this wt waits d terminal g)
    then show ?case using await_cancelled [of wt g cause] by simp
  next
    case (after_trailers wt g g1 waits d terminal wx gx)
    then have "outside g g1" using await_facts(1) [OF after_trailers.hyps(1)] by simp
    with after_trailers outside_id outside_task show ?case by fastforce
  next
    case (after_data wt g chunk g1 d payloads d1 terminal terminal1 g2 waits wx gx)
    have "outside g g1" using await_facts(1) [OF after_data.hyps(1)] after_data.prems(1) by simp
    moreover have "outside g1 g2"
      using take_payloads_facts [OF after_data.hyps(3) after_data.prems(2)] by simp
    ultimately have "outside g g2" by (rule outside_trans)
    with after_data outside_id outside_task show ?case by fastforce
  qed
  then show "\<exists>d' t'. read_body w su room waits d terminal g
      = Some (Inl (Interrupted cause), d', t', others_did wt gx)"
    and "cancelled_with (h_id (gn_handle g)) cause (sink_cancel cause (others_did wt gx))" by simp_all
qed

lemma task_wait_cancelled:
  assumes "task_wait w su p j g others gx" and "polite_peer p" and "task_ok g"
    and "h_token (gn_handle (others gx)) = Some cause"
  shows "execute w su p j g = Some (sink_cancel cause (others gx))
    \<and> cancelled_with (h_id (gn_handle g)) cause (sink_cancel cause (others gx))"
  using assms(1)
proof cases
  case (connecting body)
  with await_cancelled [of "sp_connect p" g cause] connecting assms(2-4) show ?thesis
    by (simp add: polite_peer_def execute_def step_of_def)
next
  case (shaking body)
  from await_facts(1) [OF shaking(3)] assms(2) have o: "outside g gx" by (simp add: polite_peer_def)
  with await_cancelled [of "sp_handshake p" gx cause] outside_task [OF o] outside_id [OF o] shaking assms(2-4)
  show ?thesis by (simp add: polite_peer_def execute_def step_of_def)
next
  case (sending body g1)
  from await_facts(1) [OF sending(3)] await_facts(1) [OF sending(4)] assms(2) outside_trans
  have o: "outside g gx" by (auto simp: polite_peer_def)
  with await_cancelled [of "sp_send p (stream_request j body)" gx cause] outside_task [OF o] outside_id [OF o]
    sending assms(2-4)
  show ?thesis by (simp add: polite_peer_def execute_def step_of_def send_job_def)
next
  case (refusing body g1 g2 status g3)
  let ?g = "g3\<lparr>gn_handle := mark_running (gn_handle g3)\<rparr>"
  from await_facts(1) [OF refusing(4)] await_facts(1) [OF refusing(5)] await_facts(1) [OF refusing(7)]
    assms(2) outside_trans outside_running
  have o: "outside g ?g" by (metis polite_peer_def)
  with await_cancelled [of "sp_collect p" ?g cause] outside_task [OF o] outside_id [OF o] refusing assms(2-4)
  show ?thesis
    by (simp add: polite_peer_def execute_def step_of_def send_job_def answered_def refuse_def)
next
  case (reading body g1 g2 status g3 wt)
  let ?g = "g3\<lparr>gn_handle := mark_running (gn_handle g3)\<rparr>"
  from await_facts(1) [OF reading(3)] await_facts(1) [OF reading(4)] await_facts(1) [OF reading(6)]
    assms(2) outside_trans outside_running
  have o: "outside g ?g" by (metis polite_peer_def)
  from body_wait_cancelled [OF reading(8)] assms(2,4) outside_task [OF o assms(3)] reading(1)
  obtain d t where "read_body w su (sp_room p) (sp_frames p) new_decoder None ?g
      = Some (Inl (Interrupted cause), d, t, others gx)"
    and "cancelled_with (h_id (gn_handle ?g)) cause (sink_cancel cause (others gx))"
    by (auto simp: polite_peer_def)
  with reading outside_id [OF o] show ?thesis
    by (simp add: execute_def step_of_def send_job_def answered_def read_response_def conclude_def)
qed

text \<open>While nobody cancels and the reader only reads, what the task hands over is what the reader
  gets: \<open>carries items g g'\<close> says that between the two states exactly \<open>items\<close> went into the channel
  and the reader took some of what was in front.\<close>

fun read_n :: "nat \<Rightarrow> generation \<Rightarrow> generation" where
  "read_n 0 g = g"
| "read_n (Suc k) g = (case stream_next g of None \<Rightarrow> g | Some (_, g') \<Rightarrow> read_n k g')"

definition flowing :: "generation \<Rightarrow> bool" where
  "flowing g \<longleftrightarrow> task_ok g \<and> h_token (gn_handle g) = None \<and> gn_receiver g
     \<and> \<not> gn_stream_finished g \<and> (\<forall>x\<in>set (gn_queue g). \<not> ends x)"

definition reader :: "(generation \<Rightarrow> generation) \<Rightarrow> bool" where
  "reader f \<longleftrightarrow> (\<forall>g. flowing g \<longrightarrow> (\<exists>k. f g = read_n k g))"

definition carries :: "stream_item list \<Rightarrow> generation \<Rightarrow> generation \<Rightarrow> bool" where
  "carries items g g' \<longleftrightarrow> (flowing g \<longrightarrow> flowing g') \<and> gn_handle g' = gn_handle g
     \<and> (\<exists>k. gn_queue g' = drop k (gn_queue g @ items))"

lemma carries_refl: "carries [] g g"
  by (auto simp: carries_def intro: exI [of _ 0])

lemma drop_drop_append: "\<exists>k. drop k2 (drop k1 xs @ ys) = drop k (xs @ ys)"
proof -
  have "drop k1 xs @ ys = drop (min k1 (length xs)) (xs @ ys)" by (simp add: min_def)
  then have "drop k2 (drop k1 xs @ ys) = drop (k2 + min k1 (length xs)) (xs @ ys)"
    by (simp only: drop_drop)
  then show ?thesis by blast
qed

lemma carries_trans: "carries xs g g1 \<Longrightarrow> carries ys g1 g2 \<Longrightarrow> carries (xs @ ys) g g2"
  unfolding carries_def using drop_drop_append [where xs = "gn_queue g @ xs" and ys = ys] by auto

lemma read_n_drop: "flowing g \<Longrightarrow> flowing (read_n k g)
    \<and> gn_handle (read_n k g) = gn_handle g \<and> gn_queue (read_n k g) = drop k (gn_queue g)"
proof (induction k arbitrary: g)
  case (Suc k)
  show ?case
  proof (cases "gn_queue g")
    case Nil
    with Suc.prems have "stream_next g = None"
      by (simp add: stream_next_def flowing_def task_ok_def)
    with Nil Suc.prems show ?thesis by simp
  next
    case (Cons x xs)
    let ?g = "note_item x (g\<lparr>gn_queue := xs\<rparr>)"
    have n: "stream_next g = Some (Some x, ?g)"
      using Suc.prems Cons by (simp add: stream_next_def flowing_def)
    have "flowing ?g" and "gn_queue ?g = xs" and "gn_handle ?g = gn_handle g"
      using Suc.prems Cons by (cases "(x, g)" rule: note_item.cases;
        force simp: flowing_def task_ok_def)+
    with Suc.IH [of ?g] n Cons show ?thesis by simp
  qed
qed simp

lemma carries_read_n: "flowing g \<Longrightarrow> carries [] g (read_n k g)"
  using read_n_drop [of g k] by (auto simp: carries_def)

definition deltas :: "request_id \<Rightarrow> string list \<Rightarrow> stream_item list" where
  "deltas i ts = map (\<lambda>t. Inr (TextDelta i t)) (filter (\<lambda>t. t \<noteq> []) ts)"

definition makes_room :: "(generation \<Rightarrow> generation) \<Rightarrow> bool" where
  "makes_room f \<longleftrightarrow> reader f
     \<and> (\<forall>g. flowing g \<longrightarrow> length (gn_queue (f g)) < GENERATION_STREAM_BUFFER)"

lemma carries_reader: "reader f \<Longrightarrow> flowing g \<Longrightarrow> carries [] g (f g)"
  unfolding reader_def using carries_read_n by metis

lemma carries_flowing: "carries items g g' \<Longrightarrow> flowing g \<Longrightarrow> flowing g'"
  by (simp add: carries_def)

lemma carries_id: "carries items g g' \<Longrightarrow> h_id (gn_handle g') = h_id (gn_handle g)"
  by (simp add: carries_def)

lemma sink_delta_carries:
  assumes "flowing g" and "length (gn_queue g) < GENERATION_STREAM_BUFFER"
  obtains g' where "sink_delta t g = Some (True, g')" and "carries (deltas (h_id (gn_handle g)) [t]) g g'"
proof (cases "t = []")
  case True
  with assms show ?thesis
    by (intro that [of g]) (simp_all add: sink_delta_def flowing_def task_ok_def deltas_def carries_refl)
next
  case False
  let ?g = "g\<lparr>gn_queue := gn_queue g @ [Inr (TextDelta (h_id (gn_handle g)) t)]\<rparr>"
  show ?thesis
  proof (rule that [of ?g])
    show "sink_delta t g = Some (True, ?g)"
      using assms False by (simp add: sink_delta_def channel_send_def flowing_def task_ok_def)
    show "carries (deltas (h_id (gn_handle g)) [t]) g ?g"
      using assms False by (auto simp: carries_def flowing_def task_ok_def deltas_def intro: exI [of _ 0])
  qed
qed

lemma hand_over_carries:
  assumes "flowing g" and "makes_room room"
  obtains g' where "hand_over room t g = Some (True, g')"
    and "carries (deltas (h_id (gn_handle g)) [t]) g g'"
proof (cases "sink_delta t g")
  case None
  have c: "carries [] g (room g)" using assms carries_reader by (simp add: makes_room_def)
  have f: "flowing (room g)" by (rule carries_flowing [OF c assms(1)])
  have "length (gn_queue (room g)) < GENERATION_STREAM_BUFFER"
    using assms by (simp add: makes_room_def)
  with f obtain g' where "sink_delta t (room g) = Some (True, g')"
    and "carries (deltas (h_id (gn_handle (room g))) [t]) (room g) g'" by (rule sink_delta_carries)
  with carries_trans [OF c] carries_id [OF c] None that show ?thesis by (auto simp: hand_over_def)
next
  case (Some r)
  show ?thesis
  proof (cases "t = [] \<or> length (gn_queue g) < GENERATION_STREAM_BUFFER")
    case True
    then show ?thesis
    proof
      assume "t = []"
      with assms(1) show ?thesis
        by (intro that [of g]) (simp_all add: hand_over_def sink_delta_def flowing_def task_ok_def
            deltas_def carries_refl)
    next
      assume "length (gn_queue g) < GENERATION_STREAM_BUFFER"
      with assms(1) obtain g' where "sink_delta t g = Some (True, g')"
        and "carries (deltas (h_id (gn_handle g)) [t]) g g'" by (rule sink_delta_carries)
      then show ?thesis by (intro that) (simp_all add: hand_over_def)
    qed
  next
    case False
    with assms(1) Some show ?thesis
      by (simp add: sink_delta_def channel_send_def flowing_def task_ok_def)
  qed
qed

text \<open>What the events of a response say, without a channel: the texts up to where they stop, the
  last reason and usage among them, and what stops them: the end marker, an event that is not an
  answer, or nothing.\<close>

datatype script_end = AtMarker | AtBroken string | AtClose

fun script :: "wire \<Rightarrow> string list \<Rightarrow> generation_summary option \<Rightarrow>
    string list \<times> generation_summary option \<times> script_end" where
  "script w [] terminal = ([], terminal, AtClose)"
| "script w (p # ps) terminal =
     (if trim p = DONE_MARKER then ([], terminal, AtMarker)
      else case wi_response w (bytes_of p) of
        Inl err \<Rightarrow> ([], terminal, AtBroken (describe_event err p))
      | Inr wr \<Rightarrow> (case wr_choices wr of
          [] \<Rightarrow> script w ps terminal
        | c # _ \<Rightarrow> (let (ts, fin) = script w ps (note_terminal wr c terminal) in (wc_text c # ts, fin))))"

text \<open>How such a response ends for the reader: \<open>broke\<close> is the error of a connection that breaks off
  behind its events, \<open>None\<close> when it is closed.\<close>

fun verdict :: "request_id \<Rightarrow> generation_summary option \<Rightarrow> script_end \<Rightarrow> string option \<Rightarrow>
    stream_item \<times> request_state" where
  "verdict i fin (AtBroken detail) broke = (Inl (MalformedEvent detail), Failed)"
| "verdict i fin AtClose (Some err) = (Inl (Transport err), Failed)"
| "verdict i (Some summary) AtClose None = (Inr (CompletedEvent i summary), Completed)"
| "verdict i None AtClose None =
     (Inl (UnexpectedEnd ''the backend closed the connection before completing''), Failed)"
| "verdict i (Some summary) AtMarker broke = (Inr (CompletedEvent i summary), Completed)"
| "verdict i None AtMarker broke =
     (Inl (UnexpectedEnd ''the backend ended the stream without reporting why generation stopped''), Failed)"

fun script_outcome :: "script_end \<Rightarrow> string option \<Rightarrow> interruption + end_of_body" where
  "script_outcome AtMarker broke = Inr Marked"
| "script_outcome (AtBroken detail) broke = Inl (Broke (MalformedEvent detail))"
| "script_outcome AtClose None = Inr BodyClosed"
| "script_outcome AtClose (Some err) = Inl (Broke (Transport err))"

lemma deltas_append: "deltas i (xs @ ys) = deltas i xs @ deltas i ys"
  by (simp add: deltas_def)

lemma deltas_Nil [simp]: "deltas i [] = []"
  by (simp add: deltas_def)

lemma take_payloads_script:
  assumes "script w (ps @ qs) terminal = (ts, fin, e)" and "flowing g" and "makes_room room"
  shows "(\<exists>g'. take_payloads w room ps (terminal, g) = Some (Some (script_outcome e broke), fin, g')
        \<and> e \<noteq> AtClose \<and> carries (deltas (h_id (gn_handle g)) ts) g g')
    \<or> (\<exists>g' t us vs. take_payloads w room ps (terminal, g) = Some (None, t, g')
        \<and> script w qs t = (vs, fin, e) \<and> ts = us @ vs
        \<and> carries (deltas (h_id (gn_handle g)) us) g g')"
  using assms(1,2)
proof (induction ps arbitrary: terminal g ts)
  case Nil
  then show ?case
    by (intro disjI2 exI [of _ g] exI [of _ terminal] exI [of _ "[]"] exI [of _ ts])
       (simp add: carries_refl)
next
  case (Cons p ps)
  show ?case
  proof (cases "trim p = DONE_MARKER \<or> (\<exists>err. wi_response w (bytes_of p) = Inl err)")
    case True
    with Cons.prems show ?thesis by (auto simp: carries_refl)
  next
    case False
    then obtain wr where wr: "wi_response w (bytes_of p) = Inr wr"
      by (metis old.sum.exhaust)
    show ?thesis
    proof (cases "wr_choices wr")
      case Nil
      with False wr Cons.prems Cons.IH show ?thesis by simp
    next
      case c: (Cons c cs)
      from False wr c Cons.prems(1) obtain ts' where
        s: "script w (ps @ qs) (note_terminal wr c terminal) = (ts', fin, e)" and ts: "ts = wc_text c # ts'"
        by (auto split: prod.splits)
      obtain g1 where h: "hand_over room (wc_text c) g = Some (True, g1)"
        and c1: "carries (deltas (h_id (gn_handle g)) [wc_text c]) g g1"
        by (rule hand_over_carries [OF Cons.prems(2) assms(3)])
      have step: "take_payloads w room (p # ps) (terminal, g)
          = take_payloads w room ps (note_terminal wr c terminal, g1)"
        using False wr c h by (simp add: Let_def)
      have join: "carries (deltas (h_id (gn_handle g)) (wc_text c # us)) g g'"
        if "carries (deltas (h_id (gn_handle g1)) us) g1 g'" for us g'
        using carries_trans [OF c1 that] carries_id [OF c1] deltas_append [of _ "[wc_text c]" us] by simp
      from Cons.IH [OF s carries_flowing [OF c1 Cons.prems(2)]] show ?thesis
      proof (elim disjE exE conjE)
        fix g' assume "take_payloads w room ps (note_terminal wr c terminal, g1)
            = Some (Some (script_outcome e broke), fin, g')" and "e \<noteq> AtClose"
          and "carries (deltas (h_id (gn_handle g1)) ts') g1 g'"
        with join show ?thesis unfolding step ts by blast
      next
        fix g' t us vs assume "take_payloads w room ps (note_terminal wr c terminal, g1) = Some (None, t, g')"
          and "script w qs t = (vs, fin, e)" and "ts' = us @ vs"
          and "carries (deltas (h_id (gn_handle g1)) us) g1 g'"
        with join [of us g'] show ?thesis unfolding step ts
          by (intro disjI2 exI [of _ g'] exI [of _ t] exI [of _ "wc_text c # us"] exI [of _ vs]) simp
      qed
    qed
  qed
qed

definition brings :: "body_event waited \<Rightarrow> u8 list \<Rightarrow> bool" where
  "brings wt c \<longleftrightarrow> ended wt = Some (Some (Inr (Data c))) \<and> reader (others_did wt)"

lemma await_brings:
  assumes "brings wt c" and "flowing g"
  shows "await wt g = (Inr (Some (Inr (Data c))), others_did wt g)"
    and "carries [] g (others_did wt g)"
proof -
  show c: "carries [] g (others_did wt g)"
    using assms carries_reader by (simp add: brings_def)
  from carries_flowing [OF c assms(2)] assms(1)
  show "await wt g = (Inr (Some (Inr (Data c))), others_did wt g)"
    by (simp add: await_def brings_def flowing_def Let_def)
qed

text \<open>Where the events themselves do not stop the response, the connection does.\<close>

definition quits :: "body_event waited \<Rightarrow> string option \<Rightarrow> bool" where
  "quits wt broke \<longleftrightarrow> ended wt = Some (map_option Inl broke) \<and> reader (others_did wt)"

lemma await_quits:
  assumes "quits wt broke" and "flowing g"
  shows "await wt g = (Inr (map_option Inl broke), others_did wt g)"
    and "carries [] g (others_did wt g)"
proof -
  show c: "carries [] g (others_did wt g)"
    using assms carries_reader by (simp add: quits_def)
  from carries_flowing [OF c assms(2)] assms(1)
  show "await wt g = (Inr (map_option Inl broke), others_did wt g)"
    by (simp add: await_def quits_def flowing_def Let_def)
qed

definition goes_on :: "script_end \<Rightarrow> body_event waited list \<Rightarrow> string option \<Rightarrow> bool" where
  "goes_on e rest broke \<longleftrightarrow> (e = AtClose \<longrightarrow> (\<exists>wt rest'. rest = wt # rest' \<and> quits wt broke))"

lemma read_body_script:
  assumes "push_all su cs d = (ps, Inr d')" and "list_all2 brings waits cs"
    and "script w ps terminal = (ts, fin, e)" and "flowing g" and "makes_room room"
    and "goes_on e rest broke"
  shows "\<exists>d1 g'. read_body w su room (waits @ rest) d terminal g = Some (script_outcome e broke, d1, fin, g')
    \<and> (e = AtClose \<longrightarrow> d1 = d') \<and> carries (deltas (h_id (gn_handle g)) ts) g g'"
  using assms(1-4)
proof (induction cs arbitrary: d ps waits terminal ts g)
  case Nil
  then have eqs: "waits = []" "d' = d" "ts = []" "fin = terminal" "e = AtClose" by auto
  then obtain wt rest' where rest: "rest = wt # rest'" and q: "quits wt broke"
    using assms(6) by (auto simp: goes_on_def)
  note a = await_quits [OF q Nil.prems(4)]
  from a show ?case unfolding eqs rest by (cases broke) simp_all
next
  case (Cons c cs)
  from Cons.prems(2) obtain wt waits' where waits: "waits = wt # waits'" and b: "brings wt c"
    and rest: "list_all2 brings waits' cs" by (auto simp: list_all2_Cons2)
  let ?g = "others_did wt g"
  note a = await_brings [OF b Cons.prems(4)]
  note flow = carries_flowing [OF a(2) Cons.prems(4)] and i = carries_id [OF a(2)]
  from Cons.prems(1) obtain ps1 d1 ps2 where p: "push su c d = Inr (ps1, d1)"
    and ps2: "push_all su cs d1 = (ps2, Inr d')" and ps: "ps = ps1 @ ps2"
    by (auto split: sum.splits prod.splits)
  from take_payloads_script [OF Cons.prems(3) [unfolded ps] flow assms(5), of broke]
  show ?case
  proof (elim disjE exE conjE)
    fix g' assume "take_payloads w room ps1 (terminal, ?g) = Some (Some (script_outcome e broke), fin, g')"
      and "e \<noteq> AtClose" and "carries (deltas (h_id (gn_handle ?g)) ts) ?g g'"
    with carries_trans [OF a(2)] i show ?thesis by (simp add: waits a(1) p)
  next
    fix g1 t us vs assume t: "take_payloads w room ps1 (terminal, ?g) = Some (None, t, g1)"
      and s: "script w ps2 t = (vs, fin, e)" and ts: "ts = us @ vs"
      and c: "carries (deltas (h_id (gn_handle ?g)) us) ?g g1"
    from Cons.IH [OF ps2 rest s carries_flowing [OF c flow]] obtain d2 g' where
      "read_body w su room (waits' @ rest) d1 t g1 = Some (script_outcome e broke, d2, fin, g')"
      and "e = AtClose \<longrightarrow> d2 = d'" and "carries (deltas (h_id (gn_handle g1)) vs) g1 g'" by blast
    moreover from carries_trans [OF carries_trans [OF a(2) c] this(3)] carries_id [OF c] i
    have "carries (deltas (h_id (gn_handle g)) ts) g g'" by (simp add: ts deltas_append)
    ultimately show ?thesis by (simp add: waits a(1) p t)
  qed
qed

lemma conclude_script:
  assumes "task_ok g" and "e = AtClose \<longrightarrow> d = new_decoder"
  shows "gn_queue (conclude (script_outcome e broke) d fin g) = gn_queue g"
    and "(case verdict (h_id (gn_handle g)) fin e broke of (item, st) \<Rightarrow>
      gn_pending (conclude (script_outcome e broke) d fin g) = Some item
      \<and> h_state (gn_handle (conclude (script_outcome e broke) d fin g)) = st)"
proof -
  have "\<not> has_partial_event new_decoder" by (simp add: has_partial_event_def new_decoder_def)
  with assms show "case verdict (h_id (gn_handle g)) fin e broke of (item, st) \<Rightarrow>
      gn_pending (conclude (script_outcome e broke) d fin g) = Some item
      \<and> h_state (gn_handle (conclude (script_outcome e broke) d fin g)) = st"
    by (cases e; cases broke; cases fin)
       (simp_all add: conclude_def end_detail_def sink_fail_def sink_complete_def task_ok_def finish_state)
  show "gn_queue (conclude (script_outcome e broke) d fin g) = gn_queue g"
    using assms(1)
    by (cases e; cases broke; cases fin) (simp_all add: conclude_def sink_fail_def sink_complete_def task_ok_def)
qed

lemma read_response_script:
  assumes "\<forall>e\<in>set evs. sendable e" and "concat cs = concat (map encode_event evs)"
    and "fits cs evs" and "list_all2 brings waits cs" and "goes_on e rest broke"
    and "script w (map event_payload evs) None = (ts, fin, e)"
    and "flowing g" and "makes_room room"
  shows "\<exists>g' k. read_response w su room (waits @ rest) g = Some g'
    \<and> gn_queue g' = drop k (gn_queue g @ deltas (h_id (gn_handle g)) ts)
    \<and> (case verdict (h_id (gn_handle g)) fin e broke of (item, st) \<Rightarrow>
         gn_pending g' = Some item \<and> h_state (gn_handle g') = st)"
proof -
  from read_body_script [OF push_all_events [OF assms(1-3)] assms(4,6,7,8,5)] obtain d g1 where
    b: "read_body w su room (waits @ rest) new_decoder None g = Some (script_outcome e broke, d, fin, g1)"
    and d: "e = AtClose \<longrightarrow> d = new_decoder" and c: "carries (deltas (h_id (gn_handle g)) ts) g g1" by blast
  from c obtain k where k: "gn_queue g1 = drop k (gn_queue g @ deltas (h_id (gn_handle g)) ts)"
    by (auto simp: carries_def)
  have "task_ok g1" using carries_flowing [OF c assms(7)] by (simp add: flowing_def)
  note f = conclude_script [OF this d, of broke fin]
  show ?thesis
    by (intro exI [of _ "conclude (script_outcome e broke) d fin g1"] exI [of _ k])
       (use f b k carries_id [OF c] in \<open>simp add: read_response_def\<close>)
qed

text \<open>When a reader reads, a task is never kept waiting by it.\<close>

definition room_for_all :: "(generation \<Rightarrow> generation) \<Rightarrow> bool" where
  "room_for_all f \<longleftrightarrow> (\<forall>t g. hand_over f t g \<noteq> None)"

lemma take_payloads_returns:
  assumes "room_for_all room"
  shows "take_payloads w room ps (terminal, g) \<noteq> None"
proof (induction ps arbitrary: terminal g)
  case (Cons p ps)
  have "hand_over room t g' = None \<Longrightarrow> False" for t g'
    using assms unfolding room_for_all_def by blast
  with Cons.IH show ?case
    by (auto simp: Let_def split: sum.split list.split option.split prod.split bool.split)
qed simp

text \<open>A backend that goes silent, closes or breaks the connection.\<close>

definition finishes :: "body_event waited \<Rightarrow> bool" where
  "finishes wt \<longleftrightarrow> (case ended wt of Some (Some (Inr _)) \<Rightarrow> False | _ \<Rightarrow> True)"

lemma read_body_returns:
  assumes "room_for_all room" and "\<exists>x\<in>set waits. finishes x"
  shows "read_body w su room waits d terminal g \<noteq> None"
  using assms(2)
proof (induction waits arbitrary: d terminal g)
  case (Cons wt waits)
  obtain x g1 where a: "await wt g = (x, g1)" by fastforce
  have on: "\<exists>x\<in>set waits. finishes x" if "x = Inr (Some (Inr f))" for f
    using that a Cons.prems by (auto simp: finishes_def await_def Let_def idle_out_def
        split: option.splits if_splits)
  consider cause where "x = Inl cause" | "x = Inr None" | err where "x = Inr (Some (Inl err))"
    | "x = Inr (Some (Inr Trailers))" | chunk where "x = Inr (Some (Inr (Data chunk)))"
    by (metis frame.exhaust old.sum.exhaust option.exhaust)
  then show ?case
  proof cases
    case 4
    with a on Cons.IH show ?thesis by simp
  next
    case (5 chunk)
    show ?thesis
    proof (cases "push su chunk d")
      case (Inr r)
      obtain ps d1 where r: "r = (ps, d1)" by fastforce
      from take_payloads_returns [OF assms(1)] obtain y t g2 where
        "take_payloads w room ps (terminal, g1) = Some (y, t, g2)" by fastforce
      with 5 a Inr r on Cons.IH show ?thesis by (cases y) auto
    qed (use 5 a in simp)
  qed (use a in simp_all)
qed simp

lemma step_of_returns: "(\<And>v g. k v g \<noteq> None) \<Longrightarrow> step_of wt g k \<noteq> None"
  by (auto simp: step_of_def split: prod.splits sum.splits)

lemma execute_returns:
  assumes "room_for_all (sp_room p)" and "\<exists>x\<in>set (sp_frames p). finishes x"
  shows "\<exists>g'. execute w su p j g = Some g'"
proof -
  have "answered w su p status g \<noteq> None" for status g
    using read_body_returns [OF assms] by (simp add: answered_def Let_def read_response_def)
  then have "send_job w su p q g \<noteq> None" for q g
    by (cases "sp_build p q")
       (simp_all only: send_job_def sum.case step_of_returns option.distinct not_False_eq_True)
  then have "execute w su p j g \<noteq> None"
    by (cases "jb_body j")
       (simp_all only: execute_def sum.case step_of_returns option.distinct not_False_eq_True)
  then show ?thesis by simp
qed

lemma polite_id: "polite (\<lambda>g. g)"
  by (simp add: polite_def)

lemma reader_id: "reader (\<lambda>g. g)"
  by (auto simp: reader_def intro: exI [of _ 0])

section \<open>An example\<close>

text \<open>Two events with text \<open>hi\<close> and then the reason, an end marker, and a reader that reads all it
  is offered.\<close>

definition sample_wire :: wire where
  "sample_wire = \<lparr>wi_encode = (\<lambda>_. Inr []),
     wi_response = (\<lambda>bs. if bs = [120] then Inr \<lparr>wr_choices = [\<lparr>wc_text = ''hi'', wc_finish_reason = None\<rparr>],
         wr_usage = None\<rparr>
       else if bs = [121] then Inr \<lparr>wr_choices = [\<lparr>wc_text = [], wc_finish_reason = Some ''stop''\<rparr>],
         wr_usage = None\<rparr>
       else Inl ''expected value''),
     wi_embeddings = (\<lambda>_. Inl ''expected value''), wi_error = (\<lambda>_. None), wi_lossy = text_of\<rparr>"

definition sample_events :: "u8 list list list" where
  "sample_events = [[[120]], [[121]], [[91, 68, 79, 78, 69, 93]]]"

definition sample_room :: "generation \<Rightarrow> generation" where
  "sample_room g = (if flowing g then read_n (length (gn_queue g)) g
     else if gn_receiver g then stream_drop g else g)"

definition still :: "'a option \<Rightarrow> 'a waited" where
  "still v = Waited (\<lambda>g. g) (\<lambda>g. g) v"

definition sample_peer :: stream_peer where
  "sample_peer = \<lparr>sp_connect = still (Some (Inr ())), sp_handshake = still (Some (Inr ())),
     sp_build = (\<lambda>_. Inr ()), sp_send = (\<lambda>_. still (Some (Inr 200))), sp_collect = still None,
     sp_frames = [still None], sp_room = sample_room\<rparr>"

definition sample_job :: job where
  "sample_job = \<lparr>jb_host = ''127.0.0.1:1'', jb_secret = ''k'', jb_body = Inr []\<rparr>"

definition cancel_it :: "generation \<Rightarrow> generation" where
  "cancel_it g = g\<lparr>gn_handle := snd (request_cancellation User (gn_handle g))\<rparr>"

lemma makes_room_sample: "makes_room sample_room"
  using read_n_drop by (auto simp: makes_room_def reader_def sample_room_def GENERATION_STREAM_BUFFER_def)

lemma room_for_all_sample: "room_for_all sample_room"
proof -
  have "sink_delta t (sample_room g) \<noteq> None" for t g
    using read_n_drop [of g "length (gn_queue g)"]
    by (auto simp: sample_room_def stream_drop_def sink_delta_def channel_send_def GENERATION_STREAM_BUFFER_def)
  then show ?thesis by (auto simp: room_for_all_def hand_over_def split: option.splits)
qed

lemma flowing_new: "flowing (generation_stream (new_handle i))"
  by (simp add: flowing_def task_ok_def generation_stream_def new_handle_def new_token_def)

lemma polite_still: "polite_wait (still v)"
  by (simp add: polite_wait_def still_def polite_id)

lemma outside_read_n: "flowing g \<Longrightarrow> outside g (read_n k g)"
proof (induction k arbitrary: g)
  case (Suc k)
  show ?case
  proof (cases "stream_next g")
    case (Some r)
    obtain x g1 where r: "r = (x, g1)" by fastforce
    have "outside g g1"
      using Suc.prems Some r by (intro outside_next) (auto simp: flowing_def)
    moreover have "flowing g1" using read_n_drop [OF Suc.prems, of 1] Some r by simp
    ultimately show ?thesis using Suc.IH [of g1] Some r outside_trans by simp
  qed simp
qed simp

lemma polite_sample_peer: "polite_peer sample_peer"
proof -
  have "polite sample_room"
    by (simp add: polite_def sample_room_def outside_read_n outside_drop)
  then show ?thesis by (simp add: polite_peer_def sample_peer_def polite_still)
qed

lemma sample_peer_returns:
  "room_for_all (sp_room sample_peer)" "\<exists>x\<in>set (sp_frames sample_peer). finishes x"
  by (simp_all add: sample_peer_def room_for_all_sample finishes_def still_def)

lemma sendable_sample: "\<forall>e\<in>set sample_events. sendable e"
  by (simp add: sample_events_def sendable_def line_end_def)

lemma done_sample: "text_of [91, 68, 79, 78, 69, 93] = DONE_MARKER"
  unfolding DONE_MARKER_def by code_simp

lemma script_sample: "script sample_wire (map event_payload sample_events) None
    = ([''hi'', []], Some \<lparr>s_finish_reason = Stop, s_usage = None\<rparr>, AtMarker)"
proof -
  have "trim (text_of [b]) = text_of [b]" if "b = 120 \<or> b = 121" for b
    using that by (intro trim_printing) (auto simp: text_of_def printing_def)
  moreover have "trim (text_of [91, 68, 79, 78, 69, 93]) = DONE_MARKER"
    unfolding done_sample by (rule trim_printing) (simp_all add: DONE_MARKER_def printing_def)
  moreover have "text_of [b] \<noteq> DONE_MARKER" for b
    by (simp add: text_of_def DONE_MARKER_def)
  ultimately show ?thesis
    by (simp add: sample_events_def sample_wire_def note_terminal_def)
qed

lemma script_opening: "script sample_wire (map event_payload (take 2 sample_events)) None
    = ([''hi'', []], Some \<lparr>s_finish_reason = Stop, s_usage = None\<rparr>, AtClose)"
proof -
  have "trim (text_of [b]) = text_of [b]" if "b = 120 \<or> b = 121" for b
    using that by (intro trim_printing) (auto simp: text_of_def printing_def)
  moreover have "text_of [b] \<noteq> DONE_MARKER" for b
    by (simp add: text_of_def DONE_MARKER_def)
  ultimately show ?thesis
    by (simp add: sample_events_def sample_wire_def note_terminal_def)
qed

section \<open>Properties\<close>

text \<open>C1: a streaming task keeps the protocol and ends it exactly once. Whatever the backend
  answers and whatever readers and cancellers do while it waits, everything it does is a run of the
  streaming protocol; when it is done its sink has ended with one final event, which is what the
  request is recorded as: a failure, a cancellation with the recorded cause (or because the reader
  left), or a completion with the reason and usage of an event the backend sent.\<close>

theorem task_refines_protocol:
  assumes "execute w su p j (generation_stream (new_handle i)) = Some g" and "polite_peer p"
  shows "(\<exists>seen. gen_reachable i (g, seen)) \<and> ended_by w i g"
proof -
  let ?g = "generation_stream (new_handle i)"
  have "task_ok ?g" by (simp add: task_ok_def generation_stream_def new_handle_def)
  from execute_ends [OF assms this] have e: "ended_by w (h_id (gn_handle ?g)) g" "stepping ?g g"
    by (simp_all add: task_ends_def)
  then obtain seen where "gen_step\<^sup>*\<^sup>* (?g, []) (g, seen)" unfolding stepping_def by blast
  moreover have "gen_reachable i s'" if "gen_step\<^sup>*\<^sup>* s s'" "gen_reachable i s" for s s'
    using that by (induction rule: rtranclp_induct) (auto intro: gen_reachable.step)
  ultimately have "gen_reachable i (g, seen)" using gen_reachable.start by blast
  with e(1) show ?thesis by (auto simp: generation_stream_def new_handle_def)
qed

theorem task_refines_protocol_witness:
  "\<exists>g. execute sample_wire (\<lambda>_. []) sample_peer sample_job (generation_stream (new_handle (RequestId 7))) = Some g
    \<and> (\<exists>seen. gen_reachable (RequestId 7) (g, seen)) \<and> ended_by sample_wire (RequestId 7) g"
proof -
  obtain g where "execute sample_wire (\<lambda>_. []) sample_peer sample_job
      (generation_stream (new_handle (RequestId 7))) = Some g"
    using execute_returns [OF sample_peer_returns] by blast
  with task_refines_protocol [OF this polite_sample_peer] show ?thesis by blast
qed

text \<open>C32: cancelling is prompt. Wherever a task waits for the backend (to be connected, for the
  handshake, for the answer to begin, for the body of a refusal, or for the next piece of the answer,
  however much of it has arrived, and whether or not it has already said why generation stopped), a
  request that is cancelled by the time the task looks up from that wait ends there as cancelled with
  that cause, whatever the backend has to say. Waiting for the reader to make room is not one of
  these waits.\<close>

theorem cancellation_prompt:
  assumes "task_ok g" and "polite_peer p"
    and "task_wait w su p j g others gx" and "h_token (gn_handle (others gx)) = Some cause"
  shows "\<exists>g'. execute w su p j g = Some g' \<and> cancelled_with (h_id (gn_handle g)) cause g'"
  using task_wait_cancelled [OF assms(3,2,1,4)] by blast

theorem cancellation_prompt_witness:
  "let p = sample_peer\<lparr>sp_frames :=
        [still (Some (Some (Inr (Data (encode_event [[121]]))))), Waited cancel_it (\<lambda>g. g) None]\<rparr>
   in \<exists>g'. execute sample_wire (\<lambda>_. []) p sample_job (generation_stream (new_handle (RequestId 7))) = Some g'
      \<and> cancelled_with (RequestId 7) User g'"
proof -
  let ?p = "sample_peer\<lparr>sp_frames :=
      [still (Some (Some (Inr (Data (encode_event [[121]]))))), Waited cancel_it (\<lambda>g. g) None]\<rparr>"
  let ?g = "generation_stream (new_handle (RequestId 7))"
  let ?g1 = "?g\<lparr>gn_handle := mark_running (gn_handle ?g)\<rparr>"
  have "flowing ?g" by (rule flowing_new)
  then have g: "task_ok ?g" "flowing ?g" by (simp_all add: flowing_def)
  have i: "h_id (gn_handle ?g) = RequestId 7" by (simp add: generation_stream_def new_handle_def)
  have g1: "flowing ?g1" using g(2) by (auto simp: flowing_def task_ok_def mark_running_def)
  have polite: "polite_peer ?p"
    using polite_sample_peer polite_still outside_request_cancel [of _ User]
    by (simp add: polite_peer_def polite_wait_def polite_id polite_def cancel_it_def)
  have still: "await (still (Some v)) x = (Inr v, x)" if "flowing x" for v x
    using that by (simp add: await_def still_def flowing_def)
  have word: "trim (text_of [121]) = text_of [121]" "text_of [121] \<noteq> DONE_MARKER"
    by (auto intro!: trim_printing simp: text_of_def printing_def DONE_MARKER_def)
  have push: "push (\<lambda>_. []) (encode_event [[121]]) new_decoder = Inr ([text_of [121]], new_decoder)"
    using push_eq_drain [of new_decoder "encode_event [[121]]" "\<lambda>_. []"] drain_events [of "[[[121]]]" "\<lambda>_. []"]
    by (simp add: sendable_def line_end_def encode_event_def encode_line_def data_field_def MAX_PENDING_BYTES_def)
  have take: "take_payloads sample_wire sample_room [text_of [121]] (None, ?g1)
      = Some (None, Some \<lparr>s_finish_reason = Stop, s_usage = None\<rparr>, ?g1)"
    using g1 by (simp add: word sample_wire_def note_terminal_def hand_over_def sink_delta_def flowing_def task_ok_def)
  have "body_wait sample_wire (\<lambda>_. []) (sp_room ?p) (sp_frames ?p) new_decoder None ?g1
      (Waited cancel_it (\<lambda>g. g) None) ?g1"
    using body_wait.after_data [OF still [OF g1] push] take body_wait.at_this
    by (simp add: sample_peer_def)
  from task_wait.reading [OF _ _ _ _ _ _ this, where j = sample_job and body = "[]" and g = ?g and status = 200]
  have "task_wait sample_wire (\<lambda>_. []) ?p sample_job ?g cancel_it ?g1"
    by (simp add: sample_job_def sample_peer_def still [OF g(2)] is_success_def)
  moreover have "h_token (gn_handle (cancel_it ?g1)) = Some User"
    using g1 by (simp add: cancel_it_def request_cancellation_def token_cancel_def flowing_def task_ok_def)
  ultimately show ?thesis
    using cancellation_prompt [OF g(1) polite] i by (simp add: Let_def)
qed



text \<open>C33: a streaming task always returns when its reader reads or leaves: if the backend goes
  silent, closes the connection or breaks it, at whatever point, the task ends.\<close>

theorem stream_task_returns:
  assumes "room_for_all (sp_room p)" and "\<exists>x\<in>set (sp_frames p). finishes x"
  shows "\<exists>g'. execute w su p j g = Some g'"
  by (rule execute_returns [OF assms])

theorem stream_task_returns_witness:
  "\<exists>g. execute sample_wire (\<lambda>_. []) sample_peer sample_job (generation_stream (new_handle (RequestId 7))) = Some g"
  by (rule stream_task_returns [OF sample_peer_returns])

text \<open>a reader that stops reading holds up its own cancellation. With a full channel whose
  reader is alive but does not read, a task that has received an event with text waits for room
  and nothing else: although the request was cancelled while it waits, it does not end.\<close>

theorem blocked_reader_defers_cancellation:
  assumes "flowing g" and "length (gn_queue g) = GENERATION_STREAM_BUFFER"
    and "push su chunk d = Inr (payload # payloads, d')" and "trim payload \<noteq> DONE_MARKER"
    and "wi_response w (bytes_of payload) = Inr wr" and "wr_choices wr = c # cs" and "wc_text c \<noteq> []"
    and "others_did wait = (\<lambda>g. g)" and "ended wait = Some (Some (Inr (Data chunk)))"
    and "room = (\<lambda>g. g\<lparr>gn_handle := snd (request_cancellation cause (gn_handle g))\<rparr>)"
  shows "h_token (gn_handle (room g)) = Some cause
    \<and> read_body w su room (wait # waits) d terminal g = None"
proof -
  have full: "sink_delta (wc_text c) g = None" "sink_delta (wc_text c) (room g) = None"
    using assms(1,2,7,10)
    by (simp_all add: sink_delta_def channel_send_def flowing_def task_ok_def)
  then have "hand_over room (wc_text c) g = None" by (simp add: hand_over_def)
  with assms(4-6) have "take_payloads w room (payload # payloads) (terminal, g) = None"
    by (simp add: Let_def)
  moreover have "await wait g = (Inr (Some (Inr (Data chunk))), g)"
    using assms(1,8,9) by (simp add: await_def flowing_def)
  moreover have "h_token (gn_handle (room g)) = Some cause"
    using assms(1,10) by (simp add: flowing_def task_ok_def request_cancellation_def token_cancel_def)
  ultimately show ?thesis using assms(3) by simp
qed

theorem blocked_reader_defers_cancellation_witness:
  "let g = (generation_stream (new_handle (RequestId 7)))
        \<lparr>gn_queue := replicate GENERATION_STREAM_BUFFER (Inr (Started (RequestId 7)))\<rparr>;
       room = (\<lambda>g. g\<lparr>gn_handle := snd (request_cancellation User (gn_handle g))\<rparr>)
   in h_token (gn_handle (room g)) = Some User
      \<and> read_body sample_wire (\<lambda>_. []) room [still (Some (Some (Inr (Data (encode_event [[120]])))))]
          new_decoder None g = None"
proof -
  let ?g = "(generation_stream (new_handle (RequestId 7)))
        \<lparr>gn_queue := replicate GENERATION_STREAM_BUFFER (Inr (Started (RequestId 7)))\<rparr>"
  let ?wr = "\<lparr>wr_choices = [\<lparr>wc_text = ''hi'', wc_finish_reason = None\<rparr>], wr_usage = None\<rparr>"
  have "flowing ?g" "length (gn_queue ?g) = GENERATION_STREAM_BUFFER"
    by (simp_all add: flowing_def task_ok_def generation_stream_def new_handle_def new_token_def)
  moreover have "push (\<lambda>_. []) (encode_event [[120]]) new_decoder = Inr ([text_of [120]], new_decoder)"
    using push_eq_drain [of new_decoder "encode_event [[120]]" "\<lambda>_. []"] drain_events [of "[[[120]]]" "\<lambda>_. []"]
    by (simp add: sendable_def line_end_def encode_event_def encode_line_def data_field_def MAX_PENDING_BYTES_def)
  moreover have "trim (text_of [120]) \<noteq> DONE_MARKER"
    by (simp add: text_of_def trim_printing printing_def DONE_MARKER_def)
  moreover have "wi_response sample_wire (bytes_of (text_of [120])) = Inr ?wr" "wr_choices ?wr = [hd (wr_choices ?wr)]"
    "wc_text (hd (wr_choices ?wr)) \<noteq> []"
    by (simp_all add: sample_wire_def)
  ultimately show ?thesis
    unfolding Let_def by (rule blocked_reader_defers_cancellation) (simp_all add: still_def)
qed

text \<open>a parameter a caller left unset is not sent. The fields of a request on the wire are the
  prompt and exactly those the caller set, each with the caller's value; in particular a temperature
  of zero is sent and a request that does not stream says nothing about streaming.\<close>

theorem unset_is_omitted:
  "map_of (wire_fields (wire_of streaming r)) k =
     (if k = ''prompt'' then Some (JText (text_input_as_str (gt_input r)))
      else if k = ''n_predict'' then map_option JU32 (max_output_tokens (gt_parameters r))
      else if k = ''temperature'' then map_option JF32 (temperature (gt_parameters r))
      else if k = ''seed'' then map_option JU64 (seed (gt_parameters r))
      else if k = ''stop'' \<and> stop (gt_parameters r) \<noteq> [] then Some (JTexts (stop (gt_parameters r)))
      else if k = ''stream'' \<and> streaming then Some (JBool True) else None)"
  by (auto simp: wire_fields_def wire_of_def split: option.split)

end
