(* ===== verification/Service.thy ===== *)
theory Service
  imports Endpoint Backend
begin

text \<open>
  The daemon and its client: the protocol (\<open>mehoy-protocol/src/lib.rs\<close>), the routes, the accept
  loop and the command line of \<open>mehoyd\<close> (\<open>mehoy-daemon/src\<close>), and the client \<open>mehoy\<close>
  (\<open>mehoy-cli/src\<close>).

  JSON is the record \<open>codec\<close>, of which the client relies only on \<open>faithful\<close>: what was encoded is
  decoded. HTTP is an \<open>exchange\<close>: what each step of one request yields. What happens to a serving
  daemon is the list of events its accept loop selects; a daemon that is still serving has no
  result yet, which is \<open>None\<close>. What the two programs print is a list of lines.
\<close>

section \<open>The protocol\<close>

record protocol_version =
  pv_major :: u32
  pv_minor :: u32

definition PROTOCOL_MAJOR :: u32 where
  "PROTOCOL_MAJOR = 1"

definition PROTOCOL_MINOR :: u32 where
  "PROTOCOL_MINOR = 0"

definition PATH_HEALTH :: string where
  "PATH_HEALTH = ''/health''"

definition PATH_RUNTIME :: string where
  "PATH_RUNTIME = ''/v1/runtime''"

definition CURRENT :: protocol_version where
  "CURRENT = \<lparr>pv_major = PROTOCOL_MAJOR, pv_minor = PROTOCOL_MINOR\<rparr>"

definition is_compatible_with :: "protocol_version \<Rightarrow> protocol_version \<Rightarrow> bool" where
  "is_compatible_with client daemon \<longleftrightarrow>
     pv_major client = pv_major daemon \<and> pv_minor client \<le> pv_minor daemon"

record runtime_identity =
  ri_name :: string
  ri_version :: string

record runtime_info =
  rn_protocol :: protocol_version
  rn_runtime :: runtime_identity

datatype health_status = HealthOk | ShuttingDown

record error_body =
  eb_code :: string
  eb_message :: string

section \<open>The routes\<close>

record codec =
  to_health :: "health_status \<Rightarrow> u8 list option"
  to_runtime :: "runtime_info \<Rightarrow> u8 list option"
  to_error :: "error_body \<Rightarrow> u8 list option"
  of_health :: "u8 list \<Rightarrow> string + health_status"
  of_runtime :: "u8 list \<Rightarrow> string + runtime_info"
  of_error :: "u8 list \<Rightarrow> error_body option"
  of_bytes :: "u8 list \<Rightarrow> string"

record response =
  rs_status :: u16
  rs_headers :: "(string \<times> string) list"
  rs_body :: "u8 list"

definition RUNTIME_NAME :: string where
  "RUNTIME_NAME = ''mehoyd''"

definition RUNTIME_VERSION :: string where
  "RUNTIME_VERSION = ''0.1.0''"

definition served_info :: runtime_info where
  "served_info = \<lparr>rn_protocol = CURRENT,
     rn_runtime = \<lparr>ri_name = RUNTIME_NAME, ri_version = RUNTIME_VERSION\<rparr>\<rparr>"

definition build_response :: "u16 \<Rightarrow> u8 list \<Rightarrow> response" where
  "build_response status bs =
     \<lparr>rs_status = status, rs_headers = [(''content-type'', ''application/json'')], rs_body = bs\<rparr>"

definition encoding_failed :: string where
  "encoding_failed =
     ''{\"error\":{\"code\":\"encoding_failed\",\"message\":\"response could not be encoded\"}}''"

definition json_response :: "u16 \<Rightarrow> u8 list option \<Rightarrow> response" where
  "json_response status body = (case body of
     Some bs \<Rightarrow> build_response status bs
   | None \<Rightarrow> build_response 500 (bytes_of encoding_failed))"

definition method_not_allowed :: "codec \<Rightarrow> response" where
  "method_not_allowed c =
     (let r = json_response 405 (to_error c
        \<lparr>eb_code = ''method_not_allowed'', eb_message = ''this route accepts GET only''\<rparr>)
      in r\<lparr>rs_headers := rs_headers r @ [(''allow'', ''GET'')]\<rparr>)"

definition route :: "codec \<Rightarrow> string \<Rightarrow> string \<Rightarrow> response" where
  "route c meth path =
     (if path = PATH_HEALTH then
        (if meth = ''GET'' then json_response 200 (to_health c HealthOk) else method_not_allowed c)
      else if path = PATH_RUNTIME then
        (if meth = ''GET'' then json_response 200 (to_runtime c served_info) else method_not_allowed c)
      else json_response 404 (to_error c
        \<lparr>eb_code = ''not_found'', eb_message = ''no route for '' @ path\<rparr>))"

text \<open>A connection's requests are routed by the path of their URI, which the HTTP library reads:
  \<open>path_of\<close>.\<close>

definition serve_request :: "codec \<Rightarrow> (string \<Rightarrow> string) \<Rightarrow> string \<Rightarrow> string \<Rightarrow> response" where
  "serve_request c path_of meth uri = route c meth (path_of uri)"

section \<open>Serving\<close>

definition DRAIN_DEADLINE :: nat where
  "DRAIN_DEADLINE = 5000000000"

definition is_transient :: "io_error \<Rightarrow> bool" where
  "is_transient err \<longleftrightarrow> io_kind err \<in> {KAborted, KReset, KInterrupted, KBrokenPipe}"

text \<open>Connections are numbered. The branches of the accept loop's \<open>select\<close>:\<close>

datatype serve_event = ShutdownAsked | Incoming "io_error + nat" | Reaped nat

fun serve_loop :: "serve_event list \<Rightarrow> nat list \<Rightarrow> (io_error + nat list) option" where
  "serve_loop [] connections = None"
| "serve_loop (ShutdownAsked # es) connections = Some (Inr connections)"
| "serve_loop (Incoming (Inr n) # es) connections = serve_loop es (n # connections)"
| "serve_loop (Incoming (Inl err) # es) connections =
     (if is_transient err then serve_loop es connections else Some (Inl err))"
| "serve_loop (Reaped n # es) connections = serve_loop es (remove1 n connections)"

datatype drain_event = DeadlinePassed | Joined nat

text \<open>The connections that had to be abandoned.\<close>

fun drain_connections :: "drain_event list \<Rightarrow> nat list \<Rightarrow> nat list option" where
  "drain_connections es [] = Some []"
| "drain_connections [] connections = None"
| "drain_connections (DeadlinePassed # es) connections = Some connections"
| "drain_connections (Joined n # es) connections = drain_connections es (remove1 n connections)"

text \<open>Every way out drops the connections that are left and the endpoint.\<close>

definition serve :: "host \<Rightarrow> string \<Rightarrow> serve_event list \<Rightarrow> drain_event list \<Rightarrow> place \<Rightarrow>
    ((io_error + unit) \<times> place) option" where
  "serve ho address es ds p = (case serve_loop es [] of
     None \<Rightarrow> None
   | Some (Inl err) \<Rightarrow> Some (Inl err, fst (endpoint_drop ho address p))
   | Some (Inr connections) \<Rightarrow> (case drain_connections ds connections of
       None \<Rightarrow> None
     | Some _ \<Rightarrow> Some (Inr (), fst (endpoint_drop ho address p))))"

section \<open>The daemon's command line\<close>

datatype print = Out string | Err string

definition unlines :: "string list \<Rightarrow> string" where
  "unlines ls = concat (map (\<lambda>l. l @ [CHR 0x0A]) ls)"

definition DAEMON_USAGE :: string where
  "DAEMON_USAGE = unlines [
     ''mehoyd, the Mehoy runtime daemon'',
     '''',
     ''Usage:'',
     ''  mehoyd [options]'',
     '''',
     ''Options:'',
     ''  --endpoint <address>  Listen on this endpoint instead of the per-user default'',
     ''  -h, --help            Print this message'',
     ''  -V, --version         Print the version'',
     '''',
     ''Environment:'',
     ''  MEHOY_ENDPOINT        Same as --endpoint, used when the flag is absent'']"

datatype daemon_call = DaemonServe "string option" | DaemonHelp | DaemonVersion

fun daemon_args :: "string option \<Rightarrow> string list \<Rightarrow> string + daemon_call" where
  "daemon_args endpoint [] = Inr (DaemonServe endpoint)"
| "daemon_args endpoint (arg # args) =
     (if arg = ''-h'' \<or> arg = ''--help'' then Inr DaemonHelp
      else if arg = ''-V'' \<or> arg = ''--version'' then Inr DaemonVersion
      else if arg = ''--endpoint'' then
        (case args of [] \<Rightarrow> Inl ''--endpoint requires an address''
         | val # rest \<Rightarrow> daemon_args (Some val) rest)
      else Inl (''unrecognised argument: '' @ arg))"

record daemon_env =
  de_default :: "endpoint_error + string"
  de_runtime :: "string option"
  de_meddling :: meddling
  de_host :: host
  de_place :: place
  de_events :: "serve_event list"
  de_drain :: "drain_event list"

definition ENDPOINT_ENV :: string where
  "ENDPOINT_ENV = ''MEHOY_ENDPOINT''"

definition daemon_serve :: "daemon_env \<Rightarrow> string \<Rightarrow> (u8 \<times> print list \<times> place) option" where
  "daemon_serve e address =
     (case endpoint_bind (de_meddling e) (de_host e) address (de_place e) of
        (Inl (AlreadyRunning a), p, _) \<Rightarrow>
          Some (3, [Err (''mehoyd: '' @ show_endpoint_error (AlreadyRunning a))], p)
      | (Inl err, p, _) \<Rightarrow> Some (1, [Err (''mehoyd: '' @ show_endpoint_error err),
          Err (''mehoyd: set '' @ ENDPOINT_ENV @ '' to choose a different endpoint'')], p)
      | (Inr bound, p, _) \<Rightarrow>
          map_option (\<lambda>(r, p). (case r of
              Inr _ \<Rightarrow> (0, [Out (''mehoyd '' @ RUNTIME_VERSION @ '' listening on '' @ bound),
                            Out ''mehoyd: shut down''], p)
            | Inl err \<Rightarrow> (1, [Out (''mehoyd '' @ RUNTIME_VERSION @ '' listening on '' @ bound),
                              Err (''mehoyd: '' @ io_message err)], p)))
            (serve (de_host e) bound (de_events e) (de_drain e) p))"

definition daemon_run :: "daemon_env \<Rightarrow> string option \<Rightarrow> (u8 \<times> print list \<times> place) option" where
  "daemon_run e endpoint =
     (case (case endpoint of Some val \<Rightarrow> Inr val | None \<Rightarrow> de_default e) of
        Inl err \<Rightarrow> Some (1, [Err (''mehoyd: '' @ show_endpoint_error err)], de_place e)
      | Inr address \<Rightarrow> (case de_runtime e of
          Some err \<Rightarrow> Some (1, [Err (''mehoyd: cannot start the async runtime: '' @ err)], de_place e)
        | None \<Rightarrow> daemon_serve e address))"

definition daemon_main :: "daemon_env \<Rightarrow> string list \<Rightarrow> (u8 \<times> print list \<times> place) option" where
  "daemon_main e args = (case daemon_args None args of
     Inr DaemonHelp \<Rightarrow> Some (0, [Out DAEMON_USAGE], de_place e)
   | Inr DaemonVersion \<Rightarrow> Some (0, [Out (''mehoyd '' @ RUNTIME_VERSION)], de_place e)
   | Inr (DaemonServe endpoint) \<Rightarrow> daemon_run e endpoint
   | Inl message \<Rightarrow> Some (2, [Err (''mehoyd: '' @ message), Err DAEMON_USAGE], de_place e))"

section \<open>The client\<close>

datatype client_error =
  ClientTransport endpoint_error
| ClientProtocol string
| ClientDaemon u16 string string
| ClientMalformed string

fun show_client_error :: "(u16 \<Rightarrow> string) \<Rightarrow> client_error \<Rightarrow> string" where
  "show_client_error show_status (ClientTransport err) = show_endpoint_error err"
| "show_client_error show_status (ClientProtocol detail) = ''connection failed: '' @ detail"
| "show_client_error show_status (ClientDaemon status code message) =
     ''daemon returned '' @ show_status status @ '' ('' @ code @ ''): '' @ message"
| "show_client_error show_status (ClientMalformed detail) = ''unreadable response: '' @ detail"

record exchange =
  x_connect :: "endpoint_error + unit"
  x_handshake :: "string + unit"
  x_build :: "string \<Rightarrow> string + unit"
  x_send :: "string \<Rightarrow> string + u16"
  x_collect :: "string \<Rightarrow> string + u8 list"

definition daemon_failure :: "codec \<Rightarrow> u16 \<Rightarrow> u8 list \<Rightarrow> client_error" where
  "daemon_failure c status bs = (case of_error c bs of
     None \<Rightarrow> ClientDaemon status ''unknown'' (of_bytes c bs)
   | Some body \<Rightarrow> ClientDaemon status (eb_code body) (eb_message body))"

definition raw_get :: "codec \<Rightarrow> exchange \<Rightarrow> string \<Rightarrow> client_error + u8 list" where
  "raw_get c x path =
     rbind (map_err ClientTransport (x_connect x)) (\<lambda>_.
     rbind (map_err ClientProtocol (x_handshake x)) (\<lambda>_.
     rbind (map_err ClientProtocol (x_build x path)) (\<lambda>_.
     rbind (map_err ClientProtocol (x_send x path)) (\<lambda>status.
     rbind (map_err ClientProtocol (x_collect x path)) (\<lambda>bs.
       if is_success status then Inr bs else Inl (daemon_failure c status bs))))))"

definition client_health :: "codec \<Rightarrow> exchange \<Rightarrow> client_error + health_status" where
  "client_health c x = rbind (raw_get c x PATH_HEALTH) (\<lambda>bs. map_err ClientMalformed (of_health c bs))"

definition client_runtime :: "codec \<Rightarrow> exchange \<Rightarrow> client_error + runtime_info" where
  "client_runtime c x = rbind (raw_get c x PATH_RUNTIME) (\<lambda>bs. map_err ClientMalformed (of_runtime c bs))"

section \<open>The client's command line\<close>

definition CLIENT_USAGE :: string where
  "CLIENT_USAGE = unlines [
     ''mehoy, the Mehoy runtime client'',
     '''',
     ''Usage:'',
     ''  mehoy [options] <command>'',
     '''',
     ''Commands:'',
     ''  health     Report whether a daemon is serving'',
     ''  runtime    Report the daemon's identity and protocol version'',
     '''',
     ''Options:'',
     ''  --endpoint <address>  Talk to this endpoint instead of the per-user default'',
     ''  -h, --help            Print this message'',
     ''  -V, --version         Print the version'',
     '''',
     ''Environment:'',
     ''  MEHOY_ENDPOINT        Same as --endpoint, used when the flag is absent'',
     '''',
     ''Exit codes:'',
     ''  0  success'',
     ''  1  the request failed'',
     ''  2  the command line was invalid'',
     ''  3  no daemon is listening'']"

datatype client_command = HealthCommand | RuntimeCommand

datatype client_call = ClientRun client_command "string option" | ClientHelp | ClientVersion

fun client_args :: "string option \<Rightarrow> client_command option \<Rightarrow> string list \<Rightarrow> string + client_call" where
  "client_args endpoint command [] = (case command of
     Some cmd \<Rightarrow> Inr (ClientRun cmd endpoint) | None \<Rightarrow> Inl ''no command given'')"
| "client_args endpoint command (arg # args) =
     (if arg = ''-h'' \<or> arg = ''--help'' then Inr ClientHelp
      else if arg = ''-V'' \<or> arg = ''--version'' then Inr ClientVersion
      else if arg = ''--endpoint'' then
        (case args of [] \<Rightarrow> Inl ''--endpoint requires an address''
         | val # rest \<Rightarrow> client_args (Some val) command rest)
      else if arg = ''health'' \<and> command = None then client_args endpoint (Some HealthCommand) args
      else if arg = ''runtime'' \<and> command = None then client_args endpoint (Some RuntimeCommand) args
      else if prefix ''-'' arg then Inl (''unrecognised option: '' @ arg)
      else Inl (''unrecognised command: '' @ arg))"

definition EXIT_NOT_RUNNING :: u8 where
  "EXIT_NOT_RUNNING = 3"

definition show_health :: "health_status \<Rightarrow> string" where
  "show_health h = (case h of HealthOk \<Rightarrow> ''ok'' | ShuttingDown \<Rightarrow> ''shutting down'')"

definition show_runtime :: "runtime_info \<Rightarrow> string" where
  "show_runtime info = ri_name (rn_runtime info) @ '' '' @ ri_version (rn_runtime info)
     @ [CHR 0x0A] @ ''protocol '' @ show_nat (unat (pv_major (rn_protocol info)))
     @ ''.'' @ show_nat (unat (pv_minor (rn_protocol info)))
     @ (if is_compatible_with CURRENT (rn_protocol info) then []
        else ''  (incompatible with this client)'')"

definition ask :: "codec \<Rightarrow> exchange \<Rightarrow> client_command \<Rightarrow> client_error + string" where
  "ask c x cmd = (case cmd of
     HealthCommand \<Rightarrow> rbind (client_health c x) (\<lambda>h. Inr (show_health h))
   | RuntimeCommand \<Rightarrow> rbind (client_runtime c x) (\<lambda>info. Inr (show_runtime info)))"

record client_env =
  ce_default :: "endpoint_error + string"
  ce_runtime :: "string option"
  ce_codec :: codec
  ce_exchange :: "string \<Rightarrow> exchange"
  ce_show_status :: "u16 \<Rightarrow> string"

definition report :: "(u16 \<Rightarrow> string) \<Rightarrow> client_error + string \<Rightarrow> u8 \<times> print list" where
  "report show_status r = (case r of
     Inr output \<Rightarrow> (0, [Out output])
   | Inl (ClientTransport (NotRunning a)) \<Rightarrow>
       (EXIT_NOT_RUNNING, [Err (''mehoy: '' @ show_endpoint_error (NotRunning a)),
          Err (''mehoy: start one with `mehoyd`, or set '' @ ENDPOINT_ENV)])
   | Inl err \<Rightarrow> (1, [Err (''mehoy: '' @ show_client_error show_status err)]))"

definition client_run :: "client_env \<Rightarrow> client_command \<Rightarrow> string option \<Rightarrow> u8 \<times> print list" where
  "client_run e cmd endpoint =
     (case (case endpoint of Some val \<Rightarrow> Inr val | None \<Rightarrow> ce_default e) of
        Inl err \<Rightarrow> (1, [Err (''mehoy: '' @ show_client_error (ce_show_status e) (ClientTransport err))])
      | Inr address \<Rightarrow> (case ce_runtime e of
          Some err \<Rightarrow> (1, [Err (''mehoy: cannot start the async runtime: '' @ err)])
        | None \<Rightarrow> report (ce_show_status e) (ask (ce_codec e) (ce_exchange e address) cmd)))"

definition client_main :: "client_env \<Rightarrow> string list \<Rightarrow> u8 \<times> print list" where
  "client_main e args = (case client_args None None args of
     Inr ClientHelp \<Rightarrow> (0, [Out CLIENT_USAGE])
   | Inr ClientVersion \<Rightarrow> (0, [Out (''mehoy '' @ RUNTIME_VERSION)])
   | Inr (ClientRun cmd endpoint) \<Rightarrow> client_run e cmd endpoint
   | Inl message \<Rightarrow> (2, [Err (''mehoy: '' @ message), Err CLIENT_USAGE]))"

section \<open>Lemmas\<close>

text \<open>What the client relies on: JSON that was written can be read.\<close>

definition faithful :: "codec \<Rightarrow> bool" where
  "faithful c \<longleftrightarrow> (\<forall>h. \<exists>bs. to_health c h = Some bs \<and> of_health c bs = Inr h)
     \<and> (\<forall>i. \<exists>bs. to_runtime c i = Some bs \<and> of_runtime c bs = Inr i)
     \<and> (\<forall>e. \<exists>bs. to_error c e = Some bs \<and> of_error c bs = Some e)"

text \<open>What the HTTP library does between the two: the client's side makes a request URI of a text or
  refuses it, the daemon's side may answer a request by itself, and otherwise hands on the path of
  its URI.\<close>

record uri_library =
  ul_build :: "string \<Rightarrow> string + string"
  ul_refuse :: "string \<Rightarrow> (u16 \<times> u8 list) option"
  ul_path :: "string \<Rightarrow> string"

text \<open>A path of letters, digits and the marks that never need an escape stands for itself.\<close>

definition PATH_CHARS :: string where
  "PATH_CHARS = ''ABCDEFGHIJKLMNOPQRSTUVWXYZabcdefghijklmnopqrstuvwxyz0123456789-._~/''"

definition plain_path :: "string \<Rightarrow> bool" where
  "plain_path p \<longleftrightarrow> p \<noteq> [] \<and> hd p = CHR ''/''
     \<and> set p \<subseteq> set PATH_CHARS"

definition reads_paths :: "uri_library \<Rightarrow> bool" where
  "reads_paths u \<longleftrightarrow> (\<forall>p. plain_path p \<longrightarrow> ul_build u p = Inr p \<and> ul_refuse u p = None \<and> ul_path u p = p)"

text \<open>An exchange with a daemon that answers.\<close>

definition daemon_answer :: "codec \<Rightarrow> uri_library \<Rightarrow> string \<Rightarrow> u16 \<times> u8 list" where
  "daemon_answer c u uri = (case ul_refuse u uri of
     Some answer \<Rightarrow> answer
   | None \<Rightarrow> (let r = serve_request c (ul_path u) ''GET'' uri in (rs_status r, rs_body r)))"

definition served :: "codec \<Rightarrow> uri_library \<Rightarrow> exchange" where
  "served c u = \<lparr>x_connect = Inr (), x_handshake = Inr (),
     x_build = (\<lambda>path. rbind (ul_build u path) (\<lambda>_. Inr ())),
     x_send = (\<lambda>path. rbind (ul_build u path) (\<lambda>uri. Inr (fst (daemon_answer c u uri)))),
     x_collect = (\<lambda>path. rbind (ul_build u path) (\<lambda>uri. Inr (snd (daemon_answer c u uri))))\<rparr>"

lemma raw_get_served: "raw_get c (served c u) path = (case ul_build u path of
    Inl err \<Rightarrow> Inl (ClientProtocol err)
  | Inr uri \<Rightarrow> (let (status, bs) = daemon_answer c u uri
      in if is_success status then Inr bs else Inl (daemon_failure c status bs)))"
  by (simp add: raw_get_def served_def Let_def split: sum.split prod.split)

lemma paths_plain: "plain_path PATH_HEALTH" "plain_path PATH_RUNTIME"
  by (simp_all add: plain_path_def PATH_CHARS_def PATH_HEALTH_def PATH_RUNTIME_def)

lemma paths_distinct: "PATH_RUNTIME \<noteq> PATH_HEALTH"
  by (simp add: PATH_HEALTH_def PATH_RUNTIME_def)

lemma served_path:
  assumes "ul_build u path = Inr uri" and "ul_refuse u uri = None"
  shows "raw_get c (served c u) path = (let r = route c ''GET'' (ul_path u uri)
     in if is_success (rs_status r) then Inr (rs_body r)
        else Inl (daemon_failure c (rs_status r) (rs_body r)))"
  using assms by (simp add: raw_get_served daemon_answer_def serve_request_def Let_def)

lemma served_health:
  assumes "faithful c" and "reads_paths u"
  shows "client_health c (served c u) = Inr HealthOk"
proof -
  have p: "ul_build u PATH_HEALTH = Inr PATH_HEALTH" "ul_refuse u PATH_HEALTH = None"
    "ul_path u PATH_HEALTH = PATH_HEALTH"
    using assms(2) paths_plain unfolding reads_paths_def by blast+
  obtain bs where "to_health c HealthOk = Some bs" "of_health c bs = Inr HealthOk"
    using assms unfolding faithful_def by blast
  then show ?thesis
    by (simp add: client_health_def served_path [OF p(1,2)] p(3) route_def json_response_def build_response_def
        is_success_def)
qed

lemma served_runtime:
  assumes "faithful c" and "reads_paths u"
  shows "client_runtime c (served c u) = Inr served_info"
proof -
  have p: "ul_build u PATH_RUNTIME = Inr PATH_RUNTIME" "ul_refuse u PATH_RUNTIME = None"
    "ul_path u PATH_RUNTIME = PATH_RUNTIME"
    using assms(2) paths_plain unfolding reads_paths_def by blast+
  obtain bs where "to_runtime c served_info = Some bs" "of_runtime c bs = Inr served_info"
    using assms unfolding faithful_def by blast
  then show ?thesis
    by (simp add: client_runtime_def served_path [OF p(1,2)] p(3) route_def paths_distinct json_response_def
        build_response_def is_success_def)
qed

lemma served_elsewhere:
  assumes "faithful c" and "ul_build u path = Inr uri" and "ul_refuse u uri = None"
    and "ul_path u uri \<notin> {PATH_HEALTH, PATH_RUNTIME}"
  shows "raw_get c (served c u) path = Inl (ClientDaemon 404 ''not_found'' (''no route for '' @ ul_path u uri))"
proof -
  let ?e = "\<lparr>eb_code = ''not_found'', eb_message = ''no route for '' @ ul_path u uri\<rparr>"
  obtain bs where "to_error c ?e = Some bs" "of_error c bs = Some ?e"
    using assms(1) unfolding faithful_def by blast
  with assms(4) show ?thesis
    by (simp add: served_path [OF assms(2,3)] route_def json_response_def build_response_def is_success_def
        daemon_failure_def)
qed

lemma raw_get_transport: "raw_get c x path = Inl (ClientTransport err) \<longleftrightarrow> x_connect x = Inl err"
  by (auto simp: raw_get_def map_err_def daemon_failure_def rbind_eq_Inl
      split: sum.splits if_splits option.splits)

lemma ask_transport: "ask c x cmd = Inl (ClientTransport err) \<longleftrightarrow> x_connect x = Inl err"
proof -
  have "map_err ClientMalformed r \<noteq> Inl (ClientTransport err)" for r :: "string + 'b"
    by (cases r) simp_all
  then have "client_health c x = Inl (ClientTransport err) \<longleftrightarrow> raw_get c x PATH_HEALTH = Inl (ClientTransport err)"
    "client_runtime c x = Inl (ClientTransport err) \<longleftrightarrow> raw_get c x PATH_RUNTIME = Inl (ClientTransport err)"
    by (auto simp: client_health_def client_runtime_def rbind_eq_Inl)
  then show ?thesis
    by (cases cmd) (auto simp: ask_def rbind_eq_Inl raw_get_transport)
qed

text \<open>An outcome of the client: a line on standard output and 0, or lines on standard error.\<close>

definition tells :: "u8 \<times> print list \<Rightarrow> bool" where
  "tells r \<longleftrightarrow> (fst r = 0 \<and> (\<exists>t. snd r = [Out t]))
     \<or> (fst r \<noteq> 0 \<and> snd r \<noteq> [] \<and> (\<forall>l\<in>set (snd r). \<exists>t. l = Err t))"

lemma report_facts:
  "tells (report f r) \<and> fst (report f r) \<noteq> 2
    \<and> (fst (report f r) = 3 \<longleftrightarrow> (\<exists>a. r = Inl (ClientTransport (NotRunning a))))"
proof (cases r)
  case (Inl err)
  show ?thesis
  proof (cases err)
    case (ClientTransport e)
    with Inl show ?thesis by (cases e) (simp_all add: report_def tells_def EXIT_NOT_RUNNING_def)
  qed (use Inl in \<open>simp_all add: report_def tells_def\<close>)
qed (simp add: report_def tells_def)

lemma client_run_facts:
  "tells (client_run e cmd endpoint) \<and> fst (client_run e cmd endpoint) \<noteq> 2
    \<and> (fst (client_run e cmd endpoint) = 3 \<longleftrightarrow> (\<exists>address a.
        (case endpoint of Some val \<Rightarrow> Inr val | None \<Rightarrow> ce_default e) = Inr address
        \<and> ce_runtime e = None \<and> x_connect (ce_exchange e address) = Inl (NotRunning a)))"
proof (cases "case endpoint of Some val \<Rightarrow> Inr val | None \<Rightarrow> ce_default e")
  case (Inl err)
  then show ?thesis by (simp add: client_run_def tells_def)
next
  case (Inr address)
  then show ?thesis
    using report_facts [of "ce_show_status e" "ask (ce_codec e) (ce_exchange e address) cmd"]
    by (cases "ce_runtime e") (simp_all add: client_run_def tells_def ask_transport)
qed

text \<open>The failures of \<open>accept\<close> that are about the one client that was connecting.\<close>

definition client_left :: "io_error \<Rightarrow> bool" where
  "client_left err \<longleftrightarrow> io_kind err = KAborted \<or> io_kind err = KReset \<or> io_kind err = KBrokenPipe
     \<or> io_kind err = KInterrupted"

definition harmless :: "serve_event \<Rightarrow> bool" where
  "harmless ev \<longleftrightarrow> (\<exists>err. ev = Incoming (Inl err) \<and> client_left err)"

lemma is_transient_iff: "is_transient err \<longleftrightarrow> client_left err"
  by (auto simp: is_transient_def client_left_def)

lemma serve_loop_harmless:
  "serve_loop (filter (\<lambda>ev. \<not> harmless ev) es) ns = serve_loop es ns"
  by (induction es ns rule: serve_loop.induct) (auto simp: harmless_def is_transient_iff)

lemma serve_loop_ends:
  assumes "serve_loop es ns = Some r"
  shows "case r of Inr _ \<Rightarrow> ShutdownAsked \<in> set es
    | Inl err \<Rightarrow> Incoming (Inl err) \<in> set es \<and> \<not> client_left err"
  using assms
  by (induction es ns rule: serve_loop.induct) (auto simp: is_transient_iff split: if_splits sum.splits)

section \<open>An example\<close>

text \<open>A codec in which texts are marked byte by byte.\<close>

fun put_text :: "string \<Rightarrow> u8 list \<Rightarrow> u8 list" where
  "put_text [] rest = 0 # rest"
| "put_text (c # cs) rest = 1 # of_nat (of_char c) # put_text cs rest"

fun get_text :: "u8 list \<Rightarrow> string \<times> u8 list" where
  "get_text [] = ([], [])"
| "get_text [b] = ([], [])"
| "get_text (b # c # bs) =
     (if b = 0 then ([], c # bs) else (let (t, rest) = get_text bs in (char_of (unat c) # t, rest)))"

lemma get_put_text [simp]: "get_text (put_text t rest) = (t, rest)"
proof (induction t)
  case Nil
  then show ?case by (cases rest) simp_all
next
  case (Cons c t)
  have "of_char c < (256 :: nat)" by simp
  then have "unat (of_nat (of_char c) :: u8) = of_char c" by (simp add: unat_of_nat)
  with Cons show ?case by simp
qed

definition sample_codec :: codec where
  "sample_codec = \<lparr>
     to_health = (\<lambda>h. Some (if h = HealthOk then [0] else [1])),
     to_runtime = (\<lambda>i. Some (put_text (ri_name (rn_runtime i)) (put_text (ri_version (rn_runtime i))
       (put_text (show_nat (unat (pv_major (rn_protocol i))))
       (put_text (show_nat (unat (pv_minor (rn_protocol i)))) []))))),
     to_error = (\<lambda>e. Some (put_text (eb_code e) (put_text (eb_message e) []))),
     of_health = (\<lambda>bs. Inr (if bs = [0] then HealthOk else ShuttingDown)),
     of_runtime = (\<lambda>bs. let (name, bs) = get_text bs; (version, bs) = get_text bs;
         (major, bs) = get_text bs; (minor, bs) = get_text bs
       in Inr \<lparr>rn_protocol = \<lparr>pv_major = of_nat (read_nat major), pv_minor = of_nat (read_nat minor)\<rparr>,
               rn_runtime = \<lparr>ri_name = name, ri_version = version\<rparr>\<rparr>),
     of_error = (\<lambda>bs. let (code, bs) = get_text bs; (message, bs) = get_text bs
       in Some \<lparr>eb_code = code, eb_message = message\<rparr>),
     of_bytes = text_of\<rparr>"

lemma faithful_sample: "faithful sample_codec"
proof -
  have "of_health sample_codec (if h = HealthOk then [0] else [1]) = Inr h" for h
    by (cases h) (simp_all add: sample_codec_def)
  then show ?thesis
    by (auto simp: faithful_def sample_codec_def read_show_nat)
qed

text \<open>A library that cuts a query off and refuses spaces and texts that are no path.\<close>

definition sample_uris :: uri_library where
  "sample_uris = \<lparr>
     ul_build = (\<lambda>p. if p \<noteq> [] \<and> hd p = CHR ''/'' \<and> CHR '' '' \<notin> set p then Inr p else Inl ''invalid uri character''),
     ul_refuse = (\<lambda>_. None), ul_path = takeWhile (\<lambda>c. c \<noteq> CHR ''?'')\<rparr>"

lemma reads_paths_sample: "reads_paths sample_uris"
proof -
  have "CHR '' '' \<notin> set p \<and> takeWhile (\<lambda>c. c \<noteq> CHR ''?'') p = p" if "plain_path p" for p
  proof -
    have "CHR '' '' \<notin> set PATH_CHARS" "CHR ''?'' \<notin> set PATH_CHARS" by (simp_all add: PATH_CHARS_def)
    then have "c \<noteq> CHR '' '' \<and> c \<noteq> CHR ''?''" if "c \<in> set p" for c
      using \<open>plain_path p\<close> that unfolding plain_path_def by blast
    then show ?thesis by (auto simp: takeWhile_eq_all_conv)
  qed
  then show ?thesis by (simp add: reads_paths_def sample_uris_def plain_path_def)
qed

definition sample_client :: client_env where
  "sample_client = \<lparr>ce_default = Inr ''/run/mehoy/mehoyd.sock'', ce_runtime = None,
     ce_codec = sample_codec, ce_exchange = (\<lambda>_. served sample_codec sample_uris), ce_show_status = (\<lambda>_. [])\<rparr>"

section \<open>Properties\<close>

text \<open>C37: client and daemon agree. Against a daemon of the same build that answers, \<open>mehoy health\<close>
  prints \<open>ok\<close> and \<open>mehoy runtime\<close> the daemon's name and version and protocol 1.0, without calling it
  incompatible, both with exit code 0. For any other text the client is asked to get: one that is no
  URI fails before it is sent, with the reason; and one the daemon takes is answered by the path of its
  URI alone, a query makes no difference: like the two above where that is their path, and otherwise
  with the daemon's own \<open>not_found\<close>, which names it.\<close>

theorem client_daemon_agree:
  assumes "faithful (ce_codec e)" and "reads_paths u" and "ce_runtime e = None"
    and "ce_exchange e address = served (ce_codec e) u"
  shows "client_main e [''--endpoint'', address, ''health''] = (0, [Out ''ok''])
    \<and> client_main e [''runtime'', ''--endpoint'', address]
        = (0, [Out (''mehoyd 0.1.0'' @ [CHR 0x0A] @ ''protocol 1.0'')])
    \<and> (\<forall>path err. ul_build u path = Inl err \<longrightarrow>
        raw_get (ce_codec e) (ce_exchange e address) path = Inl (ClientProtocol err))
    \<and> (\<forall>path uri. ul_build u path = Inr uri \<and> ul_refuse u uri = None \<longrightarrow>
        raw_get (ce_codec e) (ce_exchange e address) path
          = (if ul_path u uri \<in> {PATH_HEALTH, PATH_RUNTIME}
             then raw_get (ce_codec e) (ce_exchange e address) (ul_path u uri)
             else Inl (ClientDaemon 404 ''not_found'' (''no route for '' @ ul_path u uri))))"
proof (intro conjI allI impI)
  show "client_main e [''--endpoint'', address, ''health''] = (0, [Out ''ok''])"
    using assms by (simp add: client_main_def client_run_def ask_def served_health show_health_def report_def)
  have "show_runtime served_info = ''mehoyd 0.1.0'' @ [CHR 0x0A] @ ''protocol 1.0''"
    by code_simp
  then show "client_main e [''runtime'', ''--endpoint'', address]
      = (0, [Out (''mehoyd 0.1.0'' @ [CHR 0x0A] @ ''protocol 1.0'')])"
    using assms by (simp add: client_main_def client_run_def ask_def served_runtime report_def)
  show "raw_get (ce_codec e) (ce_exchange e address) path = Inl (ClientProtocol err)"
    if "ul_build u path = Inl err" for path err using assms(4) that by (simp add: raw_get_served)
  show "raw_get (ce_codec e) (ce_exchange e address) path
      = (if ul_path u uri \<in> {PATH_HEALTH, PATH_RUNTIME}
         then raw_get (ce_codec e) (ce_exchange e address) (ul_path u uri)
         else Inl (ClientDaemon 404 ''not_found'' (''no route for '' @ ul_path u uri)))"
    if uri: "ul_build u path = Inr uri \<and> ul_refuse u uri = None" for path uri
  proof (cases "ul_path u uri \<in> {PATH_HEALTH, PATH_RUNTIME}")
    case True
    then have "plain_path (ul_path u uri)" using paths_plain by auto
    with assms(2) have "ul_build u (ul_path u uri) = Inr (ul_path u uri)" "ul_refuse u (ul_path u uri) = None"
      "ul_path u (ul_path u uri) = ul_path u uri" unfolding reads_paths_def by blast+
    with True uri assms(4) served_path [of u path uri] served_path [of u "ul_path u uri" "ul_path u uri"]
    show ?thesis by simp
  next
    case False
    with uri served_elsewhere [OF assms(1), of u path uri] assms(4) show ?thesis by simp
  qed
qed

theorem client_daemon_agree_witness:
  "client_main sample_client [''runtime'', ''--endpoint'', ''/tmp/x'']
    = (0, [Out (''mehoyd 0.1.0'' @ [CHR 0x0A] @ ''protocol 1.0'')])
   \<and> raw_get sample_codec (ce_exchange sample_client ''/tmp/x'') ''a b'' = Inl (ClientProtocol ''invalid uri character'')
   \<and> raw_get sample_codec (ce_exchange sample_client ''/tmp/x'') ''/x?y''
       = Inl (ClientDaemon 404 ''not_found'' ''no route for /x'')"
proof -
  have e: "faithful (ce_codec sample_client)" "ce_runtime sample_client = None"
    "ce_exchange sample_client ''/tmp/x'' = served (ce_codec sample_client) sample_uris"
    "ce_codec sample_client = sample_codec"
    by (simp_all add: sample_client_def faithful_sample)
  have u: "ul_build sample_uris ''a b'' = Inl ''invalid uri character''"
    "ul_build sample_uris ''/x?y'' = Inr ''/x?y''" "ul_refuse sample_uris ''/x?y'' = None"
    "ul_path sample_uris ''/x?y'' = ''/x''" by (simp_all add: sample_uris_def)
  have "''/x'' \<notin> {PATH_HEALTH, PATH_RUNTIME}" by (simp add: PATH_HEALTH_def PATH_RUNTIME_def)
  with client_daemon_agree [OF e(1) reads_paths_sample e(2,3)] u show ?thesis
    unfolding e(4) by force
qed

text \<open>the client's exit code says what happened. It is 2 exactly when the command line is
  invalid, 3 exactly when nothing listens on the endpoint, 0 exactly when help, the version or an
  answer was printed, and every failure prints to standard error only.\<close>

theorem exit_codes_tell:
  "(fst (client_main e args) = 2 \<longleftrightarrow> (\<exists>m. client_args None None args = Inl m))
    \<and> (fst (client_main e args) = 3 \<longleftrightarrow> (\<exists>cmd endpoint address a.
        client_args None None args = Inr (ClientRun cmd endpoint)
        \<and> (case endpoint of Some val \<Rightarrow> Inr val | None \<Rightarrow> ce_default e) = Inr address
        \<and> ce_runtime e = None \<and> x_connect (ce_exchange e address) = Inl (NotRunning a)))
    \<and> tells (client_main e args)"
proof (cases "client_args None None args")
  case (Inl m)
  then show ?thesis by (simp add: client_main_def tells_def)
next
  case (Inr call)
  then show ?thesis
  proof (cases call)
    case (ClientRun cmd endpoint)
    with Inr client_run_facts [of e cmd endpoint] show ?thesis by (simp add: client_main_def)
  qed (simp_all add: client_main_def tells_def)
qed

text \<open>C38: one client cannot stop the daemon. Accepts that fail because a client went away change
  nothing about what the daemon does; it stops serving only when it is asked to, successfully, or
  when accepting fails for another reason, with that error; and either way its socket is gone when
  it can be removed.\<close>

theorem serving_survives_clients:
  assumes "serve ho address es ds p = Some (r, p')" and "ho_remove ho = None"
  shows "serve ho address (filter (\<lambda>ev. \<not> harmless ev) es) ds p = Some (r, p') \<and> pl_at p' = Vacant
    \<and> (case r of Inr _ \<Rightarrow> ShutdownAsked \<in> set es
        | Inl err \<Rightarrow> Incoming (Inl err) \<in> set es \<and> \<not> client_left err)"
  using assms serve_loop_ends [of es "[]"]
  by (auto simp: serve_def serve_loop_harmless endpoint_drop_def split: option.splits sum.splits)


theorem serving_survives_clients_witness:
  "serve sample_host ''/run/mehoy/mehoyd.sock''
     (filter (\<lambda>ev. \<not> harmless ev) [Incoming (Inr 1), Incoming (Inl (io_of KAborted ''gone'')), ShutdownAsked])
     [Joined 1] \<lparr>pl_dir = Directory 1000 DIR_MODE, pl_at = LiveSocket 1000\<rparr>
   = Some (Inr (), \<lparr>pl_dir = Directory 1000 DIR_MODE, pl_at = Vacant\<rparr>)"
proof -
  have "serve sample_host ''/run/mehoy/mehoyd.sock''
     [Incoming (Inr 1), Incoming (Inl (io_of KAborted ''gone'')), ShutdownAsked]
     [Joined 1] \<lparr>pl_dir = Directory 1000 DIR_MODE, pl_at = LiveSocket 1000\<rparr>
   = Some (Inr (), \<lparr>pl_dir = Directory 1000 DIR_MODE, pl_at = Vacant\<rparr>)"
    by (simp add: serve_def is_transient_def io_of_def endpoint_drop_def sample_host_def)
  from serving_survives_clients [OF this] show ?thesis by (simp add: sample_host_def)
qed

end
