(* ===== verification/Text.thy ===== *)
theory Text
  imports Prelude
begin

text \<open>
  What the programs of the repository use of \<open>str\<close>, \<open>String\<close> and \<open>Path\<close> beyond the prelude: lossy
  decoding, searching and splitting, parsing of unsigned numbers, and the stem of a file name. A
  text is the list of its UTF-8 bytes.
\<close>

section \<open>Lossy decoding\<close>

text \<open>
  The first character of a byte sequence: whether it is well formed, and how many bytes it or the
  ill-formed sequence in its place has. An ill-formed sequence is as long as a prefix of a character
  can be, which is what \<open>String::from_utf8_lossy\<close> replaces by one U+FFFD.
\<close>

definition second_ok :: "u8 \<Rightarrow> u8 \<Rightarrow> bool" where
  "second_ok b c =
     (if b = 224 then 160 \<le> c \<and> c \<le> 191
      else if b = 237 then 128 \<le> c \<and> c \<le> 159
      else if b = 240 then 144 \<le> c \<and> c \<le> 191
      else if b = 244 then 128 \<le> c \<and> c \<le> 143
      else cont_byte c)"

fun tail_of_char :: "nat \<Rightarrow> nat \<Rightarrow> u8 list \<Rightarrow> bool \<times> nat" where
  "tail_of_char 0 k bs = (True, k)"
| "tail_of_char (Suc n) k [] = (False, k)"
| "tail_of_char (Suc n) k (b # bs) = (if cont_byte b then tail_of_char n (k + 1) bs else (False, k))"

definition char_at :: "u8 \<Rightarrow> u8 list \<Rightarrow> bool \<times> nat" where
  "char_at b bs =
     (if b \<le> 127 then (True, 1)
      else if 194 \<le> b \<and> b \<le> 244 then
        (case bs of
           [] \<Rightarrow> (False, 1)
         | c # r \<Rightarrow>
             if \<not> second_ok b c then (False, 1)
             else tail_of_char (if b \<le> 223 then 0 else if b \<le> 239 then 1 else 2) 2 r)
      else (False, 1))"

definition replacement :: string where
  "replacement = map char_of [239 :: nat, 191, 189]"

lemma tail_of_char_pos: "tail_of_char n k bs = (v, l) \<Longrightarrow> k \<le> l"
  by (induction n k bs rule: tail_of_char.induct) (auto split: if_splits)

lemma char_at_pos: "char_at b bs = (v, l) \<Longrightarrow> 0 < l"
  by (auto simp: char_at_def split: if_splits list.splits dest!: tail_of_char_pos)

function lossy :: "u8 list \<Rightarrow> string" where
  "lossy [] = []"
| "lossy (b # bs) =
     (let (valid, l) = char_at b bs
      in (if valid then text_of (take l (b # bs)) else replacement) @ lossy (drop l (b # bs)))"
  by pat_completeness auto
termination
  by (relation "measure length") (auto dest!: char_at_pos [OF sym])

declare lossy.simps(2) [simp del]

lemma valid_utf8_char:
  "valid_utf8 (b # bs) \<longleftrightarrow> fst (char_at b bs) \<and> valid_utf8 (drop (snd (char_at b bs)) (b # bs))"
proof -
  consider "b \<le> 127" | "194 \<le> b" "b \<le> 223" | "224 \<le> b" "b \<le> 239" | "240 \<le> b" "b \<le> 244"
    | "127 < b" "b < 194" | "244 < b"
    unfolding word_le_nat_alt word_less_nat_alt by simp linarith
  then show ?thesis
  proof cases
    case 2
    then have "\<not> b \<le> 127" "b \<le> 244" "b \<noteq> 224" "b \<noteq> 237" "b \<noteq> 240" "b \<noteq> 244"
      by (auto simp: word_le_nat_alt)
    with 2 show ?thesis
      by (cases bs) (auto simp: char_at_def second_ok_def)
  next
    case 3
    then have "\<not> b \<le> 127" "\<not> b \<le> 223" "194 \<le> b" "b \<le> 244" "b \<noteq> 240" "b \<noteq> 244"
      by (auto simp: word_le_nat_alt)
    with 3 show ?thesis
      by (auto simp: char_at_def second_ok_def split: list.splits)
  next
    case 4
    then have "\<not> b \<le> 127" "\<not> b \<le> 223" "\<not> b \<le> 239" "194 \<le> b" "b \<noteq> 224" "b \<noteq> 237"
      by (auto simp: word_le_nat_alt)
    with 4 show ?thesis
      by (auto simp: char_at_def second_ok_def numeral_2_eq_2 split: list.splits)
  qed (auto simp: char_at_def word_le_nat_alt word_less_nat_alt)
qed

text \<open>Well-formed text decodes to itself.\<close>

lemma lossy_valid: "valid_utf8 bs \<Longrightarrow> lossy bs = text_of bs"
proof (induction bs rule: lossy.induct)
  case (2 b bs)
  obtain v l where c: "char_at b bs = (v, l)" by (cases "char_at b bs")
  have "v" "valid_utf8 (drop l (b # bs))" using 2(2) valid_utf8_char [of b bs] c by simp_all
  with 2(1) [OF c [symmetric] refl] c show ?case
    by (simp add: lossy.simps(2) text_of_def flip: map_append)
qed (simp add: text_of_def)

section \<open>Searching and splitting\<close>

text \<open>\<open>split_once\<close> and \<open>rsplit_once\<close> at a text.\<close>

fun split_first :: "string \<Rightarrow> string \<Rightarrow> (string \<times> string) option" where
  "split_first p [] = (if p = [] then Some ([], []) else None)"
| "split_first p (c # s) =
     (if prefix p (c # s) then Some ([], drop (length p) (c # s))
      else map_option (\<lambda>(a, b). (c # a, b)) (split_first p s))"

fun split_last :: "string \<Rightarrow> string \<Rightarrow> (string \<times> string) option" where
  "split_last p [] = (if p = [] then Some ([], []) else None)"
| "split_last p (c # s) = (case split_last p s of
     Some (a, b) \<Rightarrow> Some (c # a, b)
   | None \<Rightarrow> if prefix p (c # s) then Some ([], drop (length p) (c # s)) else None)"

fun split_char :: "char \<Rightarrow> string \<Rightarrow> string list" where
  "split_char c [] = [[]]"
| "split_char c (d # s) =
     (if d = c then [] # split_char c s
      else case split_char c s of [] \<Rightarrow> [[d]] | x # xs \<Rightarrow> (d # x) # xs)"

text \<open>\<open>split_inclusive\<close>: every piece keeps its separator, and there is no empty last piece.\<close>

fun split_inclusive :: "char \<Rightarrow> string \<Rightarrow> string list" where
  "split_inclusive c [] = []"
| "split_inclusive c (d # s) =
     (if d = c then [d] # split_inclusive c s
      else case split_inclusive c s of [] \<Rightarrow> [[d]] | x # xs \<Rightarrow> (d # x) # xs)"

function words_from :: "string \<Rightarrow> string \<Rightarrow> string list" where
  "words_from acc [] = (if acc = [] then [] else [acc])"
| "words_from acc (c # s) = (case find (\<lambda>w. prefix w (c # s)) white_space of
     None \<Rightarrow> words_from (acc @ [c]) s
   | Some w \<Rightarrow> (if acc = [] then [] else [acc]) @ words_from [] (drop (length w - 1) s))"
  by pat_completeness auto
termination
  by (relation "measure (\<lambda>(acc, s). length s)") auto

definition split_whitespace :: "string \<Rightarrow> string list" where
  "split_whitespace s = words_from [] s"

definition ascii_lower :: "string \<Rightarrow> string" where
  "ascii_lower = map (\<lambda>c. let n = (of_char c :: nat) in if 65 \<le> n \<and> n \<le> 90 then char_of (n + 32) else c)"

fun join :: "string \<Rightarrow> string list \<Rightarrow> string" where
  "join sep [] = []"
| "join sep [x] = x"
| "join sep (x # xs) = x @ sep @ join sep xs"

section \<open>Numbers\<close>

definition is_digit :: "char \<Rightarrow> bool" where
  "is_digit c \<longleftrightarrow> 48 \<le> (of_char c :: nat) \<and> (of_char c :: nat) \<le> 57"

text \<open>\<open>str::parse\<close> for an unsigned type with the given maximum: one plus sign is allowed.\<close>

definition parse_uint :: "nat \<Rightarrow> string \<Rightarrow> nat option" where
  "parse_uint limit s =
     (let ds = (case s of c # r \<Rightarrow> if c = CHR ''+'' then r else s | [] \<Rightarrow> s)
      in if ds = [] \<or> \<not> list_all is_digit ds \<or> limit < read_nat ds then None else Some (read_nat ds))"

lemma show_nat_digits: "list_all is_digit (show_nat n)"
proof (induction n rule: show_nat.induct)
  case (1 n)
  have "is_digit (char_of (48 + k))" if "k < 10" for k :: nat
    using that by (simp add: is_digit_def)
  with 1 show ?case by (subst show_nat.simps) simp
qed

lemma digit_printing: "is_digit c \<Longrightarrow> printing c"
  by (auto simp: is_digit_def printing_def)

lemma parse_uint_show_nat: "n \<le> limit \<Longrightarrow> parse_uint limit (show_nat n) = Some n"
  using show_nat_digits [of n] show_nat_nonempty [of n] read_show_nat [of n]
  by (cases "show_nat n") (auto simp: parse_uint_def is_digit_def)

section \<open>File names\<close>

text \<open>
  \<open>Path::file_stem\<close> on Unix: empty components and \<open>.\<close> do not count, \<open>..\<close> has no name, and the
  extension is what follows the last dot unless the name starts with it.
\<close>

definition file_name :: "string \<Rightarrow> string option" where
  "file_name p = (case filter (\<lambda>c. c \<noteq> [] \<and> c \<noteq> ''.'') (split_char (CHR ''/'') p) of
     [] \<Rightarrow> None | cs \<Rightarrow> if last cs = ''..'' then None else Some (last cs))"

definition file_stem :: "string \<Rightarrow> string option" where
  "file_stem p = map_option (\<lambda>name. case split_last ''.'' name of
     None \<Rightarrow> name | Some (stem, _) \<Rightarrow> if stem = [] then name else stem) (file_name p)"

section \<open>Addresses\<close>

text \<open>
  \<open>IpAddr::from_str\<close>: four decimal octets without leading zeros, or eight groups of up to four
  hexadecimal digits, of which \<open>::\<close> may stand for one or more and the last two may be written as
  an IPv4 address.
\<close>

datatype ip_addr = IpV4 "u8 list" | IpV6 "u16 list"

definition parse_octet :: "string \<Rightarrow> u8 option" where
  "parse_octet s =
     (if s = [] \<or> 3 < length s \<or> \<not> list_all is_digit s \<or> (1 < length s \<and> hd s = CHR ''0'')
         \<or> 255 < read_nat s
      then None else Some (of_nat (read_nat s)))"

definition parse_ipv4 :: "string \<Rightarrow> u8 list option" where
  "parse_ipv4 s =
     (let octets = map parse_octet (split_char (CHR ''.'') s)
      in if length octets = 4 \<and> None \<notin> set octets then Some (map the octets) else None)"

definition hex_value :: "char \<Rightarrow> nat option" where
  "hex_value c =
     (let n = of_char c
      in if 48 \<le> n \<and> n \<le> 57 then Some (n - 48)
         else if 97 \<le> n \<and> n \<le> 102 then Some (n - 87)
         else if 65 \<le> n \<and> n \<le> 70 then Some (n - 55) else None)"

definition parse_group :: "string \<Rightarrow> u16 option" where
  "parse_group s =
     (let ds = map hex_value s
      in if s = [] \<or> 4 < length s \<or> None \<in> set ds then None
         else Some (foldl (\<lambda>acc d. 16 * acc + of_nat (the d)) 0 ds))"

fun parse_groups :: "bool \<Rightarrow> string list \<Rightarrow> u16 list option" where
  "parse_groups v4 [] = Some []"
| "parse_groups v4 [s] = (case parse_group s of
     Some g \<Rightarrow> Some [g]
   | None \<Rightarrow> if \<not> v4 then None else (case parse_ipv4 s of
       Some [a, b, c, d] \<Rightarrow> Some [push_bit 8 (ucast a) + ucast b, push_bit 8 (ucast c) + ucast d]
     | _ \<Rightarrow> None))"
| "parse_groups v4 (s # ss) = (case parse_group s of
     None \<Rightarrow> None | Some g \<Rightarrow> map_option (Cons g) (parse_groups v4 ss))"

definition groups_of :: "bool \<Rightarrow> string \<Rightarrow> u16 list option" where
  "groups_of v4 s = (if s = [] then Some [] else parse_groups v4 (split_char (CHR '':'') s))"

definition parse_ipv6 :: "string \<Rightarrow> u16 list option" where
  "parse_ipv6 s = (case split_first ''::'' s of
     None \<Rightarrow> (case groups_of True s of
       Some gs \<Rightarrow> if length gs = 8 then Some gs else None | None \<Rightarrow> None)
   | Some (a, b) \<Rightarrow> (case (groups_of False a, groups_of True b) of
       (Some hs, Some ts) \<Rightarrow>
         if length hs + length ts \<le> 7 then Some (hs @ replicate (8 - length hs - length ts) 0 @ ts) else None
     | _ \<Rightarrow> None))"

definition parse_ip :: "string \<Rightarrow> ip_addr option" where
  "parse_ip s = (case parse_ipv4 s of
     Some a \<Rightarrow> Some (IpV4 a) | None \<Rightarrow> map_option IpV6 (parse_ipv6 s))"

lemma parse_ip_loopback: "parse_ip ''127.0.0.1'' = Some (IpV4 [127, 0, 0, 1])"
  by (simp add: parse_ip_def parse_ipv4_def parse_octet_def is_digit_def read_nat_def digit_value_def)

end
