(* ===== verification/Output.thy ===== *)
theory Output
  imports Process
begin

text \<open>
  What happens to a worker's output (\<open>mehoy-core/src/worker/process.rs\<close>: \<open>drain\<close>, \<open>flush_output\<close>
  and the feed that \<open>wait_ready\<close> watches; \<open>mehoy-core/src/worker/log.rs\<close>: \<open>LogHandle\<close>). Two tasks
  read the pipes line by line into the shared log and into the live feed, while the worker writes.

  \<open>capture_step\<close> is one action of the worker or of a reader, in any order. The capture carries, as
  ghosts, everything that was written to each pipe and everything that was recorded, which the log
  itself forgets.
\<close>

section \<open>Reading lines\<close>

definition LINE_FEED_CAPACITY :: nat where
  "LINE_FEED_CAPACITY = 256"

definition OUTPUT_FLUSH_BUDGET :: duration where
  "OUTPUT_FLUSH_BUDGET = seconds 2"

text \<open>
  \<open>next_line\<close> on a pipe that holds these bytes: a line ends with a line feed, before which one
  carriage return is dropped; when the other end is closed what is left is the last line. A line
  that is not UTF-8 is an error.
\<close>

datatype next_line = PendingLine | NoMoreLines | BadText | Line string "u8 list"

definition strip_return :: "u8 list \<Rightarrow> u8 list" where
  "strip_return l = (if l \<noteq> [] \<and> last l = 13 then butlast l else l)"

definition line_or_error :: "u8 list \<Rightarrow> u8 list \<Rightarrow> next_line" where
  "line_or_error l rest = (if valid_utf8 l then Line (text_of l) rest else BadText)"

definition next_line :: "bool \<Rightarrow> u8 list \<Rightarrow> next_line" where
  "next_line closed bs = (case dropWhile (\<lambda>b. b \<noteq> 10) bs of
     _ # rest \<Rightarrow> line_or_error (strip_return (takeWhile (\<lambda>b. b \<noteq> 10) bs)) rest
   | [] \<Rightarrow> if \<not> closed then PendingLine else if bs = [] then NoMoreLines else line_or_error bs [])"

section \<open>The shared log\<close>

text \<open>A log behind a mutex; a panic while it is held poisons it, and then nothing is recorded.\<close>

record log_handle =
  lh_log :: worker_log
  lh_poisoned :: bool

definition log_handle_new :: "nat \<Rightarrow> log_handle" where
  "log_handle_new capacity = \<lparr>lh_log = log_with_capacity capacity, lh_poisoned = False\<rparr>"

definition handle_record :: "log_stream \<Rightarrow> nat \<Rightarrow> string \<Rightarrow> log_handle \<Rightarrow> log_handle" where
  "handle_record s now t h = (if lh_poisoned h then h else h\<lparr>lh_log := log_record s now t (lh_log h)\<rparr>)"

definition handle_lines :: "log_handle \<Rightarrow> log_line list" where
  "handle_lines h = (if lh_poisoned h then [] else lg_lines (lh_log h))"

definition handle_lines_from :: "log_stream \<Rightarrow> log_handle \<Rightarrow> log_line list" where
  "handle_lines_from s h = (if lh_poisoned h then [] else lines_from s (lh_log h))"

definition handle_render :: "log_handle \<Rightarrow> string" where
  "handle_render h = (if lh_poisoned h then ''<worker log unavailable>'' else log_render (lh_log h))"

definition handle_dropped :: "log_handle \<Rightarrow> u64" where
  "handle_dropped h = (if lh_poisoned h then 0 else log_dropped (lh_log h))"

section \<open>The reader tasks\<close>

record pipe_reader =
  pr_unread :: "u8 list"
  pr_closed :: bool
  pr_running :: bool

record capture =
  cp_reader :: "log_stream \<Rightarrow> pipe_reader"
  cp_log :: log_handle
  cp_feed :: "log_line list"
  cp_written :: "log_stream \<Rightarrow> u8 list"
  cp_recorded :: "log_line list"

definition new_capture :: "nat \<Rightarrow> capture" where
  "new_capture capacity = \<lparr>
     cp_reader = (\<lambda>_. \<lparr>pr_unread = [], pr_closed = False, pr_running = True\<rparr>),
     cp_log = log_handle_new capacity, cp_feed = [], cp_written = (\<lambda>_. []), cp_recorded = []\<rparr>"

definition worker_writes :: "log_stream \<Rightarrow> u8 list \<Rightarrow> capture \<Rightarrow> capture" where
  "worker_writes s bs c = (let r = cp_reader c s in
     c\<lparr>cp_reader := (cp_reader c)(s := r\<lparr>pr_unread := pr_unread r @ bs\<rparr>),
       cp_written := (cp_written c)(s := cp_written c s @ bs)\<rparr>)"

definition worker_closes :: "log_stream \<Rightarrow> capture \<Rightarrow> capture" where
  "worker_closes s c = c\<lparr>cp_reader := (cp_reader c)(s := (cp_reader c s)\<lparr>pr_closed := True\<rparr>)\<rparr>"

text \<open>One turn of \<open>drain\<close>: a line goes to the log and to the feed, with the time of each; anything
  else that is not pending ends the task.\<close>

definition drain_turn :: "log_stream \<Rightarrow> nat \<Rightarrow> nat \<Rightarrow> capture \<Rightarrow> capture" where
  "drain_turn s now later c =
     (let r = cp_reader c s
      in if \<not> pr_running r then c
         else case next_line (pr_closed r) (pr_unread r) of
           PendingLine \<Rightarrow> c
         | Line t rest \<Rightarrow>
             c\<lparr>cp_reader := (cp_reader c)(s := r\<lparr>pr_unread := rest\<rparr>),
               cp_log := handle_record s now t (cp_log c),
               cp_feed := cp_feed c @ [\<lparr>l_stream = s, l_at = later, l_text = t\<rparr>],
               cp_recorded := cp_recorded c @ [\<lparr>l_stream = s, l_at = now, l_text = t\<rparr>]\<rparr>
         | _ \<Rightarrow> c\<lparr>cp_reader := (cp_reader c)(s := r\<lparr>pr_running := False\<rparr>)\<rparr>)"

inductive capture_step :: "capture \<Rightarrow> capture \<Rightarrow> bool" where
  writes: "\<not> pr_closed (cp_reader c s) \<Longrightarrow> capture_step c (worker_writes s bs c)"
| closes: "capture_step c (worker_closes s c)"
| turns: "capture_step c (drain_turn s now later c)"

text \<open>\<open>flush_output\<close> waits for the readers one after the other, each for a bounded time, and lets go
  of them: how long it takes, given how long each would need.\<close>

definition flush_output :: "duration list \<Rightarrow> duration \<times> duration list" where
  "flush_output drains = (sum_list (map (min OUTPUT_FLUSH_BUDGET) drains), [])"

section \<open>The feed\<close>

text \<open>
  A receiver of the broadcast channel and what it has not received yet. One that has fallen behind
  by more than the capacity is told how many values it missed, and continues with the oldest that
  is left.
\<close>

datatype received = Received log_line | Lagged nat | NothingNew

definition try_recv :: "log_line list \<Rightarrow> received \<times> log_line list" where
  "try_recv unread =
     (if LINE_FEED_CAPACITY < length unread
      then (Lagged (length unread - LINE_FEED_CAPACITY), drop (length unread - LINE_FEED_CAPACITY) unread)
      else case unread of [] \<Rightarrow> (NothingNew, []) | l # rest \<Rightarrow> (Received l, rest))"

lemma try_recv_shorter:
  "try_recv unread = (r, rest) \<Longrightarrow> r \<noteq> NothingNew \<Longrightarrow> length rest < length unread"
  by (auto simp: try_recv_def LINE_FEED_CAPACITY_def split: if_splits list.splits)

text \<open>The probe of \<open>wait_ready\<close>.\<close>

function feed_probe :: "log_line list \<Rightarrow> worker_error + probe_outcome" where
  "feed_probe unread = (case try_recv unread of
     (Received l, rest) \<Rightarrow>
       if prefix READY_MARKER (trim_start (l_text l)) then Inr (ProbeReady (WorkerReady (l_text l)))
       else feed_probe rest
   | (Lagged _, rest) \<Rightarrow> feed_probe rest
   | (NothingNew, _) \<Rightarrow> Inr NotYet)"
  by pat_completeness auto
termination
  by (relation "measure length") (auto dest: try_recv_shorter [OF sym])

declare feed_probe.simps [simp del]

text \<open>What one poll sees of the lines that have arrived since the last one.\<close>

definition still_buffered :: "log_line list \<Rightarrow> log_line list" where
  "still_buffered ls = drop (length ls - LINE_FEED_CAPACITY) ls"

section \<open>Lemmas\<close>

lemma feed_probe_short:
  "length ls \<le> LINE_FEED_CAPACITY \<Longrightarrow> feed_probe ls = marker_probe (map l_text ls)"
proof (induction ls)
  case Nil
  then show ?case by (simp add: feed_probe.simps try_recv_def)
next
  case (Cons l ls)
  then show ?case by (subst feed_probe.simps) (simp add: try_recv_def)
qed

lemma feed_probe_buffered: "feed_probe ls = marker_probe (map l_text (still_buffered ls))"
proof (cases "length ls \<le> LINE_FEED_CAPACITY")
  case True
  then show ?thesis by (simp add: feed_probe_short still_buffered_def)
next
  case False
  then have "feed_probe ls = feed_probe (still_buffered ls)"
    by (subst feed_probe.simps) (simp add: try_recv_def still_buffered_def)
  moreover have "length (still_buffered ls) \<le> LINE_FEED_CAPACITY" by (simp add: still_buffered_def)
  ultimately show ?thesis using feed_probe_short by simp
qed

text \<open>The lines of a pipe that has been closed, as far as they are text.\<close>

lemma next_line_shorter: "next_line closed bs = Line t rest \<Longrightarrow> length rest < length bs"
proof -
  have "length (dropWhile (\<lambda>b. b \<noteq> 10) bs) \<le> length bs" by (rule length_dropWhile_le)
  then show "next_line closed bs = Line t rest \<Longrightarrow> length rest < length bs"
    by (auto simp: next_line_def line_or_error_def split: list.splits if_splits)
qed

function all_lines :: "u8 list \<Rightarrow> string list" where
  "all_lines bs = (case next_line True bs of Line t rest \<Rightarrow> t # all_lines rest | _ \<Rightarrow> [])"
  by pat_completeness auto
termination
  by (relation "measure length") (auto dest: next_line_shorter)

declare all_lines.simps [simp del]

lemma all_lines_Nil [simp]: "all_lines [] = []"
  by (simp add: all_lines.simps next_line_def)

lemma next_line_more:
  assumes "next_line False bs = r" and "r \<noteq> PendingLine"
  shows "next_line closed (bs @ x) = (case r of Line t rest \<Rightarrow> Line t (rest @ x) | _ \<Rightarrow> BadText)"
proof -
  obtain rest where d: "dropWhile (\<lambda>b. b \<noteq> 10) bs = 10 # rest"
    using assms by (auto simp: next_line_def split: list.splits if_splits dest!: dropWhile_eq_Cons_conv [THEN iffD1])
  then have "\<exists>b\<in>set bs. b = 10" by (metis list.set_intros(1) set_dropWhileD)
  then have "dropWhile (\<lambda>b. b \<noteq> 10) (bs @ x) = 10 # rest @ x"
    "takeWhile (\<lambda>b. b \<noteq> 10) (bs @ x) = takeWhile (\<lambda>b. b \<noteq> 10) bs"
    using d by (auto simp: dropWhile_append takeWhile_append)
  with assms d show ?thesis by (auto simp: next_line_def line_or_error_def)
qed

definition from_stream :: "log_stream \<Rightarrow> log_line list \<Rightarrow> string list" where
  "from_stream s ls = map l_text (filter (\<lambda>l. l_stream l = s) ls)"

definition accounted :: "log_stream \<Rightarrow> capture \<Rightarrow> u8 list \<Rightarrow> bool" where
  "accounted s c x \<longleftrightarrow> all_lines (cp_written c s @ x) = from_stream s (cp_recorded c)
     @ (if pr_running (cp_reader c s) then all_lines (pr_unread (cp_reader c s) @ x) else [])"

definition capture_inv :: "capture \<Rightarrow> bool" where
  "capture_inv c \<longleftrightarrow> (\<forall>s. accounted s c [] \<and> (\<not> pr_closed (cp_reader c s) \<longrightarrow> (\<forall>x. accounted s c x)))
     \<and> \<not> lh_poisoned (cp_log c)"

definition drain_ends :: "next_line \<Rightarrow> bool" where
  "drain_ends r \<longleftrightarrow> r = NoMoreLines \<or> r = BadText"

lemma accounted_turn:
  assumes "capture_inv c" and "x = [] \<or> \<not> pr_closed (cp_reader c s)"
  shows "accounted s (drain_turn s now later c) x"
proof -
  let ?r = "cp_reader c s"
  have acc: "accounted s c x" using assms by (auto simp: capture_inv_def)
  have more: "next_line True (pr_unread ?r @ x) = (case next_line (pr_closed ?r) (pr_unread ?r) of
      Line t rest \<Rightarrow> Line t (rest @ x) | r \<Rightarrow> r)"
    if "next_line (pr_closed ?r) (pr_unread ?r) \<noteq> PendingLine"
  proof (cases "pr_closed ?r")
    case True
    with assms(2) show ?thesis by (simp split: next_line.split)
  next
    case False
    have "next_line False (pr_unread ?r) \<noteq> NoMoreLines"
      by (auto simp: next_line_def line_or_error_def split: list.split)
    with False that next_line_more [of "pr_unread ?r" _ True x] show ?thesis
      by (auto split: next_line.split)
  qed
  show ?thesis
    using acc more
    by (cases "next_line (pr_closed ?r) (pr_unread ?r)")
       (auto simp: drain_turn_def Let_def accounted_def from_stream_def all_lines.simps [of "pr_unread ?r @ x"])
qed

lemma accounted_other:
  "s \<noteq> s' \<Longrightarrow> accounted s (drain_turn s' now later c) x = accounted s c x"
  by (auto simp: drain_turn_def Let_def accounted_def from_stream_def split: next_line.split)

lemma drain_turn_closed: "pr_closed (cp_reader (drain_turn s now later c) s') = pr_closed (cp_reader c s')"
  by (auto simp: drain_turn_def Let_def split: next_line.split)

lemma drain_turn_poisoned: "lh_poisoned (cp_log (drain_turn s now later c)) = lh_poisoned (cp_log c)"
  by (auto simp: drain_turn_def Let_def handle_record_def split: next_line.split)

interpretation capturing: preserved capture_step capture_inv
proof
  fix c c' assume "capture_step c c'" and inv: "capture_inv c"
  then show "capture_inv c'"
  proof cases
    case (writes s bs)
    have "accounted s' (worker_writes s bs c) x = accounted s' c (if s' = s then bs @ x else x)" for s' x
      by (simp add: accounted_def worker_writes_def Let_def)
    with inv writes show ?thesis
      by (auto simp: capture_inv_def worker_writes_def Let_def)
  next
    case (closes s)
    have "accounted s' (worker_closes s c) x = accounted s' c x" for s' x
      by (simp add: accounted_def worker_closes_def)
    with inv closes show ?thesis by (auto simp: capture_inv_def worker_closes_def)
  next
    case (turns s now later)
    have "accounted s' c' x" if "x = [] \<or> \<not> pr_closed (cp_reader c s')" for s' x
      using accounted_turn [OF inv, of x s now later] accounted_other [of s' s now later c x] inv that
      unfolding turns by (cases "s' = s") (auto simp: capture_inv_def)
    with inv turns show ?thesis
      by (auto simp: capture_inv_def drain_turn_closed drain_turn_poisoned)
  qed
qed

definition logged :: "nat \<Rightarrow> capture \<Rightarrow> bool" where
  "logged capacity c \<longleftrightarrow>
     cp_log c = \<lparr>lh_log = fold log_push (cp_recorded c) (log_with_capacity capacity), lh_poisoned = False\<rparr>"

interpretation logging: preserved capture_step "logged capacity" for capacity
proof
  fix c c' assume "capture_step c c'" and "logged capacity c"
  then show "logged capacity c'"
    by cases (auto simp: logged_def worker_writes_def worker_closes_def drain_turn_def Let_def
        handle_record_def log_record_def split: next_line.split)
qed

lemma capture_from_new:
  assumes "capture_step\<^sup>*\<^sup>* (new_capture capacity) c"
  shows "capture_inv c" and "logged capacity c"
proof -
  have "capture_inv (new_capture capacity)" "logged capacity (new_capture capacity)"
    by (auto simp: capture_inv_def accounted_def from_stream_def new_capture_def log_handle_new_def logged_def)
  with capturing.run.runs [OF assms] logging.run.runs [OF assms]
  show "capture_inv c" and "logged capacity c" by simp_all
qed

text \<open>What a stream was to deliver: the lines up to the first that is not text.\<close>

lemma next_line_text:
  assumes "valid_utf8 (bytes_of t)" and "10 \<notin> set (bytes_of t)" and "t = [] \<or> last (bytes_of t) \<noteq> 13"
  shows "next_line closed (bytes_of t @ 10 # rest) = Line t rest"
proof -
  have "\<forall>b\<in>set (bytes_of t). b \<noteq> 10" using assms(2) by auto
  then have "dropWhile (\<lambda>b. b \<noteq> 10) (bytes_of t @ 10 # rest) = 10 # rest"
    "takeWhile (\<lambda>b. b \<noteq> 10) (bytes_of t @ 10 # rest) = bytes_of t"
    by (simp_all add: takeWhile_append2 dropWhile_append2)
  moreover have "strip_return (bytes_of t) = bytes_of t"
    using assms(3) by (auto simp: strip_return_def bytes_of_def)
  ultimately show ?thesis using assms(1) by (simp add: next_line_def line_or_error_def)
qed

lemma all_lines_text:
  assumes "\<forall>t\<in>set ts. valid_utf8 (bytes_of t) \<and> 10 \<notin> set (bytes_of t) \<and> (t = [] \<or> last (bytes_of t) \<noteq> 13)"
  shows "all_lines (concat (map (\<lambda>t. bytes_of t @ [10]) ts)) = ts"
  using assms by (induction ts) (simp_all add: all_lines.simps [of "_ @ _"] next_line_text)

lemma stopped_step:
  assumes "capture_step c c'" and "\<not> pr_running (cp_reader c s)"
  shows "\<not> pr_running (cp_reader c' s) \<and> from_stream s (cp_recorded c') = from_stream s (cp_recorded c)"
  using assms
  by cases (auto simp: worker_writes_def worker_closes_def drain_turn_def Let_def from_stream_def
      split: next_line.split)

interpretation stopped: preserved capture_step
    "\<lambda>c. \<not> pr_running (cp_reader c s) \<and> from_stream s (cp_recorded c) = ls" for s ls
  using stopped_step by unfold_locales auto

lemma marker_probe_ready:
  "(\<exists>r. marker_probe ls = Inr (ProbeReady r)) \<longleftrightarrow> (\<exists>l\<in>set ls. prefix READY_MARKER (trim_start l))"
  by (induction ls) auto

section \<open>Properties\<close>

text \<open>C16: nothing a worker prints is lost or mixed up. However its two pipes and their readers
  interleave, once both readers have ended the lines recorded from each pipe are exactly the lines
  written to it, in order, up to the first that is not text; and the log holds the most recent of
  all lines, as many as it has room for, and says exactly how many it dropped.\<close>

theorem capture_faithful:
  assumes "capture_step\<^sup>*\<^sup>* (new_capture capacity) c" and "\<And>s. \<not> pr_running (cp_reader c s)"
    and "length (cp_recorded c) \<le> u64_max"
  shows "from_stream s (cp_recorded c) = all_lines (cp_written c s)
    \<and> handle_lines (cp_log c) = drop (length (cp_recorded c) - max capacity 1) (cp_recorded c)
    \<and> unat (handle_dropped (cp_log c)) = length (cp_recorded c) - max capacity 1"
proof -
  note inv = capture_from_new [OF assms(1)]
  have "all_lines (cp_written c s) = from_stream s (cp_recorded c)"
    using inv(1) assms(2) [of s] by (auto simp: capture_inv_def accounted_def)
  with inv(2) log_keeps_recent [OF assms(3), of capacity] show ?thesis
    by (simp add: logged_def handle_lines_def handle_dropped_def)
qed

text \<open>one line that is not UTF-8 ends the capture of its pipe. The reader stops there, and
  whatever the worker prints afterwards, nothing more from that pipe is ever recorded or read.\<close>

theorem bad_text_ends_capture:
  assumes "pr_running (cp_reader c s)" and "next_line (pr_closed (cp_reader c s)) (pr_unread (cp_reader c s)) = BadText"
    and "capture_step\<^sup>*\<^sup>* (drain_turn s now later c) c'"
  shows "\<not> pr_running (cp_reader c' s) \<and> from_stream s (cp_recorded c') = from_stream s (cp_recorded c)"
proof -
  have "\<not> pr_running (cp_reader (drain_turn s now later c) s)
      \<and> from_stream s (cp_recorded (drain_turn s now later c)) = from_stream s (cp_recorded c)"
    using assms(1,2) by (simp add: drain_turn_def Let_def)
  with stopped.run.runs [OF assms(3)] show ?thesis by auto
qed

text \<open>C23: readiness is seen exactly when its line is still buffered. A poll finds the worker ready
  if one of the last 256 lines since the previous poll announces it, and not otherwise: an
  announcement followed by more output than that within one interval is lost for good.\<close>

theorem announcement_seen_iff:
  "(\<exists>ready. feed_probe ls = Inr (ProbeReady ready))
   \<longleftrightarrow> (\<exists>l\<in>set (drop (length ls - 256) ls). prefix READY_MARKER (trim_start (l_text l)))"
  using marker_probe_ready [of "map l_text (still_buffered ls)"]
  by (auto simp: feed_probe_buffered still_buffered_def LINE_FEED_CAPACITY_def)

text \<open>flushing is bounded: two seconds for each reader that does not end, and nothing the second
  time.\<close>

theorem flush_bounded:
  "fst (flush_output drains) \<le> length drains * OUTPUT_FLUSH_BUDGET
   \<and> fst (flush_output (snd (flush_output drains))) = 0"
  by (induction drains) (auto simp: flush_output_def)

definition noisy_start :: capture where
  "noisy_start = worker_writes Stderr [255, 10, 111, 107, 10] (new_capture 4)"

theorem capture_faithful_witness:
  "handle_lines (cp_log (drain_turn Stderr 7 7 (drain_turn Stdout 6 6 (drain_turn Stderr 5 5
     (worker_closes Stdout (worker_closes Stderr (worker_writes Stderr [111, 107, 10] (new_capture 4))))))))
   = [\<lparr>l_stream = Stderr, l_at = 5, l_text = text_of [111, 107]\<rparr>]"
proof -
  let ?c0 = "worker_writes Stderr [111, 107, 10] (new_capture 4)"
  let ?c1 = "worker_closes Stdout (worker_closes Stderr ?c0)"
  let ?c4 = "drain_turn Stderr 7 7 (drain_turn Stdout 6 6 (drain_turn Stderr 5 5 ?c1))"
  have "capture_step (new_capture 4) ?c0"
    by (rule capture_step.writes) (simp add: new_capture_def)
  then have run: "capture_step\<^sup>*\<^sup>* (new_capture 4) ?c4"
    by (meson capture_step.closes capture_step.turns converse_rtranclp_into_rtranclp rtranclp.rtrancl_refl)
  have rec: "cp_recorded ?c4 = [\<lparr>l_stream = Stderr, l_at = 5, l_text = text_of [111, 107]\<rparr>]"
    and stop: "\<not> pr_running (cp_reader ?c4 s)" for s
    by (cases s; simp add: worker_writes_def worker_closes_def new_capture_def drain_turn_def Let_def
        next_line_def line_or_error_def strip_return_def)+
  from capture_faithful [OF run stop] show ?thesis by (simp add: rec u64_max_def)
qed

theorem bad_text_ends_capture_witness:
  "from_stream Stderr (cp_recorded (drain_turn Stderr 2 2 (drain_turn Stderr 1 1 noisy_start))) = []"
proof -
  have "pr_running (cp_reader noisy_start Stderr)"
    "next_line (pr_closed (cp_reader noisy_start Stderr)) (pr_unread (cp_reader noisy_start Stderr)) = BadText"
    by (simp_all add: noisy_start_def worker_writes_def new_capture_def next_line_def line_or_error_def
        strip_return_def)
  moreover have "from_stream Stderr (cp_recorded noisy_start) = []"
    by (simp add: noisy_start_def worker_writes_def new_capture_def from_stream_def)
  ultimately show ?thesis
    using bad_text_ends_capture [of noisy_start Stderr 1 1] capture_step.turns by (metis r_into_rtranclp)
qed

theorem announcement_seen_iff_witness:
  "\<not> (\<exists>ready. feed_probe (\<lparr>l_stream = Stdout, l_at = 0, l_text = READY_MARKER\<rparr>
      # replicate 256 \<lparr>l_stream = Stderr, l_at = 1, l_text = ''loading''\<rparr>) = Inr (ProbeReady ready))"
proof -
  have "trim_start ''loading'' = ''loading''"
    using strip_any_printing [of white_space "''loading''"] white_space_not_printing
    by (simp add: trim_start_def printing_def)
  then show ?thesis
    unfolding announcement_seen_iff by (simp add: READY_MARKER_def drop_Cons')
qed

end
