(* ===== verification/Lifetime.thy ===== *)
theory Lifetime
  imports Process
begin

text \<open>
  No worker may outlive the daemon (\<open>mehoy-core/src/worker/process.rs\<close>: module \<open>job\<close>, the Windows
  part of \<open>spawn\<close>, \<open>configure_unix_lifetime\<close>, and the fault injection). Windows uses a job object
  that kills its members when its last handle closes, Linux a signal the child asks for between
  fork and exec. The two are step relations in which the daemon may die before every system call,
  and both are instances of the locale \<open>lifetime_control\<close>.
\<close>

section \<open>The contract\<close>

text \<open>From a state that is \<open>tied\<close> on, the worker does not run once its owner is gone.\<close>

locale lifetime_control =
  fixes step :: "'s \<Rightarrow> 's \<Rightarrow> bool" and tied :: "'s \<Rightarrow> bool"
    and owner_alive :: "'s \<Rightarrow> bool" and worker_runs :: "'s \<Rightarrow> bool"
  assumes keeps_tied: "step s t \<Longrightarrow> tied s \<Longrightarrow> tied t"
    and reaps: "tied s \<Longrightarrow> \<not> owner_alive s \<Longrightarrow> \<not> worker_runs s"
begin

lemma no_orphan:
  assumes "step\<^sup>*\<^sup>* s t" and "tied s" and "\<not> owner_alive t"
  shows "\<not> worker_runs t"
proof -
  from assms(1,2) have "tied t" by (induction rule: rtranclp_induct) (auto intro: keeps_tied)
  with assms(3) show ?thesis by (rule reaps [rotated])
qed

end

section \<open>Windows: a job object\<close>

text \<open>Where \<open>spawn\<close> is: nothing done, the job made, its limit set, the process started, the process
  assigned and the handle returned, or an error returned. \<open>wn_refused\<close> counts how often the system
  refused to kill a worker that runs.\<close>

datatype win_phase = WinBegin | WinJob | WinLimited | WinSpawned | WinReturned | WinFailed

record win =
  wn_phase :: win_phase
  wn_job :: bool
  wn_kills :: bool
  wn_member :: bool
  wn_runs :: bool
  wn_owner :: bool
  wn_refused :: nat

definition win_start :: win where
  "win_start = \<lparr>wn_phase = WinBegin, wn_job = False, wn_kills = False, wn_member = False,
     wn_runs = False, wn_owner = True, wn_refused = 0\<rparr>"

text \<open>Closing the only handle of the job, as \<open>Drop for Job\<close> or the end of the daemon does.\<close>

definition job_drop :: "win \<Rightarrow> win" where
  "job_drop s = s\<lparr>wn_job := False,
     wn_runs := wn_runs s \<and> \<not> (wn_job s \<and> wn_kills s \<and> wn_member s)\<rparr>"

text \<open>\<open>Job::create\<close> is two calls; the job is dropped when the second fails.\<close>

definition job_create :: "bool \<Rightarrow> win \<Rightarrow> win" where
  "job_create ok s = (if ok then s\<lparr>wn_phase := WinJob, wn_job := True\<rparr> else s\<lparr>wn_phase := WinFailed\<rparr>)"

definition job_limit :: "bool \<Rightarrow> win \<Rightarrow> win" where
  "job_limit ok s = (if ok then s\<lparr>wn_phase := WinLimited, wn_kills := True\<rparr>
     else job_drop (s\<lparr>wn_phase := WinFailed\<rparr>))"

definition win_spawn :: "bool \<Rightarrow> win \<Rightarrow> win" where
  "win_spawn ok s = (if ok then s\<lparr>wn_phase := WinSpawned, wn_runs := True\<rparr>
     else job_drop (s\<lparr>wn_phase := WinFailed\<rparr>))"

definition start_kill :: "bool \<Rightarrow> win \<Rightarrow> win" where
  "start_kill killed s = s\<lparr>wn_runs := wn_runs s \<and> \<not> killed,
     wn_refused := wn_refused s + (if wn_runs s \<and> \<not> killed then 1 else 0)\<rparr>"

text \<open>A child is killed when it is dropped (\<open>kill_on_drop\<close>).\<close>

definition child_drop :: "bool \<Rightarrow> win \<Rightarrow> win" where
  "child_drop killed s = start_kill killed s"

text \<open>The assignment. When it fails the child is killed before the error is returned, and dropping the
  child on the way out kills it once more; either may be refused. A child without a handle is only
  dropped.\<close>

definition job_assign :: "bool \<Rightarrow> bool \<Rightarrow> bool \<Rightarrow> bool \<Rightarrow> win \<Rightarrow> win" where
  "job_assign handle ok killed dropped s =
     (if \<not> handle then job_drop (child_drop dropped (s\<lparr>wn_phase := WinFailed\<rparr>))
      else if ok then s\<lparr>wn_phase := WinReturned, wn_member := True\<rparr>
      else job_drop (child_drop dropped (start_kill killed (s\<lparr>wn_phase := WinFailed\<rparr>))))"

definition handle_drop :: "bool \<Rightarrow> win \<Rightarrow> win" where
  "handle_drop dropped s = job_drop (child_drop dropped s)"

definition win_owner_dies :: "win \<Rightarrow> win" where
  "win_owner_dies s = (job_drop s)\<lparr>wn_owner := False\<rparr>"

text \<open>The child has a handle unless it has been seen to exit.\<close>

inductive win_step :: "win \<Rightarrow> win \<Rightarrow> bool" where
  create: "wn_owner s \<Longrightarrow> wn_phase s = WinBegin \<Longrightarrow> win_step s (job_create ok s)"
| limit: "wn_owner s \<Longrightarrow> wn_phase s = WinJob \<Longrightarrow> win_step s (job_limit ok s)"
| spawn: "wn_owner s \<Longrightarrow> wn_phase s = WinLimited \<Longrightarrow> win_step s (win_spawn ok s)"
| assign: "wn_owner s \<Longrightarrow> wn_phase s = WinSpawned \<Longrightarrow> handle \<or> \<not> wn_runs s \<Longrightarrow>
    win_step s (job_assign handle ok killed dropped s)"
| drop_handle: "wn_owner s \<Longrightarrow> wn_phase s = WinReturned \<Longrightarrow> win_step s (handle_drop dropped s)"
| exits: "win_step s (s\<lparr>wn_runs := False\<rparr>)"
| owner_dies: "wn_owner s \<Longrightarrow> win_step s (win_owner_dies s)"

inductive_cases win_stepE: "win_step s t"

text \<open>A worker that has been handed over is in a job that kills it, and the daemon holds the job.\<close>

definition win_tied :: "win \<Rightarrow> bool" where
  "win_tied s \<longleftrightarrow> wn_phase s = WinReturned \<and> wn_kills s \<and> wn_member s \<and> (wn_runs s \<longrightarrow> wn_job s \<and> wn_owner s)"

interpretation win_job: lifetime_control win_step win_tied wn_owner wn_runs
proof
  fix s t assume "win_step s t" and "win_tied s"
  then show "win_tied t"
    by cases (auto simp: win_tied_def handle_drop_def child_drop_def start_kill_def job_drop_def win_owner_dies_def)
qed (auto simp: win_tied_def)

definition win_inv :: "win \<Rightarrow> bool" where
  "win_inv s \<longleftrightarrow> (wn_phase s \<in> {WinBegin, WinJob, WinLimited} \<longrightarrow> \<not> wn_runs s)
     \<and> (wn_phase s = WinReturned \<longrightarrow> win_tied s)
     \<and> (wn_phase s \<in> {WinLimited, WinSpawned} \<longrightarrow> wn_kills s \<and> (wn_owner s \<longrightarrow> wn_job s))
     \<and> (wn_phase s = WinJob \<longrightarrow> (wn_owner s \<longrightarrow> wn_job s))
     \<and> (wn_phase s \<in> {WinBegin, WinJob, WinLimited, WinSpawned} \<longrightarrow> wn_refused s = 0)
     \<and> (wn_phase s = WinFailed \<longrightarrow> wn_runs s \<longrightarrow> wn_refused s = 2)"

interpretation win_spawning: preserved win_step win_inv
proof
  fix s t assume "win_step s t" and "win_inv s"
  then show "win_inv t"
    by cases (auto simp: win_inv_def win_tied_def job_create_def job_limit_def win_spawn_def
        job_assign_def handle_drop_def child_drop_def start_kill_def job_drop_def win_owner_dies_def)
qed

section \<open>Linux: a parent-death signal\<close>

text \<open>
  The child between fork and exec, and after: \<open>Forked\<close> has not asked for the signal yet, \<open>Armed\<close>
  has passed the request. \<open>ln_signal\<close> says whether the kernel will send it. \<open>owner\<close> is the daemon's
  process id, \<open>reaper\<close> the one that orphans are given to. The signal belongs to the thread that
  forks, here taken to live as long as the daemon.
\<close>

datatype child_phase = Forked | Armed | Execed | Gone

record lin =
  ln_child :: child_phase
  ln_owner :: bool
  ln_signal :: bool

definition lin_start :: lin where
  "lin_start = \<lparr>ln_child = Forked, ln_owner = True, ln_signal = False\<rparr>"

definition getppid :: "nat \<Rightarrow> nat \<Rightarrow> lin \<Rightarrow> nat" where
  "getppid owner reaper s = (if ln_owner s then owner else reaper)"

text \<open>The closure of \<open>pre_exec\<close>, call by call.\<close>

definition prctl :: "bool \<Rightarrow> lin \<Rightarrow> bool \<times> lin" where
  "prctl granted s = (granted, if granted then s\<lparr>ln_signal := True\<rparr> else s)"

definition arm :: "bool \<Rightarrow> lin \<Rightarrow> lin" where
  "arm granted s = (let (ok, s) = prctl granted s in s\<lparr>ln_child := (if ok then Armed else Gone)\<rparr>)"

definition check_parent :: "nat \<Rightarrow> nat \<Rightarrow> lin \<Rightarrow> lin" where
  "check_parent owner reaper s =
     s\<lparr>ln_child := (if getppid owner reaper s = 1 then Gone else Execed)\<rparr>"

definition lin_owner_dies :: "lin \<Rightarrow> lin" where
  "lin_owner_dies s = s\<lparr>ln_owner := False,
     ln_child := (if ln_signal s then Gone else ln_child s)\<rparr>"

inductive lin_step :: "nat \<Rightarrow> nat \<Rightarrow> lin \<Rightarrow> lin \<Rightarrow> bool" for owner reaper where
  arm: "ln_child s = Forked \<Longrightarrow> lin_step owner reaper s (arm ok s)"
| check: "ln_child s = Armed \<Longrightarrow> lin_step owner reaper s (check_parent owner reaper s)"
| exits: "ln_child s = Execed \<Longrightarrow> lin_step owner reaper s (s\<lparr>ln_child := Gone\<rparr>)"
| owner_dies: "ln_owner s \<Longrightarrow> lin_step owner reaper s (lin_owner_dies s)"

definition lin_runs :: "lin \<Rightarrow> bool" where
  "lin_runs s \<longleftrightarrow> ln_child s = Execed"

definition lin_tied :: "lin \<Rightarrow> bool" where
  "lin_tied s \<longleftrightarrow> (if ln_owner s then ln_child s \<in> {Armed, Execed} \<longrightarrow> ln_signal s else \<not> lin_runs s)"

interpretation lin_signal: lifetime_control "lin_step owner 1" lin_tied ln_owner lin_runs for owner
proof
  fix s t assume "lin_step owner 1 s t" and "lin_tied s"
  then show "lin_tied t"
    by cases (auto simp: lin_tied_def lin_runs_def arm_def prctl_def check_parent_def getppid_def lin_owner_dies_def)
qed (auto simp: lin_tied_def)

interpretation lin_first: preserved "lin_step 1 reaper" "\<lambda>s. ln_owner s \<longrightarrow> \<not> lin_runs s" for reaper
proof
  fix s t assume "lin_step 1 reaper s t" and "ln_owner s \<longrightarrow> \<not> lin_runs s"
  then show "ln_owner t \<longrightarrow> \<not> lin_runs t"
    by cases (auto simp: lin_runs_def arm_def prctl_def check_parent_def getppid_def lin_owner_dies_def)
qed

section \<open>Fault injection\<close>

text \<open>Built with the feature, one switch for the next kill and one for the next commit; \<open>take\<close> reads
  and clears. Built without it, nothing is ever injected.\<close>

definition fault_refuse :: "bool \<Rightarrow> bool" where
  "fault_refuse _ = True"

definition fault_clear :: "bool \<Rightarrow> bool" where
  "fault_clear _ = False"

definition fault_take :: "bool \<Rightarrow> bool \<times> bool" where
  "fault_take armed = (armed, False)"

definition injected_kill_refusal :: "bool \<Rightarrow> bool \<Rightarrow> string option \<times> bool" where
  "injected_kill_refusal feature armed =
     (if \<not> feature then (None, armed)
      else let (taken, armed) = fault_take armed
           in (if taken then Some ''injected refusal to kill the worker'' else None, armed))"

definition injected_commit_fault :: "bool \<Rightarrow> bool \<Rightarrow> string option \<times> bool" where
  "injected_commit_fault feature armed =
     (if \<not> feature then (None, armed)
      else let (taken, armed) = fault_take armed
           in (if taken then Some ''injected commit failure'' else None, armed))"

section \<open>Properties\<close>

text \<open>C17: a worker on Windows dies with its daemon. If the daemon ends at any point, in the middle of
  starting the worker or later, the worker does not run on, with two exceptions: the daemon ended
  between starting the process and assigning it to the job, or the assignment failed and the system
  refused to kill the worker, both at once and again when it was dropped.\<close>

theorem windows_worker_reaped:
  assumes "win_step\<^sup>*\<^sup>* win_start s" and "\<not> wn_owner s" and "wn_runs s"
  shows "wn_phase s = WinSpawned \<or> wn_phase s = WinFailed \<and> wn_refused s = 2"
proof -
  have "win_inv win_start" by (simp add: win_inv_def win_start_def)
  with win_spawning.run.runs [OF assms(1)] have inv: "win_inv s" by simp
  with win_job.no_orphan [OF rtranclp.rtrancl_refl, of s] assms(2,3) show ?thesis
    by (cases "wn_phase s") (auto simp: win_inv_def)
qed

theorem windows_worker_reaped_witness:
  "wn_phase (win_owner_dies (win_spawn True (job_limit True (job_create True win_start)))) = WinSpawned"
proof -
  let ?s1 = "job_create True win_start"
  let ?s2 = "job_limit True ?s1"
  let ?s3 = "win_spawn True ?s2"
  have "win_step win_start ?s1" by (rule win_step.create) (simp_all add: win_start_def)
  moreover have "win_step ?s1 ?s2" by (rule win_step.limit) (simp_all add: win_start_def job_create_def)
  moreover have "win_step ?s2 ?s3"
    by (rule win_step.spawn) (simp_all add: win_start_def job_create_def job_limit_def)
  moreover have "win_step ?s3 (win_owner_dies ?s3)"
    by (rule win_step.owner_dies) (simp add: win_start_def job_create_def job_limit_def win_spawn_def)
  ultimately have "win_step\<^sup>*\<^sup>* win_start (win_owner_dies ?s3)"
    by (meson converse_rtranclp_into_rtranclp rtranclp.rtrancl_refl)
  from windows_worker_reaped [OF this] show ?thesis
    by (simp add: win_start_def job_create_def job_limit_def win_spawn_def win_owner_dies_def job_drop_def)
qed

text \<open>C18: a worker on Linux dies with its daemon where orphans go to process 1. Whenever the daemon
  ends, even between the fork and the request for the signal, and whether or not the request is
  granted, no worker runs on.\<close>

theorem linux_worker_reaped:
  assumes "(lin_step owner 1)\<^sup>*\<^sup>* lin_start s" and "\<not> ln_owner s"
  shows "\<not> lin_runs s"
  using lin_signal.no_orphan [OF assms(1) _ assms(2)] by (simp add: lin_tied_def lin_start_def)

theorem linux_worker_reaped_witness:
  "\<not> lin_runs (lin_owner_dies (arm True lin_start))"
proof -
  have "lin_step 400 1 lin_start (arm True lin_start)"
    by (rule lin_step.arm) (simp add: lin_start_def)
  moreover have "lin_step 400 1 (arm True lin_start) (lin_owner_dies (arm True lin_start))"
    by (rule lin_step.owner_dies) (simp add: lin_start_def arm_def prctl_def)
  ultimately have "(lin_step 400 1)\<^sup>*\<^sup>* lin_start (lin_owner_dies (arm True lin_start))"
    by (meson converse_rtranclp_into_rtranclp rtranclp.rtrancl_refl)
  from linux_worker_reaped [OF this] show ?thesis by (simp add: lin_owner_dies_def)
qed

text \<open>where orphans go elsewhere they can escape. Under a process other than 1 that adopts
  orphans, a daemon that ends between the fork and the request for the signal leaves a worker that
  goes on to run with nobody to end it.\<close>

theorem subreaper_orphan:
  assumes "reaper \<noteq> 1"
  shows "\<exists>s. (lin_step owner reaper)\<^sup>*\<^sup>* lin_start s \<and> \<not> ln_owner s \<and> lin_runs s"
proof -
  let ?s1 = "lin_owner_dies lin_start" and ?s2 = "arm True (lin_owner_dies lin_start)"
  have "lin_step owner reaper lin_start ?s1" by (rule lin_step.owner_dies) (simp add: lin_start_def)
  moreover have "lin_step owner reaper ?s1 ?s2"
    by (rule lin_step.arm) (simp add: lin_owner_dies_def lin_start_def)
  moreover have "lin_step owner reaper ?s2 (check_parent owner reaper ?s2)"
    by (rule lin_step.check) (simp add: arm_def prctl_def)
  ultimately have "(lin_step owner reaper)\<^sup>*\<^sup>* lin_start (check_parent owner reaper ?s2)"
    by (meson converse_rtranclp_into_rtranclp rtranclp.rtrancl_refl)
  moreover have "\<not> ln_owner (check_parent owner reaper ?s2)" "lin_runs (check_parent owner reaper ?s2)"
    using assms by (simp_all add: check_parent_def arm_def prctl_def lin_owner_dies_def lin_runs_def getppid_def)
  ultimately show ?thesis by blast
qed

theorem subreaper_orphan_witness:
  "\<exists>s. (lin_step 400 77)\<^sup>*\<^sup>* lin_start s \<and> \<not> ln_owner s \<and> lin_runs s"
  by (rule subreaper_orphan) simp

text \<open>a daemon that is process 1 cannot start a worker. In a container it is started directly
  in, every worker takes its living parent for the reaper of orphans and exits before it runs.\<close>

theorem first_process_starts_nothing:
  assumes "(lin_step 1 reaper)\<^sup>*\<^sup>* lin_start s" and "ln_owner s"
  shows "\<not> lin_runs s"
  using lin_first.run.runs [OF assms(1)] assms(2) by (simp add: lin_start_def lin_runs_def)

theorem first_process_starts_nothing_witness:
  "\<not> lin_runs (check_parent 1 77 (arm True lin_start))"
proof -
  have "lin_step 1 77 lin_start (arm True lin_start)"
    by (rule lin_step.arm) (simp add: lin_start_def)
  moreover have "lin_step 1 77 (arm True lin_start) (check_parent 1 77 (arm True lin_start))"
    by (rule lin_step.check) (simp add: arm_def prctl_def)
  ultimately have "(lin_step 1 77)\<^sup>*\<^sup>* lin_start (check_parent 1 77 (arm True lin_start))"
    by (meson converse_rtranclp_into_rtranclp rtranclp.rtrancl_refl)
  from first_process_starts_nothing [OF this] show ?thesis
    by (simp add: check_parent_def arm_def prctl_def lin_start_def)
qed

text \<open>an injected fault happens once, and only where it is built in.\<close>

theorem injected_once:
  "injected_kill_refusal feature armed = (r, armed') \<Longrightarrow> r \<noteq> None \<Longrightarrow>
     feature \<and> armed \<and> injected_kill_refusal feature armed' = (None, armed')"
  by (auto simp: injected_kill_refusal_def fault_take_def split: if_splits)

end
