(* ===== verification/Wide.thy ===== *)
theory Wide
  imports Text Pipe
begin

text \<open>
  The Windows calls behind the named pipe (\<open>mehoy-core/src/transport/windows.rs\<close>): wide strings, the
  lookup of the user's security identifier, and the creation of a pipe instance with a private
  descriptor. The kernel's answers are parameters. Every function also yields the resource calls it
  made, in order, so that what is opened, allocated and released can be counted.
\<close>

unbundle bit_operations_syntax

section \<open>UTF-16\<close>

definition cont_bits :: "u8 \<Rightarrow> nat" where
  "cont_bits b = unat b - 128"

fun code_point :: "u8 list \<Rightarrow> nat" where
  "code_point [a] = unat a"
| "code_point [a, b] = (unat a - 192) * 64 + cont_bits b"
| "code_point [a, b, c] = (unat a - 224) * 4096 + cont_bits b * 64 + cont_bits c"
| "code_point [a, b, c, d] = (unat a - 240) * 262144 + cont_bits b * 4096 + cont_bits c * 64 + cont_bits d"
| "code_point _ = 65533"

definition encode_char :: "nat \<Rightarrow> u8 list" where
  "encode_char n =
     (if n < 128 then [of_nat n]
      else if n < 2048 then [of_nat (192 + n div 64), of_nat (128 + n mod 64)]
      else if n < 65536 then
        [of_nat (224 + n div 4096), of_nat (128 + n div 64 mod 64), of_nat (128 + n mod 64)]
      else [of_nat (240 + n div 262144), of_nat (128 + n div 4096 mod 64),
            of_nat (128 + n div 64 mod 64), of_nat (128 + n mod 64)])"

definition utf16_units :: "nat \<Rightarrow> u16 list" where
  "utf16_units n = (if n < 65536 then [of_nat n]
     else [of_nat (55296 + (n - 65536) div 1024), of_nat (56320 + (n - 65536) mod 1024)])"

text \<open>\<open>str::encode_utf16\<close>, on the bytes of a text.\<close>

function encode_utf16 :: "u8 list \<Rightarrow> u16 list" where
  "encode_utf16 [] = []"
| "encode_utf16 (b # bs) = (let (_, l) = char_at b bs
     in utf16_units (code_point (take l (b # bs))) @ encode_utf16 (drop l (b # bs)))"
  by pat_completeness auto
termination
  by (relation "measure length") (auto dest!: char_at_pos [OF sym])

declare encode_utf16.simps(2) [simp del]

definition pair_code :: "u16 \<Rightarrow> u16 \<Rightarrow> nat" where
  "pair_code u v = 65536 + (unat u - 55296) * 1024 + (unat v - 56320)"

text \<open>\<open>String::from_utf16_lossy\<close>: a surrogate without its partner becomes U+FFFD.\<close>

fun from_utf16_lossy :: "u16 list \<Rightarrow> u8 list" where
  "from_utf16_lossy [] = []"
| "from_utf16_lossy (u # us) =
     (if unat u < 55296 \<or> 57344 \<le> unat u then encode_char (unat u) @ from_utf16_lossy us
      else if 56320 \<le> unat u then encode_char 65533 @ from_utf16_lossy us
      else case us of
        [] \<Rightarrow> encode_char 65533
      | v # vs \<Rightarrow>
          if 56320 \<le> unat v \<and> unat v < 57344
          then encode_char (pair_code u v) @ from_utf16_lossy vs
          else encode_char 65533 @ from_utf16_lossy us)"

definition to_wide_null :: "string \<Rightarrow> u16 list" where
  "to_wide_null s = encode_utf16 (bytes_of s) @ [0]"

text \<open>Reading a wide string from memory: \<open>None\<close> is a null pointer. Memory without a terminator is
  read past its end, which is the outcome \<open>None\<close>.\<close>

definition wide_to_string :: "u16 list option \<Rightarrow> string option" where
  "wide_to_string p = (case p of
     None \<Rightarrow> Some []
   | Some mem \<Rightarrow> if 0 \<notin> set mem then None
       else Some (text_of (from_utf16_lossy (takeWhile (\<lambda>u. u \<noteq> 0) mem))))"

section \<open>Resources\<close>

record pipe_request =
  pq_name :: string
  pq_descriptor :: "u16 list"
  pq_first :: bool
  pq_reject_remote :: bool
  pq_in_buffer :: u32
  pq_out_buffer :: u32
  pq_inherit :: bool

datatype resource_call = OpenToken | CloseToken | AllocLocal | FreeLocal | CreatePipe pipe_request

text \<open>
  What the calls may do: a token or an allocation is released only while there is one, and a pipe is
  created only while its descriptor is there. The result is what is still held.
\<close>

fun run_calls :: "resource_call list \<Rightarrow> nat \<times> nat \<Rightarrow> (nat \<times> nat) option" where
  "run_calls [] held = Some held"
| "run_calls (OpenToken # cs) (t, a) = run_calls cs (t + 1, a)"
| "run_calls (CloseToken # cs) (t, a) = (if t = 0 then None else run_calls cs (t - 1, a))"
| "run_calls (AllocLocal # cs) (t, a) = run_calls cs (t, a + 1)"
| "run_calls (FreeLocal # cs) (t, a) = (if a = 0 then None else run_calls cs (t, a - 1))"
| "run_calls (CreatePipe _ # cs) (t, a) = (if a = 0 then None else run_calls cs (t, a))"

section \<open>The user's identity\<close>

text \<open>What the calls of \<open>current_user_sid\<close> answer; \<open>tk_needed\<close> is the size the first query reports,
  \<open>tk_sid\<close> the memory the identifier's text is in.\<close>

record token_answers =
  tk_open :: "io_error + unit"
  tk_needed :: u32
  tk_size_error :: io_error
  tk_info :: "io_error + unit"
  tk_sid :: "io_error + u16 list option"

definition current_user_sid :: "token_answers \<Rightarrow> (io_error + string) option \<times> resource_call list" where
  "current_user_sid k = (case tk_open k of
     Inl err \<Rightarrow> (Some (Inl err), [])
   | Inr _ \<Rightarrow>
       if tk_needed k = 0 then (Some (Inl (tk_size_error k)), [OpenToken, CloseToken])
       else (case tk_info k of
         Inl err \<Rightarrow> (Some (Inl err), [OpenToken, CloseToken])
       | Inr _ \<Rightarrow> (case tk_sid k of
           Inl err \<Rightarrow> (Some (Inl err), [OpenToken, CloseToken])
         | Inr p \<Rightarrow> (case wide_to_string p of
             None \<Rightarrow> (None, [OpenToken, CloseToken, AllocLocal])
           | Some sid \<Rightarrow> (Some (Inr sid), [OpenToken, CloseToken, AllocLocal, FreeLocal])))))"

section \<open>Creating an instance\<close>

text \<open>\<open>SecurityDescriptor::from_sddl\<close>, with the allocation it makes.\<close>

definition descriptor_from_sddl ::
    "(u16 list \<Rightarrow> io_error + unit) \<Rightarrow> string \<Rightarrow> (io_error + u16 list) \<times> resource_call list" where
  "descriptor_from_sddl convert sddl = (case convert (to_wide_null sddl) of
     Inl err \<Rightarrow> (Inl err, []) | Inr _ \<Rightarrow> (Inr (to_wide_null sddl), [AllocLocal]))"

definition descriptor_drop :: "resource_call list" where
  "descriptor_drop = [FreeLocal]"

definition instance_request :: "string \<Rightarrow> u16 list \<Rightarrow> bool \<Rightarrow> pipe_request" where
  "instance_request name descriptor is_first = \<lparr>pq_name = name, pq_descriptor = descriptor,
     pq_first = is_first, pq_reject_remote = True, pq_in_buffer = PIPE_BUFFER_BYTES,
     pq_out_buffer = PIPE_BUFFER_BYTES, pq_inherit = False\<rparr>"

definition create_instance ::
    "(u16 list \<Rightarrow> io_error + unit) \<Rightarrow> (pipe_request \<Rightarrow> io_error + nat) \<Rightarrow> string \<Rightarrow> string \<Rightarrow> bool \<Rightarrow>
     (io_error + nat) \<times> resource_call list" where
  "create_instance convert create name sddl is_first = (case descriptor_from_sddl convert sddl of
     (Inl err, calls) \<Rightarrow> (Inl err, calls)
   | (Inr descriptor, calls) \<Rightarrow>
       (let q = instance_request name descriptor is_first
        in (create q, calls @ [CreatePipe q] @ descriptor_drop)))"

text \<open>The default address, from the identity.\<close>

definition default_pipe :: "token_answers \<Rightarrow> (endpoint_error + string) option" where
  "default_pipe k = map_option pipe_default_address (fst (current_user_sid k))"

section \<open>Lemmas\<close>

definition scalar :: "nat \<Rightarrow> bool" where
  "scalar n \<longleftrightarrow> n < 55296 \<or> 57344 \<le> n \<and> n < 1114112"

lemma digits64:
  fixes n x y z w :: nat
  shows "n = x * 64 + z \<Longrightarrow> z < 64 \<Longrightarrow> n mod 64 = z" "n = x * 64 + z \<Longrightarrow> z < 64 \<Longrightarrow> n div 64 = x"
    "n = (x * 64 + y) * 64 + z \<Longrightarrow> y < 64 \<Longrightarrow> z < 64 \<Longrightarrow> n div 64 mod 64 = y"
    "n = (x * 64 + y) * 64 + z \<Longrightarrow> y < 64 \<Longrightarrow> z < 64 \<Longrightarrow> n div 4096 = x"
    "n = ((x * 64 + y) * 64 + z) * 64 + w \<Longrightarrow> y < 64 \<Longrightarrow> z < 64 \<Longrightarrow> w < 64 \<Longrightarrow> n div 262144 = x"
proof -
  have c: "k div 4096 = k div 64 div 64" "k div 262144 = k div 64 div 64 div 64" for k :: nat
    by (simp_all add: div_mult2_eq [symmetric])
  have d: "(a * 64 + b) div 64 = a" "(a * 64 + b) mod 64 = b" if "b < 64" for a b :: nat
    using that by simp_all
  show "n = x * 64 + z \<Longrightarrow> z < 64 \<Longrightarrow> n mod 64 = z" "n = x * 64 + z \<Longrightarrow> z < 64 \<Longrightarrow> n div 64 = x"
    "n = (x * 64 + y) * 64 + z \<Longrightarrow> y < 64 \<Longrightarrow> z < 64 \<Longrightarrow> n div 64 mod 64 = y"
    "n = (x * 64 + y) * 64 + z \<Longrightarrow> y < 64 \<Longrightarrow> z < 64 \<Longrightarrow> n div 4096 = x"
    "n = ((x * 64 + y) * 64 + z) * 64 + w \<Longrightarrow> y < 64 \<Longrightarrow> z < 64 \<Longrightarrow> w < 64 \<Longrightarrow> n div 262144 = x"
    by (simp_all only: c d)
qed

lemma pair_scalar: "unat u < 56320 \<Longrightarrow> unat v < 57344 \<Longrightarrow> scalar (pair_code u v)"
  by (auto simp: scalar_def pair_code_def)

text \<open>A number and its last digits to the base 64.\<close>

lemma split_three: "(n :: nat) = (n div 4096 * 64 + n div 64 mod 64) * 64 + n mod 64" and
  split_four: "(n :: nat) = (n div 262144 * 64 + n div 4096 mod 64) * 4096 + n mod 4096"
proof -
  have "n div 64 = n div 64 div 64 * 64 + n div 64 mod 64" "n = n div 64 * 64 + n mod 64" by simp_all
  moreover have "n div 4096 = n div 64 div 64" by (simp add: div_mult2_eq [symmetric])
  ultimately show "n = (n div 4096 * 64 + n div 64 mod 64) * 64 + n mod 64" by metis
  have "n div 4096 = n div 4096 div 64 * 64 + n div 4096 mod 64" "n = n div 4096 * 4096 + n mod 4096"
    by simp_all
  moreover have "n div 262144 = n div 4096 div 64" by (simp add: div_mult2_eq [symmetric])
  ultimately show "n = (n div 262144 * 64 + n div 4096 mod 64) * 4096 + n mod 4096" by metis
qed

lemma of_nat_unat_u8: "k = unat b \<Longrightarrow> of_nat k = (b :: u8)"
  by simp

lemma cont_byte_nat: "cont_byte c \<longleftrightarrow> 128 \<le> unat c \<and> unat c \<le> 191"
  by (simp add: cont_byte_def word_le_nat_alt)

lemma unat_eq_numeral:
  "unat (b :: u8) = 224 \<longleftrightarrow> b = 224" "unat b = 237 \<longleftrightarrow> b = 237" "unat b = 240 \<longleftrightarrow> b = 240" "unat b = 244 \<longleftrightarrow> b = 244"
  using word_unat_eq_iff [of b] by auto

lemma second_ok_nat:
  "second_ok b c \<Longrightarrow> 128 \<le> unat c \<and> unat c \<le> 191 \<and> (unat b = 224 \<longrightarrow> 160 \<le> unat c)
     \<and> (unat b = 237 \<longrightarrow> unat c \<le> 159) \<and> (unat b = 240 \<longrightarrow> 144 \<le> unat c) \<and> (unat b = 244 \<longrightarrow> unat c \<le> 143)"
  by (auto simp: second_ok_def cont_byte_nat word_le_nat_alt unat_eq_numeral split: if_split_asm)

lemma encode_two:
  assumes "194 \<le> unat b" and "unat b \<le> 223" and "cont_byte c"
  shows "scalar (code_point [b, c]) \<and> encode_char (code_point [b, c]) = [b, c]"
proof -
  define x y n where x: "x = unat b - 192" and y: "y = unat c - 128" and n: "n = x * 64 + y"
  have r: "2 \<le> x" "x < 32" "y < 64" and bc: "192 + x = unat b" "128 + y = unat c"
    using assms unfolding x y cont_byte_nat by auto
  have "\<not> n < 128" "n < 2048" using r unfolding n by linarith+
  with digits64(1,2) [OF n r(3)] show ?thesis
    by (simp add: scalar_def encode_char_def cont_bits_def bc flip: x y n del: of_nat_add)
qed

lemma encode_three:
  assumes "224 \<le> unat b" and "unat b \<le> 239" and "second_ok b c" and "cont_byte d"
  shows "scalar (code_point [b, c, d]) \<and> encode_char (code_point [b, c, d]) = [b, c, d]"
proof -
  define x y z where x: "x = unat b - 224" and y: "y = unat c - 128" and z: "z = unat d - 128"
  define n where n: "n = (x * 64 + y) * 64 + z"
  have r: "x < 16" "y < 64" "z < 64" "x = 0 \<longrightarrow> 32 \<le> y" "x = 13 \<longrightarrow> y < 32"
    and bc: "224 + x = unat b" "128 + y = unat c" "128 + z = unat d"
    using assms second_ok_nat [OF assms(3)] unfolding x y z cont_byte_nat by auto
  have p: "code_point [b, c, d] = n" by (simp add: n x y z cont_bits_def)
  have "\<not> n < 2048" using r unfolding n by (cases "x = 0"; simp; linarith)
  moreover from this have "\<not> n < 128" "n < 65536" using r(1-3) by (simp_all add: n)
  moreover have "scalar n"
    using r unfolding n scalar_def by (cases "x < 13"; cases "x = 13"; simp; linarith)
  ultimately show ?thesis
    using digits64(1) [OF n r(3)] digits64(3,4) [OF n r(2,3)] unfolding p
    by (simp add: encode_char_def bc del: of_nat_add)
qed

lemma encode_four:
  assumes "240 \<le> unat b" and "unat b \<le> 244" and "second_ok b c" and "cont_byte d" and "cont_byte e"
  shows "scalar (code_point [b, c, d, e]) \<and> encode_char (code_point [b, c, d, e]) = [b, c, d, e]"
proof -
  define x y z w where x: "x = unat b - 240" and y: "y = unat c - 128" and z: "z = unat d - 128"
    and w: "w = unat e - 128"
  define n where n: "n = ((x * 64 + y) * 64 + z) * 64 + w"
  have r: "x \<le> 4" "y < 64" "z < 64" "w < 64" "x = 0 \<longrightarrow> 16 \<le> y" "x = 4 \<longrightarrow> y < 16"
    and bc: "240 + x = unat b" "128 + y = unat c" "128 + z = unat d" "128 + w = unat e"
    using assms second_ok_nat [OF assms(3)] unfolding x y z w cont_byte_nat by auto
  have p: "code_point [b, c, d, e] = n" by (simp add: n x y z w cont_bits_def)
  have big: "65536 \<le> n" using r unfolding n by (cases "x = 0"; simp; linarith)
  have "n < 1114112" using r unfolding n by (cases "x = 4"; simp; linarith)
  with big have "scalar n" by (simp add: scalar_def)
  moreover have "n div 4096 mod 64 = y"
    using digits64(4) [OF n r(3,4)] digits64(1) [OF refl r(2)] by simp
  ultimately show ?thesis
    using big digits64(1) [OF n r(4)] digits64(3) [OF n r(3,4)] digits64(5) [OF n r(2,3,4)] unfolding p
    by (simp add: encode_char_def bc del: of_nat_add)
qed

lemma tail_two: "tail_of_char 2 k r = (True, l) \<Longrightarrow> \<exists>d e r'. r = d # e # r' \<and> cont_byte d \<and> cont_byte e \<and> l = k + 2"
  by (cases r; cases "tl r") (auto simp: numeral_2_eq_2 split: if_split_asm)

lemma char_round_trip:
  assumes "char_at b bs = (True, l)"
  shows "scalar (code_point (take l (b # bs))) \<and> encode_char (code_point (take l (b # bs))) = take l (b # bs)"
proof (cases "b \<le> 127")
  case True
  with assms show ?thesis
    by (auto simp: char_at_def scalar_def encode_char_def word_le_nat_alt)
next
  case False
  with assms obtain c r where bs: "bs = c # r" and b: "194 \<le> unat b" "unat b \<le> 244" and c: "second_ok b c"
    and t: "tail_of_char (if b \<le> 223 then 0 else if b \<le> 239 then 1 else 2) 2 r = (True, l)"
    by (auto simp: char_at_def word_le_nat_alt split: if_split_asm list.split_asm)
  consider "unat b \<le> 223" | "224 \<le> unat b" "unat b \<le> 239" | "240 \<le> unat b" by linarith
  then show ?thesis
  proof cases
    case 1
    with t have "l = 2" by (simp add: word_le_nat_alt)
    moreover have "cont_byte c" using second_ok_nat [OF c] by (simp add: cont_byte_nat)
    ultimately show ?thesis using encode_two [OF b(1) 1] by (simp add: bs)
  next
    case 2
    with t obtain d r' where "r = d # r'" "cont_byte d" "l = 3"
      by (cases r) (auto simp: word_le_nat_alt split: if_split_asm)
    with encode_three [OF 2 c] show ?thesis by (simp add: bs)
  next
    case 3
    then have "tail_of_char 2 2 r = (True, l)" using t by (simp add: word_le_nat_alt)
    then obtain d e r' where "r = d # e # r'" "cont_byte d" "cont_byte e" "l = 4"
      using tail_two by fastforce
    with encode_four [OF 3 b(2) c] show ?thesis by (simp add: bs)
  qed
qed

lemma from_units:
  assumes "scalar n"
  shows "from_utf16_lossy (utf16_units n @ us) = encode_char n @ from_utf16_lossy us"
proof (cases "n < 65536")
  case True
  with assms show ?thesis by (auto simp: utf16_units_def scalar_def unat_of_nat)
next
  case False
  define q r where qr: "q = (n - 65536) div 1024" "r = (n - 65536) mod 1024"
  have b: "q < 1024" "r < 1024" and n: "n = 65536 + q * 1024 + r"
    using False assms by (auto simp: qr scalar_def)
  have u: "unat (of_nat (55296 + q) :: u16) = 55296 + q" "unat (of_nat (56320 + r) :: u16) = 56320 + r"
    using b by (simp_all add: unat_of_nat del: of_nat_add)
  have "utf16_units n = [of_nat (55296 + q), of_nat (56320 + r)]"
    using False by (simp add: utf16_units_def qr)
  with b u show ?thesis by (simp add: n pair_code_def del: of_nat_add)
qed

lemma utf16_round_trip: "valid_utf8 bs \<Longrightarrow> from_utf16_lossy (encode_utf16 bs) = bs"
proof (induction bs rule: encode_utf16.induct)
  case (2 b bs)
  obtain v l where c: "char_at b bs = (v, l)" by (cases "char_at b bs")
  have v: "char_at b bs = (True, l)" "valid_utf8 (drop l (b # bs))"
    using 2(2) valid_utf8_char [of b bs] c by simp_all
  have "encode_utf16 (b # bs) = utf16_units (code_point (take l (b # bs))) @ encode_utf16 (drop l (b # bs))"
    by (simp add: encode_utf16.simps(2) v(1))
  moreover have "from_utf16_lossy (encode_utf16 (drop l (b # bs))) = drop l (b # bs)"
    using 2(1) [OF c [symmetric]] v(2) by simp
  ultimately show ?case
    using char_round_trip [OF v(1)] from_units by (metis append_take_drop_id)
qed simp

lemma units_nonzero:
  assumes "scalar n" and "0 < n"
  shows "0 \<notin> set (utf16_units n)"
proof -
  have "unat (of_nat k :: u16) \<noteq> 0" if "0 < k" "k < 65536" for k
    using that by (simp add: unat_of_nat)
  then have h: "of_nat k \<noteq> (0 :: u16)" if "0 < k" "k < 65536" for k
    using that by (metis unat_0)
  have "(n - 65536) div 1024 < 1024" if "n < 1114112"
    using that by (simp add: less_mult_imp_div_less)
  then show ?thesis
    using assms h [of n] h [of "55296 + (n - 65536) div 1024"] h [of "56320 + (n - 65536) mod 1024"]
    by (auto simp: utf16_units_def scalar_def simp del: of_nat_add)
qed

lemma encode_nonzero: "valid_utf8 bs \<Longrightarrow> 0 \<notin> set bs \<Longrightarrow> 0 \<notin> set (encode_utf16 bs)"
proof (induction bs rule: encode_utf16.induct)
  case (2 b bs)
  obtain v l where c: "char_at b bs = (v, l)" by (cases "char_at b bs")
  let ?n = "code_point (take l (b # bs))"
  have v: "char_at b bs = (True, l)" "valid_utf8 (drop l (b # bs))"
    using 2(2) valid_utf8_char [of b bs] c by simp_all
  note r = char_round_trip [OF v(1)]
  have "?n \<noteq> 0"
  proof
    assume "?n = 0"
    with r have "take l (b # bs) = [0]" by (simp add: encode_char_def)
    then show False using 2(3) by (cases l) auto
  qed
  with r have "0 \<notin> set (utf16_units ?n)" by (intro units_nonzero) auto
  moreover have "0 \<notin> set (drop l (b # bs))" using 2(3) by (meson in_set_dropD)
  with 2(1) [OF c [symmetric]] v(2) have "0 \<notin> set (encode_utf16 (drop l (b # bs)))" by simp
  ultimately show ?case by (simp add: encode_utf16.simps(2) v(1))
qed simp

lemma takeWhile_terminated: "0 \<notin> set us \<Longrightarrow> takeWhile (\<lambda>u. u \<noteq> (0 :: u16)) (us @ 0 # rest) = us"
  by (induction us) auto

text \<open>Every call list of the two functions releases what it took, in an order the system allows.\<close>

lemma sid_calls:
  "fst (current_user_sid k) \<noteq> None \<Longrightarrow> run_calls (snd (current_user_sid k)) held = Some held"
  by (cases held) (auto simp: current_user_sid_def split: sum.splits option.splits if_splits)

lemma instance_calls: "run_calls (snd (create_instance cv cr name sddl f)) held = Some held"
  by (cases held) (auto simp: create_instance_def descriptor_from_sddl_def descriptor_drop_def Let_def
      split: sum.splits)

lemma instance_created:
  "CreatePipe q \<in> set (snd (create_instance cv cr name sddl f)) \<Longrightarrow>
     q = instance_request name (to_wide_null sddl) f \<and> cv (to_wide_null sddl) = Inr ()"
  by (auto simp: create_instance_def descriptor_from_sddl_def descriptor_drop_def Let_def split: sum.splits)

lemma byte_zero: "(of_nat (of_char c) :: u8) = 0 \<longleftrightarrow> c = CHR 0x00"
proof
  assume "(of_nat (of_char c) :: u8) = 0"
  then have "unat (of_nat (of_char c) :: u8) = 0" by (simp only: unat_0)
  then have "(of_char c :: nat) = of_char (CHR 0x00)" by (simp add: unat_of_nat)
  then show "c = CHR 0x00" by (simp only: of_char_eq_iff)
qed simp

lemma bytes_nonzero: "0 \<in> set (bytes_of s) \<longleftrightarrow> CHR 0x00 \<in> set s"
  unfolding bytes_of_def set_map image_iff by (metis byte_zero)

text \<open>What comes out of a wide string is well-formed text, and has no NUL if the units have none.\<close>

lemma utf8_two: "194 \<le> b \<Longrightarrow> b \<le> 223 \<Longrightarrow> cont_byte c \<Longrightarrow> valid_utf8 (b # c # bs) = valid_utf8 bs"
  by (auto simp: word_le_nat_alt)

lemma utf8_three:
  assumes "224 \<le> b" and "b \<le> 239" and "second_ok b c" and "cont_byte d"
  shows "valid_utf8 (b # c # d # bs) = valid_utf8 bs"
proof -
  have "\<not> b \<le> 127" "\<not> b \<le> 223" "b \<noteq> 240" "b \<noteq> 244" using assms(1,2) by (auto simp: word_le_nat_alt)
  with assms show ?thesis by (simp add: second_ok_def)
qed

lemma tail_two_ok: "cont_byte d \<Longrightarrow> cont_byte e \<Longrightarrow> tail_of_char 2 k (d # e # r) = (True, k + 2)"
  by (simp add: numeral_2_eq_2)

lemma utf8_four:
  assumes "240 \<le> b" and "b \<le> 244" and "second_ok b c" and "cont_byte d" and "cont_byte e"
  shows "valid_utf8 (b # c # d # e # bs) = valid_utf8 bs"
proof -
  have "\<not> b \<le> 127" "\<not> b \<le> 223" "\<not> b \<le> 239" "194 \<le> b"
    using assms(1,2) by (auto simp: word_le_nat_alt)
  with assms(2,3) tail_two_ok [OF assms(4,5)] have "char_at b (c # d # e # bs) = (True, 4)"
    by (simp only: char_at_def list.case if_True if_False not_True_eq_False simp_thms) simp
  then show ?thesis by (subst valid_utf8_char) simp
qed

lemma unat_byte: "k < 256 \<Longrightarrow> unat (of_nat k :: u8) = k"
  by (simp add: unat_of_nat)

lemma unat_cont: "unat (of_nat (128 + k mod 64) :: u8) = 128 + k mod 64"
  by (rule unat_byte) simp

lemma second_ok_of_nat:
  assumes "128 \<le> unat c" "unat c \<le> 191" "unat b = 224 \<Longrightarrow> 160 \<le> unat c" "unat b = 237 \<Longrightarrow> unat c \<le> 159"
    "unat b = 240 \<Longrightarrow> 144 \<le> unat c" "unat b = 244 \<Longrightarrow> unat c \<le> 143"
  shows "second_ok b c"
  using assms by (auto simp: second_ok_def cont_byte_nat word_le_nat_alt)

lemma cont_of: "cont_byte (of_nat (128 + k mod 64))"
  unfolding cont_byte_nat unat_cont by simp

lemma encode_char_valid:
  assumes "scalar n"
  shows "valid_utf8 (encode_char n @ bs) = valid_utf8 bs"
proof -
  consider "n < 128" | "128 \<le> n" "n < 2048" | "2048 \<le> n" "n < 65536" | "65536 \<le> n" by linarith
  then show ?thesis
  proof cases
    case 1
    with unat_byte [of n] show ?thesis by (simp add: encode_char_def word_le_nat_alt)
  next
    case 2
    then have d: "2 \<le> n div 64" "n div 64 < 32" by linarith+
    then have "194 \<le> (of_nat (192 + n div 64) :: u8)" "(of_nat (192 + n div 64) :: u8) \<le> 223"
      using unat_byte [of "192 + n div 64"] by (simp_all add: word_le_nat_alt)
    from utf8_two [OF this cont_of] 2 show ?thesis by (simp add: encode_char_def)
  next
    case 3
    then have d: "n div 4096 < 16" by linarith
    let ?b = "of_nat (224 + n div 4096) :: u8" and ?c = "of_nat (128 + n div 64 mod 64) :: u8"
    have b: "unat ?b = 224 + n div 4096" "unat ?c = 128 + n div 64 mod 64"
      using d unat_byte [of "224 + n div 4096"] unat_byte [of "128 + n div 64 mod 64"] by simp_all
    have "32 \<le> n div 64 mod 64" if "n div 4096 = 0"
      using that 3 split_three [of n] mod_less_divisor [of 64 n] by simp
    moreover have "n div 64 mod 64 < 32" if "n div 4096 = 13"
      using that 3 assms split_three [of n] unfolding scalar_def by simp linarith
    ultimately have "second_ok ?b ?c"
      using b d by (intro second_ok_of_nat) auto
    from utf8_three [OF _ _ this cont_of] b 3 d show ?thesis
      by (simp add: encode_char_def word_le_nat_alt)
  next
    case 4
    then have d: "n div 262144 < 5" using assms unfolding scalar_def by linarith
    let ?b = "of_nat (240 + n div 262144) :: u8" and ?c = "of_nat (128 + n div 4096 mod 64) :: u8"
    have b: "unat ?b = 240 + n div 262144" "unat ?c = 128 + n div 4096 mod 64"
      using d unat_byte [of "240 + n div 262144"] unat_byte [of "128 + n div 4096 mod 64"] by simp_all
    have "16 \<le> n div 4096 mod 64" if "n div 262144 = 0"
      using that 4 split_four [of n] mod_less_divisor [of 4096 n] by simp
    moreover have "n div 4096 mod 64 < 16" if "n div 262144 = 4"
      using that 4 assms split_four [of n] unfolding scalar_def by simp
    ultimately have "second_ok ?b ?c"
      using b d by (intro second_ok_of_nat) auto
    from utf8_four [OF _ _ this cont_of cont_of] b 4 d show ?thesis
      by (simp add: encode_char_def word_le_nat_alt)
  qed
qed

lemma lossy_units_valid: "valid_utf8 (from_utf16_lossy us)"
proof (induction us rule: from_utf16_lossy.induct)
  case (2 u us)
  have s: "scalar 65533" by (simp add: scalar_def)
  have "scalar (unat u)" if "unat u < 55296 \<or> 57344 \<le> unat u"
    using that unat_less_pow [of u] by (auto simp: scalar_def)
  moreover have "valid_utf8 (encode_char 65533)" using encode_char_valid [OF s, of "[]"] by simp
  ultimately show ?case using 2 s by (auto simp: encode_char_valid pair_scalar split: list.split)
qed simp

lemma encode_char_nonzero:
  assumes "scalar n" and "0 < n"
  shows "0 \<notin> set (encode_char n)"
proof -
  have h: "of_nat k \<noteq> (0 :: u8)" if "0 < k" "k < 256" for k
    using that unat_byte [of k] by (metis neq0_conv unat_0)
  have d: "n div 262144 < 16" using assms(1) unfolding scalar_def by linarith
  have "of_nat (128 + k mod 64) \<noteq> (0 :: u8)" for k by (rule h) simp_all
  moreover have "of_nat (240 + n div 262144) \<noteq> (0 :: u8)" using d by (intro h) simp_all
  moreover have "of_nat (224 + n div 4096) \<noteq> (0 :: u8)" if "n < 65536"
    using that by (intro h) simp_all
  moreover have "of_nat (192 + n div 64) \<noteq> (0 :: u8)" if "n < 2048"
    using that by (intro h) simp_all
  moreover have "of_nat n \<noteq> (0 :: u8)" if "n < 128"
    using that assms(2) by (intro h) simp_all
  ultimately show ?thesis by (simp add: encode_char_def del: of_nat_add)
qed

lemma lossy_units_nonzero: "0 \<notin> set us \<Longrightarrow> 0 \<notin> set (from_utf16_lossy us)"
proof (induction us rule: from_utf16_lossy.induct)
  case (2 u us)
  have tl: "0 \<notin> set us" and "u \<noteq> 0" using 2(5) by auto
  then have "0 < unat u" by (simp add: unat_gt_0)
  have s: "0 \<notin> set (encode_char 65533)" by (rule encode_char_nonzero) (simp_all add: scalar_def)
  show ?case
  proof (cases "unat u < 55296 \<or> 57344 \<le> unat u")
    case True
    have "0 \<notin> set (encode_char (unat u))"
      using True \<open>0 < unat u\<close> unat_less_pow [of u] by (intro encode_char_nonzero) (auto simp: scalar_def)
    with True 2(1) tl show ?thesis by simp
  next
    case no: False
    show ?thesis
    proof (cases "56320 \<le> unat u")
      case True
      with no 2(2) tl s show ?thesis by simp
    next
      case hi: False
      show ?thesis
      proof (cases us)
        case Nil
        with no hi s show ?thesis by simp
      next
        case (Cons v vs)
        have "0 \<notin> set (encode_char (pair_code u v))" if "unat v < 57344"
          using that hi by (intro encode_char_nonzero pair_scalar) (simp_all add: pair_code_def)
        with no hi s Cons tl 2(3) [OF no hi Cons] 2(4) [OF no hi Cons] show ?thesis by simp
      qed
    qed
  qed
qed simp

lemma valid_utf8_append: "valid_utf8 bs \<Longrightarrow> valid_utf8 cs \<Longrightarrow> valid_utf8 (bs @ cs)"
proof (induction bs rule: encode_utf16.induct)
  case (2 b bs)
  obtain v l where c: "char_at b bs = (v, l)" by (cases "char_at b bs")
  have v: "char_at b bs = (True, l)" "valid_utf8 (drop l (b # bs))"
    using 2(2) valid_utf8_char [of b bs] c by simp_all
  note r = char_round_trip [OF v(1)]
  have "valid_utf8 (drop l (b # bs) @ cs)" using 2(1) [OF c [symmetric]] 2(3) v(2) by simp
  then have "valid_utf8 (encode_char (code_point (take l (b # bs))) @ (drop l (b # bs) @ cs))"
    using r encode_char_valid by blast
  with r show ?case by (metis append_assoc append_take_drop_id)
qed simp

text \<open>The identity the code works with is text without a NUL, whatever the memory holds.\<close>

lemma sid_text:
  assumes "fst (current_user_sid k) = Some (Inr sid)"
  shows "valid_utf8 (bytes_of sid) \<and> CHR 0x00 \<notin> set sid"
proof -
  have "wide_to_string p = Some sid \<Longrightarrow> ?thesis" for p
  proof (cases p)
    case (Some mem)
    assume "wide_to_string p = Some sid"
    with Some have "bytes_of sid = from_utf16_lossy (takeWhile (\<lambda>u. u \<noteq> 0) mem)"
      by (auto simp: wide_to_string_def split: if_split_asm)
    moreover have "0 \<notin> set (takeWhile (\<lambda>u. u \<noteq> 0) mem)" by (auto dest: set_takeWhileD)
    ultimately show ?thesis using lossy_units_valid lossy_units_nonzero by (metis bytes_nonzero)
  qed (simp add: wide_to_string_def bytes_of_def)
  with assms show ?thesis
    by (auto simp: current_user_sid_def split: sum.split_asm option.split_asm if_split_asm)
qed

lemma wide_read_back:
  assumes "valid_utf8 (bytes_of s)" and "CHR 0x00 \<notin> set s"
  shows "wide_to_string (Some (to_wide_null s @ memory)) = Some s"
proof -
  have "0 \<notin> set (bytes_of s)" using assms(2) by (simp add: bytes_nonzero)
  with encode_nonzero [OF assms(1)]
  have "takeWhile (\<lambda>u. u \<noteq> 0) (to_wide_null s @ memory) = encode_utf16 (bytes_of s)"
    by (simp add: to_wide_null_def takeWhile_terminated)
  then show ?thesis using utf16_round_trip [OF assms(1)]
    by (simp add: wide_to_string_def to_wide_null_def)
qed

lemma run_calls_append:
  "run_calls (xs @ ys) held = (case run_calls xs held of None \<Rightarrow> None | Some h \<Rightarrow> run_calls ys h)"
  by (induction xs held rule: run_calls.induct) auto

section \<open>Properties\<close>

text \<open>
  C1: Wide strings round trip: a text without a NUL, passed to a Windows call as UTF-16 with its
  terminator, is read back as itself, whatever the memory holds after the terminator. The two
  conversions (\<open>to_wide_null\<close> and \<open>wide_to_string\<close>) agree on every scalar value, surrogate pairs
  included.
\<close>

theorem wide_round_trip:
  assumes "valid_utf8 (bytes_of s)" and "CHR 0x00 \<notin> set s"
  shows "wide_to_string (Some (to_wide_null s @ memory)) = Some s"
  using assms by (rule wide_read_back)

theorem wide_round_trip_witness:
  "wide_to_string (Some (to_wide_null (''S-1-5'' @ replacement) @ [7, 0])) = Some (''S-1-5'' @ replacement)"
  by (rule wide_round_trip) (code_simp, simp add: flip: bytes_nonzero, code_simp)

text \<open>C21: The pipe is private and nothing leaks. Whatever the system answers, once the user's identity
  was read, every pipe the code asks for refuses remote clients, is not inherited, and carries, as a
  text the system can read back, the descriptor that denies the network first and then admits that
  identity and nobody else; it is asked for while that descriptor is allocated. The token and both
  allocations are released, whether the pipe could be created or not.
\<close>

theorem pipe_private:
  assumes "fst (current_user_sid k) = Some (Inr sid)"
    and "calls = snd (create_instance convert create name (security_descriptor_definition sid) is_first)"
  shows "(\<forall>q. CreatePipe q \<in> set calls \<longrightarrow> pq_reject_remote q \<and> \<not> pq_inherit q \<and> pq_name q = name
            \<and> wide_to_string (Some (pq_descriptor q @ memory))
                = Some (''D:P(D;;GA;;;NU)(A;;GA;;;'' @ sid @ '')''))
       \<and> run_calls (snd (current_user_sid k) @ calls) (0, 0) = Some (0, 0)"
proof (intro conjI allI impI)
  let ?sddl = "security_descriptor_definition sid"
  have ascii: "valid_utf8 (bytes_of ''D:P(D;;GA;;;NU)(A;;GA;;;'')" "valid_utf8 (bytes_of '')'')"
    by (simp_all add: valid_utf8_ascii bytes_of_def)
  note t = sid_text [OF assms(1)]
  from ascii t have "valid_utf8 (bytes_of ?sddl)"
    unfolding security_descriptor_definition_def bytes_of_def map_append by (intro valid_utf8_append) simp_all
  moreover have "CHR 0x00 \<notin> set ?sddl" using t by (simp add: security_descriptor_definition_def)
  ultimately have s: "valid_utf8 (bytes_of ?sddl)" "CHR 0x00 \<notin> set ?sddl" by this+
  show "pq_reject_remote q" "\<not> pq_inherit q" "pq_name q = name"
    "wide_to_string (Some (pq_descriptor q @ memory)) = Some (''D:P(D;;GA;;;NU)(A;;GA;;;'' @ sid @ '')'')"
    if "CreatePipe q \<in> set calls" for q
    using instance_created [OF that [unfolded assms(2)]] wide_read_back [OF s, of memory]
    by (simp_all add: instance_request_def security_descriptor_definition_def)
  show "run_calls (snd (current_user_sid k) @ calls) (0, 0) = Some (0, 0)"
    using sid_calls [of k] assms(1) by (simp add: run_calls_append assms(2) instance_calls)
qed

theorem pipe_private_witness:
  "\<exists>k sid calls. fst (current_user_sid k) = Some (Inr sid) \<and> sid = ''S-1-5-7'' \<and> length calls = 3 \<and>
     ((\<forall>q. CreatePipe q \<in> set calls \<longrightarrow> pq_reject_remote q \<and> \<not> pq_inherit q \<and> pq_name q = ''p''
          \<and> wide_to_string (Some (pq_descriptor q @ [9]))
              = Some (''D:P(D;;GA;;;NU)(A;;GA;;;'' @ sid @ '')''))
       \<and> run_calls (snd (current_user_sid k) @ calls) (0, 0) = Some (0, 0))"
proof -
  let ?k = "\<lparr>tk_open = Inr (), tk_needed = 44, tk_size_error = io_of KOther [], tk_info = Inr (),
    tk_sid = Inr (Some (to_wide_null ''S-1-5-7'' @ [3, 4]))\<rparr>"
  have k: "fst (current_user_sid ?k) = Some (Inr ''S-1-5-7'')"
    using wide_read_back [of "''S-1-5-7''" "[3, 4]"] by (simp add: current_user_sid_def valid_utf8_ascii bytes_of_def)
  let ?calls = "snd (create_instance (\<lambda>_. Inr ()) (\<lambda>_. Inr 1) ''p'' (security_descriptor_definition ''S-1-5-7'') True)"
  have "length ?calls = 3" by (simp add: create_instance_def descriptor_from_sddl_def descriptor_drop_def)
  with k pipe_private [OF k refl, of "\<lambda>_. Inr ()" "\<lambda>_. Inr 1" "''p''" True "[9]"] show ?thesis by blast
qed

end
