(* ===== verification/Probe.thy ===== *)
theory Probe
  imports Generate
begin

text \<open>
  The HTTP behind the health and credential probes (\<open>mehoy-backend-llama/src/health.rs\<close>,
  \<open>status_of\<close>): one GET on a connection of its own, with the credential or without it. As in
  \<open>Generate\<close>, how the connection, the handshake and the exchange went is a \<open>peer\<close>.
\<close>

definition HEALTH_PATH :: string where
  "HEALTH_PATH = ''/health''"

definition PROPS_PATH :: string where
  "PROPS_PATH = ''/props''"

definition HEALTH_BUDGET :: duration where
  "HEALTH_BUDGET = seconds 5"

definition probe_request :: "backend_channel \<Rightarrow> string \<Rightarrow> bool \<Rightarrow> http_request" where
  "probe_request c path with_credential = \<lparr>
     hr_method = ''GET'', hr_uri = path,
     hr_headers = (''host'', channel_host c)
       # (if with_credential then [(''authorization'', ''Bearer '' @ expose (ch_secret c))] else []),
     hr_body = []\<rparr>"

text \<open>The body is read to its end and thrown away, whatever it is.\<close>

definition status_of :: "peer \<Rightarrow> backend_channel \<Rightarrow> string \<Rightarrow> bool \<Rightarrow> string + u16" where
  "status_of p c path with_credential =
     (let q = probe_request c path with_credential
      in rbind (pe_connect p) (\<lambda>_.
         rbind (pe_handshake p) (\<lambda>_.
         rbind (pe_build p q) (\<lambda>_. pe_send p q))))"

text \<open>What the budget makes of it, and the three questions the backend is asked.\<close>

definition timed :: "bool \<Rightarrow> 'a \<Rightarrow> 'a option" where
  "timed in_time answer = (if in_time then Some answer else None)"

definition health_answer :: "bool \<Rightarrow> peer \<Rightarrow> backend_channel \<Rightarrow> http_status" where
  "health_answer in_time p c = timed in_time (status_of p c HEALTH_PATH True)"

definition props_answer :: "bool \<Rightarrow> peer \<Rightarrow> backend_channel \<Rightarrow> http_status" where
  "props_answer in_time p c = timed in_time (status_of p c PROPS_PATH True)"

definition bare_answer :: "bool \<Rightarrow> peer \<Rightarrow> backend_channel \<Rightarrow> string \<Rightarrow> http_status" where
  "bare_answer in_time p c path = timed in_time (status_of p c path False)"

end
