(* ===== verification/Waiting.thy ===== *)
theory Waiting
  imports Cancel Endpoint
begin

text \<open>
  What waits and what watches: a task that waits for its cancellation token
  (\<open>mehoy-core/src/cancel.rs\<close>, \<open>CancellationToken::cancelled\<close>), the observer of endpoint events
  (\<open>mehoy-core/src/transport/trace.rs\<close>, \<open>set_observer\<close> and \<open>emit\<close>), and the daemon's wait for a
  signal to stop (\<open>mehoy-daemon/src/main.rs\<close>, \<open>shutdown_signal\<close>).
\<close>

section \<open>Waiting for a token\<close>

text \<open>
  The token is a watch channel: a value and a version that every change moves on. A receiver
  remembers the version it last saw, and a wait for a change ends when the two differ.
\<close>

record watch =
  wt_value :: token
  wt_version :: nat

definition new_watch :: watch where
  "new_watch = \<lparr>wt_value = new_token, wt_version = 0\<rparr>"

definition watch_cause :: "watch \<Rightarrow> cancellation_cause option" where
  "watch_cause w = wt_value w"

definition watch_cancel :: "cancellation_cause \<Rightarrow> watch \<Rightarrow> bool \<times> watch" where
  "watch_cancel cause w = (case token_cancel cause (wt_value w) of
     (True, t) \<Rightarrow> (True, \<lparr>wt_value = t, wt_version = wt_version w + 1\<rparr>)
   | (False, _) \<Rightarrow> (False, w))"

text \<open>Where the task is in \<open>cancelled\<close>: before the subscription, about to look, waiting for a change
  from the version it saw, or returned.\<close>

datatype waiter = Unsubscribed | Looking nat | Sleeping nat | Resolved cancellation_cause

fun waiter_turn :: "watch \<Rightarrow> waiter \<Rightarrow> waiter" where
  "waiter_turn w Unsubscribed = Looking (wt_version w)"
| "waiter_turn w (Looking _) = (case wt_value w of
     Some cause \<Rightarrow> Resolved cause | None \<Rightarrow> Sleeping (wt_version w))"
| "waiter_turn w (Sleeping seen) = (if wt_version w = seen then Sleeping seen else Looking (wt_version w))"
| "waiter_turn w (Resolved cause) = Resolved cause"

text \<open>The task takes its turns and anybody cancels, in any order.\<close>

inductive waiting_step :: "watch \<times> waiter \<Rightarrow> watch \<times> waiter \<Rightarrow> bool" where
  turn: "waiting_step (w, t) (w, waiter_turn w t)"
| cancels: "waiting_step (w, t) (snd (watch_cancel cause w), t)"

inductive_cases waiting_stepE: "waiting_step s s'"

text \<open>A task that sleeps has seen the present version only while there was no cause, and one that
  returned did so with the cause.\<close>

fun awake_in_time :: "watch \<times> waiter \<Rightarrow> bool" where
  "awake_in_time (w, Sleeping seen) \<longleftrightarrow> seen \<le> wt_version w \<and> (seen = wt_version w \<longrightarrow> wt_value w = None)"
| "awake_in_time (w, Resolved cause) \<longleftrightarrow> wt_value w = Some cause"
| "awake_in_time (w, _) \<longleftrightarrow> True"

lemma watch_cancel_cases:
  "watch_cancel cause w = (if wt_value w = None
     then (True, \<lparr>wt_value = Some cause, wt_version = wt_version w + 1\<rparr>) else (False, w))"
  by (auto simp: watch_cancel_def token_cancel_def split: option.split)

lemma awake_turn: "awake_in_time (w, t) \<Longrightarrow> awake_in_time (w, waiter_turn w t)"
  by (cases t) (simp_all split: option.split)

lemma awake_cancel: "awake_in_time (w, t) \<Longrightarrow> awake_in_time (snd (watch_cancel cause w), t)"
  by (cases t; cases "wt_value w"; simp add: watch_cancel_cases)

interpretation waking: preserved waiting_step awake_in_time
  by (unfold_locales, elim waiting_stepE) (simp_all only: awake_turn awake_cancel)

section \<open>The observer of endpoint events\<close>

text \<open>
  A process-wide observer, installed once, and the switch for standard error, which is read from
  the environment by the first event and then kept. What was delivered is a list of observer and
  event.
\<close>

record 'o tracing =
  tr_observer :: "'o option"
  tr_enabled :: "bool option"
  tr_delivered :: "('o \<times> endpoint_event) list"
  tr_stderr :: "endpoint_event list"

definition no_tracing :: "'o tracing" where
  "no_tracing = \<lparr>tr_observer = None, tr_enabled = None, tr_delivered = [], tr_stderr = []\<rparr>"

definition set_observer :: "'o \<Rightarrow> 'o tracing \<Rightarrow> ('o + unit) \<times> 'o tracing" where
  "set_observer ob s = (case tr_observer s of
     None \<Rightarrow> (Inr (), s\<lparr>tr_observer := Some ob\<rparr>) | Some _ \<Rightarrow> (Inl ob, s))"

definition enabled_now :: "string option \<Rightarrow> 'o tracing \<Rightarrow> bool" where
  "enabled_now var s = (case tr_enabled s of None \<Rightarrow> stderr_tracing_enabled var | Some b \<Rightarrow> b)"

definition trace_emit :: "string option \<Rightarrow> endpoint_event \<Rightarrow> 'o tracing \<Rightarrow> 'o tracing" where
  "trace_emit var ev s = (let enabled = enabled_now var s in s\<lparr>
     tr_enabled := Some enabled,
     tr_delivered := tr_delivered s @ (case tr_observer s of None \<Rightarrow> [] | Some ob \<Rightarrow> [(ob, ev)]),
     tr_stderr := tr_stderr s @ (if enabled then [ev] else [])\<rparr>)"

datatype 'o trace_op = Observe 'o | Emit endpoint_event

fun trace_step :: "'o trace_op \<Rightarrow> 'o tracing \<Rightarrow> bool \<times> 'o tracing" where
  "trace_step (Observe ob) s = (case set_observer ob s of (r, s) \<Rightarrow> (r = Inr (), s))"
| "trace_step (Emit ev) s = (False, trace_emit None ev s)"

fun trace_writes :: "'o trace_op \<Rightarrow> 'o option" where
  "trace_writes (Observe ob) = Some ob"
| "trace_writes (Emit _) = None"

interpretation observer: write_once trace_step trace_writes tr_observer "\<lambda>_. True"
proof (unfold_locales, goal_cases)
  case (1 op s v b s')
  then show ?case by (cases op) (auto simp: set_observer_def trace_emit_def Let_def)
next
  case (2 op s s' v)
  then show ?case by (cases op) (auto simp: set_observer_def)
next
  case (3 op s b s')
  then show ?case by (cases op) (auto simp: set_observer_def trace_emit_def Let_def)
qed

fun emitted :: "'o trace_op list \<Rightarrow> endpoint_event list" where
  "emitted [] = []"
| "emitted (Emit ev # ops) = ev # emitted ops"
| "emitted (Observe _ # ops) = emitted ops"

fun watched :: "'o trace_op list \<Rightarrow> ('o \<times> endpoint_event) list" where
  "watched [] = []"
| "watched (Emit _ # ops) = watched ops"
| "watched (Observe ob # ops) = map (Pair ob) (emitted ops)"

definition run_trace :: "'o trace_op list \<Rightarrow> 'o tracing \<Rightarrow> 'o tracing" where
  "run_trace ops s = fold (\<lambda>op s. snd (trace_step op s)) ops s"

lemma run_trace_observed:
  "tr_observer s = Some ob \<Longrightarrow> tr_delivered (run_trace ops s) = tr_delivered s @ map (Pair ob) (emitted ops)"
proof (induction ops arbitrary: s)
  case (Cons op ops)
  then show ?case by (cases op) (simp_all add: run_trace_def set_observer_def trace_emit_def Let_def)
qed (simp add: run_trace_def)

lemma run_trace_unobserved:
  "tr_observer s = None \<Longrightarrow> tr_delivered (run_trace ops s) = tr_delivered s @ watched ops"
proof (induction ops arbitrary: s)
  case (Cons op ops)
  show ?case
  proof (cases op)
    case (Observe ob)
    with Cons.prems run_trace_observed [of "s\<lparr>tr_observer := Some ob\<rparr>" ob ops] show ?thesis
      by (simp add: run_trace_def set_observer_def)
  next
    case (Emit ev)
    with Cons.prems Cons.IH [of "trace_emit None ev s"] show ?thesis
      by (simp add: run_trace_def trace_emit_def Let_def)
  qed
qed (simp add: run_trace_def)

section \<open>Waiting for a signal\<close>

datatype process_signal = CtrlC | SigTerm

text \<open>
  \<open>registered\<close> is whether the process may listen for \<open>SIGTERM\<close> (never on Windows, without a word).
  The result is the message on standard error, and the signals left when the wait is over, or
  \<open>None\<close> when it is not.
\<close>

fun signalled :: "bool \<Rightarrow> process_signal list \<Rightarrow> process_signal list option" where
  "signalled terminates [] = None"
| "signalled terminates (s # rest) =
     (if s = CtrlC \<or> terminates then Some rest else signalled terminates rest)"

definition shutdown_signal ::
    "bool \<Rightarrow> io_error + unit \<Rightarrow> process_signal list \<Rightarrow> string list \<times> process_signal list option" where
  "shutdown_signal is_unix registered signals =
     (if \<not> is_unix then ([], signalled False signals)
      else case registered of
        Inl err \<Rightarrow> ([''mehoyd: cannot listen for SIGTERM: '' @ io_message err], signalled False signals)
      | Inr _ \<Rightarrow> ([], signalled True signals))"

section \<open>Properties\<close>

text \<open>C19: No wake-up is lost. Whenever the cancellation comes, before the task subscribes, between its look
  and its sleep or while it sleeps, the wait for a token ends within two turns of the task, with
  the cause that was recorded first; and it never ends before there is one.
\<close>

theorem cancellation_wakes:
  assumes "waiting_step\<^sup>*\<^sup>* (w, Unsubscribed) (w', t)"
  shows "(\<forall>cause. t = Resolved cause \<longrightarrow> watch_cause w' = Some cause)
       \<and> (\<forall>cause. watch_cause w' = Some cause \<longrightarrow>
            (waiter_turn w' ^^ 2) t = Resolved cause)"
proof -
  have "awake_in_time (w', t)" using waking.run.runs [OF assms] by simp
  then show ?thesis by (cases t) (auto simp: watch_cause_def numeral_2_eq_2)
qed

theorem cancellation_wakes_witness:
  "(waiter_turn (snd (watch_cancel User new_watch)) ^^ 2) (Sleeping 0) = Resolved User"
proof -
  have s: "waiting_step (new_watch, Unsubscribed) (new_watch, Looking 0)"
    "waiting_step (new_watch, Looking 0) (new_watch, Sleeping 0)"
    using waiting_step.turn [of new_watch Unsubscribed] waiting_step.turn [of new_watch "Looking 0"]
    by (simp_all add: new_watch_def new_token_def)
  from s(1) s(2) waiting_step.cancels [of new_watch "Sleeping 0" User]
  have "waiting_step\<^sup>*\<^sup>* (new_watch, Unsubscribed) (snd (watch_cancel User new_watch), Sleeping 0)"
    by (meson converse_rtranclp_into_rtranclp rtranclp.rtrancl_refl)
  from cancellation_wakes [OF this] show ?thesis
    by (simp add: watch_cause_def watch_cancel_cases new_watch_def new_token_def)
qed

text \<open>
  The first observer sees everything from then on and nobody else sees anything: what is delivered
  is every event emitted after the first observer was installed, in order, to that observer.
\<close>

theorem first_observer_sees_all: "tr_delivered (run_trace ops no_tracing) = watched ops"
  using run_trace_unobserved [of no_tracing ops] by (simp add: no_tracing_def)

text \<open>
  A daemon that may listen for both signals stops at the first that arrives; one that may not stops
  at the first Ctrl-C only, having said so on Unix.
\<close>

theorem stops_at_signal:
  "shutdown_signal is_unix registered signals =
     (if is_unix \<and> registered = Inr ()
      then ([], case signals of [] \<Rightarrow> None | _ # rest \<Rightarrow> Some rest)
      else (case registered of Inl err \<Rightarrow> if is_unix then [''mehoyd: cannot listen for SIGTERM: '' @ io_message err] else []
              | Inr _ \<Rightarrow> [],
            case dropWhile (\<lambda>s. s \<noteq> CtrlC) signals of [] \<Rightarrow> None | _ # rest \<Rightarrow> Some rest))"
proof -
  have "signalled True signals = (case signals of [] \<Rightarrow> None | _ # rest \<Rightarrow> Some rest)" for signals
    by (cases signals) simp_all
  moreover have "signalled False signals
      = (case dropWhile (\<lambda>s. s \<noteq> CtrlC) signals of [] \<Rightarrow> None | _ # rest \<Rightarrow> Some rest)" for signals
    by (induction signals) simp_all
  ultimately show ?thesis by (simp add: shutdown_signal_def split: sum.split)
qed

end
