(* ===== verification/Dummy.thy ===== *)
theory Dummy
  imports Text Output
begin

text \<open>
  The dummy worker (\<open>mehoy-core/examples/dummy_worker.rs\<close>), which the supervision of \<open>Process\<close> is
  run against: its command line, its announcement, and what it does with its standard input. What it
  writes is what \<open>Output\<close> reads, and the line that stops it is the one \<open>shutdown\<close> sends.
\<close>

section \<open>Command line\<close>

definition STOPPING_MARKER :: string where
  "STOPPING_MARKER = ''MEHOY-WORKER-STOPPING''"

definition NL :: string where
  "NL = [CHR 0x0A]"

definition DUMMY_USAGE :: string where
  "DUMMY_USAGE =
     ''mehoy-dummy-worker, a test stand-in for a supervised worker'' @ NL @ NL
     @ ''Options:'' @ NL
     @ ''  --ready                    Announce readiness and wait for a stop request'' @ NL
     @ ''  --startup-delay <ms>       Delay before announcing readiness'' @ NL
     @ ''  --never-ready              Never announce readiness'' @ NL
     @ ''  --exit-immediately         Exit without announcing readiness'' @ NL
     @ ''  --crash-after-ready <ms>   Announce readiness, then exit non-zero after a delay'' @ NL
     @ ''  --ignore-shutdown          Announce readiness, then ignore the stop request'' @ NL
     @ ''  --hang-after-ready         Announce readiness, then stop reading input'' @ NL
     @ ''  -h, --help                 Print this message'' @ NL"

text \<open>Delays are in milliseconds.\<close>

datatype dummy_behaviour =
  Obey | DummyNeverReady | ExitImmediately | CrashAfterReady nat | IgnoreShutdown | HangAfterReady

record dummy_config =
  dc_behaviour :: dummy_behaviour
  dc_delay :: nat

definition parse_millis :: "(string \<Rightarrow> string) \<Rightarrow> string \<Rightarrow> string + nat" where
  "parse_millis debug v = (case parse_uint u64_max v of
     Some n \<Rightarrow> Inr n | None \<Rightarrow> Inl (''expected a whole number of milliseconds, got '' @ debug v))"

text \<open>One argument, with its value where it takes one: \<open>None\<close> asks for help.\<close>

definition dummy_argument :: "(string \<Rightarrow> string) \<Rightarrow> string \<Rightarrow> string list \<Rightarrow> dummy_config \<Rightarrow>
    string + (dummy_config \<times> string list) option" where
  "dummy_argument debug arg rest c =
     (if arg = ''-h'' \<or> arg = ''--help'' then Inr None
      else if arg = ''--ready'' then Inr (Some (c\<lparr>dc_behaviour := Obey\<rparr>, rest))
      else if arg = ''--never-ready'' then Inr (Some (c\<lparr>dc_behaviour := DummyNeverReady\<rparr>, rest))
      else if arg = ''--exit-immediately'' then Inr (Some (c\<lparr>dc_behaviour := ExitImmediately\<rparr>, rest))
      else if arg = ''--ignore-shutdown'' then Inr (Some (c\<lparr>dc_behaviour := IgnoreShutdown\<rparr>, rest))
      else if arg = ''--hang-after-ready'' then Inr (Some (c\<lparr>dc_behaviour := HangAfterReady\<rparr>, rest))
      else if arg = ''--crash-after-ready'' then
        (case rest of [] \<Rightarrow> Inl ''--crash-after-ready requires milliseconds''
         | v # rest \<Rightarrow> rbind (parse_millis debug v) (\<lambda>n. Inr (Some (c\<lparr>dc_behaviour := CrashAfterReady n\<rparr>, rest))))
      else if arg = ''--startup-delay'' then
        (case rest of [] \<Rightarrow> Inl ''--startup-delay requires milliseconds''
         | v # rest \<Rightarrow> rbind (parse_millis debug v) (\<lambda>n. Inr (Some (c\<lparr>dc_delay := n\<rparr>, rest))))
      else Inl (''unrecognised argument: '' @ arg))"

lemma dummy_argument_shorter:
  assumes "dummy_argument debug arg rest c = Inr (Some (c', rest'))"
  shows "length rest' \<le> length rest"
  using assms unfolding dummy_argument_def
  by (simp only: split: if_split_asm)
    (auto simp: rbind_eq_Inr split: list.split_asm)

function dummy_args :: "(string \<Rightarrow> string) \<Rightarrow> string list \<Rightarrow> dummy_config \<Rightarrow> string + dummy_config option" where
  "dummy_args debug [] c = Inr (Some c)"
| "dummy_args debug (arg # rest) c = rbind (dummy_argument debug arg rest c) (\<lambda>r. case r of
     None \<Rightarrow> Inr None | Some (c, rest) \<Rightarrow> dummy_args debug rest c)"
  by pat_completeness auto
termination
  by (relation "measure (\<lambda>(debug, args, c). length args)") (auto dest!: dummy_argument_shorter)

declare dummy_args.simps(2) [simp del]

definition dummy_default :: dummy_config where
  "dummy_default = \<lparr>dc_behaviour = Obey, dc_delay = 0\<rparr>"

section \<open>Running\<close>

text \<open>
  What the worker has come to, with what it wrote to standard output and standard error: it has
  exited with a code, or it lives on. Its input is the bytes that have arrived on it and whether the
  other end is closed.
\<close>

datatype dummy_run = DummyExit nat string string | DummyLives string string

definition announcement :: "nat \<Rightarrow> string" where
  "announcement pid = READY_MARKER @ '' pid='' @ show_nat pid @ NL"

text \<open>The reading loop of \<open>Obey\<close>: what is added to the output, and the exit code if it ends.\<close>

function obey_input :: "bool \<Rightarrow> u8 list \<Rightarrow> string \<times> nat option" where
  "obey_input closed bs = (case next_line closed bs of
     PendingLine \<Rightarrow> ([], None)
   | NoMoreLines \<Rightarrow> (STOPPING_MARKER @ '' reason=input-closed'' @ NL, Some 0)
   | BadText \<Rightarrow> ([], Some 0)
   | Line l rest \<Rightarrow>
       if trim l = SHUTDOWN_COMMAND then (STOPPING_MARKER @ '' reason=command'' @ NL, Some 0)
       else obey_input closed rest)"
  by pat_completeness auto
termination
  by (relation "measure (\<lambda>(closed, bs). length bs)") (auto dest: next_line_shorter)

declare obey_input.simps [simp del]

definition announced :: "dummy_behaviour \<Rightarrow> nat \<Rightarrow> bool \<Rightarrow> u8 list \<Rightarrow> dummy_run" where
  "announced b pid closed inp = (case b of
     CrashAfterReady after \<Rightarrow> DummyExit 9 (announcement pid) []
   | Obey \<Rightarrow> (case obey_input closed inp of
       (out, Some code) \<Rightarrow> DummyExit code (announcement pid @ out) []
     | (out, None) \<Rightarrow> DummyLives (announcement pid @ out) [])
   | _ \<Rightarrow> DummyLives (announcement pid) [])"

text \<open>\<open>waited\<close> is how long the worker has been left running, in milliseconds.\<close>

definition run_config :: "dummy_config \<Rightarrow> nat \<Rightarrow> nat \<Rightarrow> bool \<Rightarrow> u8 list \<Rightarrow> dummy_run" where
  "run_config c pid waited closed inp =
     (if dc_behaviour c = ExitImmediately then DummyExit 7 [] []
      else if waited < dc_delay c then DummyLives [] []
      else if dc_behaviour c = DummyNeverReady then DummyLives [] []
      else case dc_behaviour c of
        CrashAfterReady after \<Rightarrow>
          if waited - dc_delay c < after then DummyLives (announcement pid) []
          else announced (CrashAfterReady after) pid closed inp
      | b \<Rightarrow> announced b pid closed inp)"

definition dummy_main :: "(string \<Rightarrow> string) \<Rightarrow> string list \<Rightarrow> nat \<Rightarrow> nat \<Rightarrow> bool \<Rightarrow> u8 list \<Rightarrow> dummy_run" where
  "dummy_main debug args pid waited closed inp = (case dummy_args debug args dummy_default of
     Inl message \<Rightarrow> DummyExit 2 [] (''mehoy-dummy-worker: '' @ message @ NL @ DUMMY_USAGE)
   | Inr None \<Rightarrow> DummyExit 0 DUMMY_USAGE []
   | Inr (Some c) \<Rightarrow> run_config c pid waited closed inp)"

section \<open>Lemmas\<close>

text \<open>A line of printing characters, as the worker and its supervisor write them.\<close>

definition text_line :: "string \<Rightarrow> bool" where
  "text_line t \<longleftrightarrow> valid_utf8 (bytes_of t) \<and> 10 \<notin> set (bytes_of t) \<and> (t = [] \<or> last (bytes_of t) \<noteq> 13)"

definition line_bytes :: "string \<Rightarrow> u8 list" where
  "line_bytes t = bytes_of t @ [10]"

lemma printing_byte: "printing c \<Longrightarrow> 32 < unat (of_nat (of_char c) :: u8) \<and> unat (of_nat (of_char c) :: u8) < 127"
  by (simp add: printing_def unat_of_nat)

lemma spaced_line:
  assumes "\<forall>c\<in>set t. printing c \<or> c = CHR '' ''"
  shows "text_line t"
proof -
  have b: "\<forall>b\<in>set (bytes_of t). 32 \<le> unat b \<and> unat b < 127"
    using assms printing_byte by (auto simp: bytes_of_def less_imp_le)
  then have "list_all (\<lambda>b. b \<le> 127) (bytes_of t)" by (auto simp: list_all_iff word_le_nat_alt)
  moreover have "10 \<notin> set (bytes_of t)" using b by force
  moreover have "t = [] \<or> last (bytes_of t) \<noteq> 13"
  proof (cases "t = []")
    case False
    then have "last (bytes_of t) \<in> set (bytes_of t)" by (intro last_in_set) (simp add: bytes_of_def)
    with b show ?thesis by force
  qed simp
  ultimately show ?thesis by (simp add: text_line_def valid_utf8_ascii)
qed

lemma next_line_written: "text_line t \<Longrightarrow> next_line closed (line_bytes t @ rest) = Line t rest"
  using next_line_text [of t closed rest] by (simp add: text_line_def line_bytes_def)

lemma all_lines_written: "text_line t \<Longrightarrow> all_lines (line_bytes t @ rest) = t # all_lines rest"
  by (simp add: all_lines.simps [of "_ @ _"] next_line_written)

lemma obey_skips:
  assumes "\<forall>l\<in>set ls. text_line l \<and> trim l \<noteq> SHUTDOWN_COMMAND"
  shows "obey_input closed (concat (map line_bytes ls) @ rest) = obey_input closed rest"
  using assms by (induction ls) (simp_all add: obey_input.simps [of _ "_ @ _"] next_line_written)

definition pid_line :: "nat \<Rightarrow> string" where
  "pid_line pid = READY_MARKER @ '' pid='' @ show_nat pid"

lemma announcement_bytes: "bytes_of (announcement pid @ out) = line_bytes (pid_line pid) @ bytes_of out"
  by (simp add: announcement_def pid_line_def line_bytes_def bytes_of_def NL_def)

lemma pid_line_text: "text_line (pid_line pid)"
  using show_nat_digits [of pid]
  by (intro spaced_line) (auto simp: pid_line_def READY_MARKER_def list_all_iff digit_printing, auto simp: printing_def)

lemma pid_line_probed: "marker_probe (pid_line pid # rest) = Inr (ProbeReady (WorkerReady (pid_line pid)))"
proof -
  have "printing (hd (pid_line pid))" by (simp add: pid_line_def READY_MARKER_def printing_def)
  then have "trim_start (pid_line pid) = pid_line pid"
    using white_space_not_printing by (simp add: trim_start_def strip_any_printing)
  then show ?thesis by (simp add: pid_line_def)
qed

fun dummy_stdout :: "dummy_run \<Rightarrow> string" where
  "dummy_stdout (DummyExit _ out _) = out"
| "dummy_stdout (DummyLives out _) = out"

fun dummy_exits :: "dummy_run \<Rightarrow> nat option" where
  "dummy_exits (DummyExit code _ _) = Some code"
| "dummy_exits (DummyLives _ _) = None"

definition announces :: "dummy_config \<Rightarrow> nat \<Rightarrow> bool" where
  "announces c waited \<longleftrightarrow> dc_behaviour c \<noteq> ExitImmediately \<and> dc_behaviour c \<noteq> DummyNeverReady \<and> dc_delay c \<le> waited"

lemma run_config_stdout:
  "if announces c waited then \<exists>out. dummy_stdout (run_config c pid waited closed inp) = announcement pid @ out
   else dummy_stdout (run_config c pid waited closed inp) = []"
  by (auto simp: announces_def run_config_def announced_def split: dummy_behaviour.split prod.split option.split)

lemma dummy_main_config:
  "dummy_args debug args dummy_default = Inr (Some c) \<Longrightarrow>
     dummy_main debug args pid waited closed inp = run_config c pid waited closed inp"
  by (simp add: dummy_main_def)

lemma stop_line: "obey_input closed (line_bytes SHUTDOWN_COMMAND @ rest)
    = (STOPPING_MARKER @ '' reason=command'' @ NL, Some 0)"
proof -
  have "text_line SHUTDOWN_COMMAND" "trim SHUTDOWN_COMMAND = SHUTDOWN_COMMAND"
    by (auto intro!: spaced_line trim_printing simp: SHUTDOWN_COMMAND_def printing_def)
  then show ?thesis by (simp add: obey_input.simps [of _ "_ @ _"] next_line_written)
qed

section \<open>Properties\<close>

text \<open>
  The announcement reaches the supervisor: of the lines the worker has written so far, the probe of
  \<open>wait_ready\<close> makes a ready worker carrying the announcement with its process id, if the worker is
  one that announces and its delay is over, and nothing otherwise.
\<close>

theorem dummy_announces:
  assumes "dummy_args debug args dummy_default = Inr (Some c)"
  shows "marker_probe (all_lines (bytes_of (dummy_stdout (dummy_main debug args pid waited closed inp))))
     = (if announces c waited
        then Inr (ProbeReady (WorkerReady (READY_MARKER @ '' pid='' @ show_nat pid))) else Inr NotYet)"
  using run_config_stdout [of c waited pid closed inp] dummy_main_config [OF assms]
    all_lines_written [OF pid_line_text] pid_line_probed
  unfolding pid_line_def [symmetric]
  by (auto simp: announcement_bytes bytes_of_def [of "[]"] simp del: marker_probe.simps(2))

theorem dummy_announces_witness:
  "marker_probe (all_lines (bytes_of (dummy_stdout (dummy_main id [''--startup-delay'', ''250''] 77 300 False []))))
     = Inr (ProbeReady (WorkerReady (''MEHOY-WORKER-READY pid='' @ show_nat 77)))"
proof -
  have "parse_uint u64_max ''250'' = Some 250"
    by (simp add: parse_uint_def is_digit_def read_nat_def digit_value_def u64_max_def)
  then have "dummy_args id [''--startup-delay'', ''250''] dummy_default
      = Inr (Some \<lparr>dc_behaviour = Obey, dc_delay = 250\<rparr>)"
    by (simp add: dummy_args.simps(2) dummy_argument_def parse_millis_def dummy_default_def)
  from dummy_announces [OF this, of 77 300 False "[]"] show ?thesis
    by (simp add: announces_def READY_MARKER_def)
qed

text \<open>
  The stop request is obeyed and nothing else is. A worker that is ready exits with success and says
  so on the line \<open>shutdown\<close> that the supervisor writes, whatever else was written before and after;
  without it, it lives on as long as its input is open and then exits for that reason; one told to
  ignore the request or to hang never exits.
\<close>

theorem dummy_stops_when_asked:
  assumes "dc_delay c \<le> waited" and "\<forall>l\<in>set ls. text_line l \<and> trim l \<noteq> SHUTDOWN_COMMAND"
    and "inp = concat (map line_bytes ls)"
  shows "(dc_behaviour c = Obey \<longrightarrow>
        run_config c pid waited closed (inp @ bytes_of (SHUTDOWN_COMMAND @ NL) @ later)
          = DummyExit 0 (announcement pid @ STOPPING_MARKER @ '' reason=command'' @ NL) []
      \<and> run_config c pid waited False inp = DummyLives (announcement pid) []
      \<and> run_config c pid waited True inp
          = DummyExit 0 (announcement pid @ STOPPING_MARKER @ '' reason=input-closed'' @ NL) [])
    \<and> (dc_behaviour c = IgnoreShutdown \<or> dc_behaviour c = HangAfterReady \<longrightarrow>
        run_config c pid waited closed anything = DummyLives (announcement pid) [])"
proof -
  have "bytes_of (SHUTDOWN_COMMAND @ NL) @ later = line_bytes SHUTDOWN_COMMAND @ later"
    by (simp add: line_bytes_def bytes_of_def NL_def)
  then have "obey_input closed (inp @ bytes_of (SHUTDOWN_COMMAND @ NL) @ later)
      = (STOPPING_MARKER @ '' reason=command'' @ NL, Some 0)"
    by (simp only: assms(3) obey_skips [OF assms(2)] stop_line)
  moreover have "obey_input closed inp = obey_input closed []" for closed
    using obey_skips [OF assms(2), of closed "[]"] by (simp add: assms(3))
  then have "obey_input False inp = ([], None)"
    "obey_input True inp = (STOPPING_MARKER @ '' reason=input-closed'' @ NL, Some 0)"
    by (simp_all add: obey_input.simps [of _ "[]"] next_line_def)
  ultimately show ?thesis
    using assms(1) by (auto simp: run_config_def announced_def)
qed

theorem dummy_stops_when_asked_witness:
  "run_config dummy_default 5 0 False (line_bytes ''status'' @ bytes_of (SHUTDOWN_COMMAND @ NL) @ [1])
     = DummyExit 0 (announcement 5 @ STOPPING_MARKER @ '' reason=command'' @ NL) []"
proof -
  have "text_line ''status''" "trim ''status'' = ''status''"
    by (auto intro!: spaced_line trim_printing simp: printing_def)
  then have "\<forall>l\<in>set [''status'']. text_line l \<and> trim l \<noteq> SHUTDOWN_COMMAND"
    by (simp add: SHUTDOWN_COMMAND_def)
  from dummy_stops_when_asked [of dummy_default 0, OF _ this refl, of 5 False "[1]" "[]"] show ?thesis
    by (simp add: dummy_default_def)
qed

end
