(* ===== verification/StandIn.thy ===== *)
theory StandIn
  imports Text Probe
begin

text \<open>
  The stand-in engine (\<open>mehoy-runtime/examples/stand_in_backend.rs\<close>), the program the runtime is
  run against where no real engine is installed: its command line, the behaviour named by the
  container's file name, its start, and the HTTP it answers. It is the other end of what \<open>Backend\<close>
  starts and \<open>Generate\<close> talks to, so the theorems join the three.

  The file system, the listener and the debug form of a text are the record \<open>standin_env\<close>; a
  connection is the bytes that arrive on it before it ends or fails.
\<close>

section \<open>Behaviours\<close>

definition STANDIN_BANNER :: string where
  "STANDIN_BANNER = ''mehoy stand-in backend, not an inference engine'' @ [CHR 0x0A]
     @ ''version: 0 (stand-in)''"

definition BEHAVIOUR_MARKER :: string where
  "BEHAVIOUR_MARKER = ''__''"

definition EMBEDDING_WIDTH :: nat where
  "EMBEDDING_WIDTH = 8"

text \<open>Delays are in milliseconds.\<close>

datatype behaviour =
  Serve
| SlowReady nat
| NeverReady
| RefuseCredential
| FailLoad
| ExitAfterServing nat

definition numbered :: "string \<Rightarrow> string \<Rightarrow> nat option" where
  "numbered request name = (case strip_prefix name request of
     None \<Rightarrow> None
   | Some r \<Rightarrow> (case strip_prefix ''-'' r of None \<Rightarrow> None | Some d \<Rightarrow> parse_uint u64_max d))"

definition named_behaviour :: "(string \<Rightarrow> string) \<Rightarrow> string \<Rightarrow> string + behaviour" where
  "named_behaviour debug request =
     (if request = ''serve'' then Inr Serve
      else if request = ''never-ready'' then Inr NeverReady
      else if request = ''refuse-credential'' then Inr RefuseCredential
      else if request = ''fail-load'' then Inr FailLoad
      else case numbered request ''slow-ready'' of
        Some after \<Rightarrow> Inr (SlowReady after)
      | None \<Rightarrow> (case numbered request ''exit-after-serving'' of
          Some after \<Rightarrow> Inr (ExitAfterServing after)
        | None \<Rightarrow> Inl (''unrecognised behaviour '' @ debug request @ '' in the container name'')))"

definition from_model :: "(string \<Rightarrow> string) \<Rightarrow> string option \<Rightarrow> string + behaviour" where
  "from_model debug model = (case Option.bind model file_stem of
     None \<Rightarrow> Inr Serve
   | Some stem \<Rightarrow> (case split_last BEHAVIOUR_MARKER stem of
       None \<Rightarrow> Inr Serve | Some (_, request) \<Rightarrow> named_behaviour debug request))"

section \<open>Command line\<close>

record invocation =
  iv_model :: "string option"
  iv_host :: "string option"
  iv_port :: "u16 option"
  iv_key_file :: "string option"
  iv_embedding :: bool

definition no_invocation :: invocation where
  "no_invocation = \<lparr>iv_model = None, iv_host = None, iv_port = None, iv_key_file = None,
     iv_embedding = False\<rparr>"

text \<open>The value of an option is the next argument, whatever it is.\<close>

definition option_value :: "string \<Rightarrow> string list \<Rightarrow> string + (string \<times> string list)" where
  "option_value arg rest = (case rest of
     [] \<Rightarrow> Inl (arg @ '' requires a value'') | v # rest \<Rightarrow> Inr (v, rest))"

definition parse_port :: "string \<Rightarrow> string + u16" where
  "parse_port raw = (case parse_uint 65535 raw of
     None \<Rightarrow> Inl (''--port expects a port number, got '' @ raw) | Some n \<Rightarrow> Inr (of_nat n))"

text \<open>One round of the loop: what one argument, with its value where it takes one, adds.\<close>

definition take_argument :: "string \<Rightarrow> string list \<Rightarrow> invocation \<Rightarrow> string + (invocation \<times> string list)" where
  "take_argument arg rest p =
     (if arg = ''--model'' then
        rbind (option_value arg rest) (\<lambda>(v, rest). Inr (p\<lparr>iv_model := Some v\<rparr>, rest))
      else if arg = ''--host'' then
        rbind (option_value arg rest) (\<lambda>(v, rest). Inr (p\<lparr>iv_host := Some v\<rparr>, rest))
      else if arg = ''--port'' then
        rbind (option_value arg rest) (\<lambda>(raw, rest).
        rbind (parse_port raw) (\<lambda>n. Inr (p\<lparr>iv_port := Some n\<rparr>, rest)))
      else if arg = ''--api-key-file'' then
        rbind (option_value arg rest) (\<lambda>(v, rest). Inr (p\<lparr>iv_key_file := Some v\<rparr>, rest))
      else if arg = ''--embedding'' then Inr (p\<lparr>iv_embedding := True\<rparr>, rest)
      else if arg = ''--no-webui'' then Inr (p, rest)
      else if arg = ''--ctx-size'' \<or> arg = ''--n-gpu-layers'' then
        rbind (option_value arg rest) (\<lambda>(_, rest). Inr (p, rest))
      else Inl (''unrecognised argument: '' @ arg))"

lemma option_value_shorter: "option_value arg rest = Inr (v, rest') \<Longrightarrow> length rest' \<le> length rest"
  by (auto simp: option_value_def split: list.splits)

lemma rbind_value_shorter:
  assumes "rbind (option_value arg rest) f = Inr (p', rest')"
    and "\<And>v r. f (v, r) = Inr (p', rest') \<Longrightarrow> rest' = r"
  shows "length rest' \<le> length rest"
  using assms option_value_shorter [of arg rest] by (cases "option_value arg rest") auto

lemma take_argument_shorter:
  assumes "take_argument arg rest p = Inr (p', rest')"
  shows "length rest' \<le> length rest"
  using assms unfolding take_argument_def
  by (simp only: split: if_split_asm)
     ((erule rbind_value_shorter, force simp: rbind_eq_Inr) | simp)+

function standin_args :: "string list \<Rightarrow> invocation \<Rightarrow> string + invocation" where
  "standin_args [] p = Inr p"
| "standin_args (arg # rest) p =
     rbind (take_argument arg rest p) (\<lambda>(p, rest). standin_args rest p)"
  by pat_completeness auto
termination
  by (relation "measure (\<lambda>(args, p). length args)") (auto dest!: take_argument_shorter)

declare standin_args.simps(2) [simp del]

section \<open>Requests and answers\<close>

record standin_state =
  st_credential :: string
  st_refuse :: bool
  st_served :: bool

record standin_request =
  rq_method :: string
  rq_path :: string
  rq_headers :: "string \<rightharpoonup> string"
  rq_body :: string

definition bearer :: "standin_request \<Rightarrow> string option" where
  "bearer r = Option.bind (rq_headers r ''authorization'') (strip_prefix ''Bearer '')"

definition wants_stream :: "standin_request \<Rightarrow> bool" where
  "wants_stream r \<longleftrightarrow> str_contains (rq_body r) ''\"stream\":true''
     \<or> str_contains (rq_body r) ''\"stream\": true''"

definition CRLF :: string where
  "CRLF = [CHR 0x0D, CHR 0x0A]"

definition MAX_HEAD_BYTES :: nat where
  "MAX_HEAD_BYTES = 16 * 1024"

definition MAX_BODY_BYTES :: nat where
  "MAX_BODY_BYTES = 8 * 1024 * 1024"

text \<open>The bytes up to the first blank line, or as many as a head may have; \<open>None\<close> when the
  connection ends before.\<close>

fun read_head :: "nat \<Rightarrow> u8 list \<Rightarrow> u8 list \<Rightarrow> (u8 list \<times> u8 list) option" where
  "read_head 0 raw inp = Some (raw, inp)"
| "read_head (Suc n) raw [] = None"
| "read_head (Suc n) raw (b # inp) =
     (let raw = raw @ [b]
      in if suffix (bytes_of (CRLF @ CRLF)) raw then Some (raw, inp) else read_head n raw inp)"

definition add_header :: "string \<Rightarrow> (string \<rightharpoonup> string) \<Rightarrow> (string \<rightharpoonup> string)" where
  "add_header line hs = (case split_once (CHR '':'') line of
     None \<Rightarrow> hs | Some (name, v) \<Rightarrow> hs(ascii_lower (trim name) \<mapsto> trim v))"

definition first_or_empty :: "string list \<Rightarrow> string" where
  "first_or_empty ws = (case ws of [] \<Rightarrow> [] | w # _ \<Rightarrow> w)"

definition content_length :: "(string \<rightharpoonup> string) \<Rightarrow> nat" where
  "content_length hs = (case Option.bind (hs ''content-length'') (parse_uint u64_max) of
     None \<Rightarrow> 0 | Some n \<Rightarrow> n)"

definition read_request :: "u8 list \<Rightarrow> (standin_request \<times> u8 list) option" where
  "read_request inp = (case read_head MAX_HEAD_BYTES [] inp of
     None \<Rightarrow> None
   | Some (raw, inp) \<Rightarrow> (case str_lines (lossy raw) of
       [] \<Rightarrow> None
     | start # lines \<Rightarrow>
         (let parts = split_whitespace start;
              headers = fold add_header lines Map.empty;
              n = min (content_length headers) MAX_BODY_BYTES
          in if length inp < n then None
             else Some (\<lparr>rq_method = first_or_empty parts, rq_path = first_or_empty (drop 1 parts),
                         rq_headers = headers, rq_body = lossy (take n inp)\<rparr>, drop n inp))))"

definition json_response :: "nat \<Rightarrow> string \<Rightarrow> string \<Rightarrow> string" where
  "json_response status reason body =
     ''HTTP/1.1 '' @ show_nat status @ '' '' @ reason @ CRLF
     @ ''Content-Type: application/json'' @ CRLF
     @ ''Content-Length: '' @ show_nat (length body) @ CRLF
     @ ''Connection: close'' @ CRLF @ CRLF @ body"

definition unauthorised_response :: string where
  "unauthorised_response = json_response 401 ''Unauthorized''
     ''{\"error\":{\"message\":\"the stand-in refused the credential\",\"type\":\"authentication_error\"}}''"

definition STAND_IN_TEXT :: string where
  "STAND_IN_TEXT = '' a stand-in response, which means nothing''"

definition completion_body :: string where
  "completion_body = ''{\"choices\":[{\"text\":\"'' @ STAND_IN_TEXT
     @ ''\",\"finish_reason\":\"stop\"}],\"usage\":{\"prompt_tokens\":1,\"completion_tokens\":''
     @ show_nat (length (split_whitespace STAND_IN_TEXT)) @ ''}}''"

definition event_text :: "string \<Rightarrow> string" where
  "event_text payload = ''data: '' @ payload @ [CHR 0x0A, CHR 0x0A]"

definition word_payload :: "string \<Rightarrow> string" where
  "word_payload w = ''{\"choices\":[{\"text\":\"'' @ w @ ''\"}]}''"

definition final_payload :: string where
  "final_payload = ''{\"choices\":[{\"text\":\"\",\"finish_reason\":\"stop\"}],\"usage\":{\"prompt_tokens\":1,\"completion_tokens\":7}}''"

definition stream_head :: string where
  "stream_head = ''HTTP/1.1 200 OK'' @ CRLF @ ''Content-Type: text/event-stream'' @ CRLF
     @ ''Connection: close'' @ CRLF @ CRLF"

definition streamed_completion :: string where
  "streamed_completion = stream_head
     @ concat (map (\<lambda>w. event_text (word_payload w)) (split_inclusive (CHR '' '') STAND_IN_TEXT))
     @ event_text final_payload @ event_text ''[DONE]''"

text \<open>How many strings the \<open>input\<close> array of a request holds: quote pairs up to the first bracket.\<close>

definition INPUT_OPEN :: string where
  "INPUT_OPEN = ''\"input\":[''"

definition count_inputs :: "string \<Rightarrow> nat" where
  "count_inputs body = (case split_first INPUT_OPEN body of
     None \<Rightarrow> 1
   | Some (_, rest) \<Rightarrow> (case split_first '']'' rest of
       None \<Rightarrow> 1
     | Some (array, _) \<Rightarrow>
         if trim array = [] then 0 else length (filter (\<lambda>c. c = CHR 0x22) array) div 2))"

text \<open>
  The single-precision numbers of an embedding are multiples of 1/64. Up to \<open>2 ^ 24\<close> of them the
  arithmetic is exact; above, up to \<open>2 ^ 25\<close>, the last sum is rounded to the nearest even multiple
  of 1/32. A body of at most 8 MiB holds at most \<open>2 ^ 22\<close> inputs, which stays below \<open>2 ^ 25\<close>.
\<close>

definition round_f32 :: "nat \<Rightarrow> nat" where
  "round_f32 n = (if n < 2 ^ 24 \<or> even n then n else if n mod 4 = 1 then n - 1 else n + 1)"

definition component_64ths :: "nat \<Rightarrow> nat \<Rightarrow> nat" where
  "component_64ths index axis = round_f32 (8 * index + 16 + axis)"

definition pad_left :: "nat \<Rightarrow> string \<Rightarrow> string" where
  "pad_left n s = replicate (n - length s) (CHR ''0'') @ s"

definition show_64ths :: "nat \<Rightarrow> string" where
  "show_64ths n = show_nat (n div 64) @ ''.'' @ pad_left 6 (show_nat (n mod 64 * 15625))"

definition embedding_item :: "nat \<Rightarrow> string" where
  "embedding_item index = ''{\"index\":'' @ show_nat index @ '',\"embedding\":[''
     @ join '','' (map (\<lambda>axis. show_64ths (component_64ths index axis)) [0..<EMBEDDING_WIDTH]) @ '']}''"

definition embedding_body :: "string \<Rightarrow> string" where
  "embedding_body body = ''{\"object\":\"list\",\"data\":[''
     @ join '','' (map embedding_item [0..<count_inputs body]) @ '']}''"

definition mark_served :: "standin_state \<Rightarrow> standin_state" where
  "mark_served st = st\<lparr>st_served := True\<rparr>"

definition standin_route :: "standin_request \<Rightarrow> standin_state \<Rightarrow> string \<times> standin_state" where
  "standin_route r st =
     (if rq_method r = ''GET'' \<and> rq_path r = ''/health''
      then (json_response 200 ''OK'' ''{\"status\":\"ok\"}'', st)
      else if rq_method r = ''GET'' \<and> rq_path r = ''/props'' then
        (if st_refuse st \<or> bearer r \<noteq> Some (st_credential st) then (unauthorised_response, st)
         else (json_response 200 ''OK''
           ''{\"default_generation_settings\":{\"n_ctx\":4096},\"model_path\":\"stand-in\"}'', st))
      else if rq_method r = ''POST'' \<and> rq_path r = ''/v1/completions'' then
        (if bearer r \<noteq> Some (st_credential st) then (unauthorised_response, st)
         else (if wants_stream r then streamed_completion
               else json_response 200 ''OK'' completion_body, mark_served st))
      else if rq_method r = ''POST'' \<and> rq_path r = ''/v1/embeddings'' then
        (if bearer r \<noteq> Some (st_credential st) then (unauthorised_response, st)
         else (json_response 200 ''OK'' (embedding_body (rq_body r)), mark_served st))
      else (json_response 404 ''Not Found''
        ''{\"error\":{\"message\":\"no such route on the stand-in\",\"type\":\"not_found\"}}'', st))"

text \<open>One connection: the bytes written to it, if any.\<close>

definition standin_connection :: "u8 list \<Rightarrow> standin_state \<Rightarrow> u8 list \<times> standin_state" where
  "standin_connection inp st = (case read_request inp of
     None \<Rightarrow> ([], st)
   | Some (r, _) \<Rightarrow> (let (response, st) = standin_route r st in (bytes_of response, st)))"

section \<open>Running\<close>

record standin_env =
  sn_is_file :: "string \<Rightarrow> bool"
  sn_read :: "string \<Rightarrow> io_error + string"
  sn_bind :: "ip_addr \<Rightarrow> u16 \<Rightarrow> io_error + unit"
  sn_debug :: "string \<Rightarrow> string"

record listening =
  li_ip :: ip_addr
  li_port :: u16
  li_state :: standin_state
  li_delay :: nat
  li_abandon :: "nat option"

text \<open>How \<open>main\<close> ends, or what it goes on doing, with the lines it wrote to standard error.\<close>

datatype standin_run =
  StandInExit nat "string list"
| StaysUnbound "string list"
| Listening listening "string list"

definition say :: "string \<Rightarrow> string" where
  "say message = ''stand-in: '' @ message"

definition read_credential :: "standin_env \<Rightarrow> string option \<Rightarrow> string + string" where
  "read_credential e key = (case key of
     None \<Rightarrow> Inr []
   | Some path \<Rightarrow> (case sn_read e path of
       Inl err \<Rightarrow> Inl (''cannot read '' @ path @ '': '' @ io_message err)
     | Inr contents \<Rightarrow> Inr (trim contents)))"

definition listen_as :: "standin_env \<Rightarrow> invocation \<Rightarrow> behaviour \<Rightarrow> string \<Rightarrow> standin_run" where
  "listen_as e iv b credential =
     (let (delay, said) = (case b of
            SlowReady after \<Rightarrow> (after, [say (''delaying readiness by '' @ show_nat after @ '' ms'')])
          | _ \<Rightarrow> (0, []))
      in case iv_port iv of
           None \<Rightarrow> StandInExit 2 (said @ [say ''--port is required''])
         | Some port \<Rightarrow>
             (let host = (case iv_host iv of None \<Rightarrow> ''127.0.0.1'' | Some h \<Rightarrow> h)
              in case parse_ip host of
                   None \<Rightarrow> StandInExit 2 (said @ [say (''--host expects an address, got '' @ host)])
                 | Some ip \<Rightarrow> (case sn_bind e ip port of
                     Inl err \<Rightarrow> StandInExit 1 (said @ [say (''cannot bind '' @ host @ '':''
                         @ show_nat (unat port) @ '': '' @ io_message err)])
                   | Inr _ \<Rightarrow> Listening
                       \<lparr>li_ip = ip, li_port = port,
                        li_state = \<lparr>st_credential = credential, st_refuse = (b = RefuseCredential),
                                    st_served = False\<rparr>,
                        li_delay = delay,
                        li_abandon = (case b of ExitAfterServing after \<Rightarrow> Some after | _ \<Rightarrow> None)\<rparr>
                       (said @ [say (''listening on '' @ host @ '':'' @ show_nat (unat port)
                          @ '', embedding='' @ (if iv_embedding iv then ''true'' else ''false''))]))))"

definition standin_main :: "standin_env \<Rightarrow> string list \<Rightarrow> standin_run" where
  "standin_main e args =
     (if ''--version'' \<in> set args then StandInExit 0 [STANDIN_BANNER]
      else case standin_args args no_invocation of
        Inl message \<Rightarrow> StandInExit 2 [say message]
      | Inr iv \<Rightarrow> (case from_model (sn_debug e) (iv_model iv) of
          Inl message \<Rightarrow> StandInExit 2 [say message]
        | Inr b \<Rightarrow>
            if b = FailLoad then StandInExit 1 [say ''refusing to load the model, as requested'']
            else if (case iv_model iv of None \<Rightarrow> False | Some model \<Rightarrow> \<not> sn_is_file e model)
            then StandInExit 1 [say (''cannot load model '' @ the (iv_model iv) @ '': no such file'')]
            else (case read_credential e (iv_key_file iv) of
                Inl message \<Rightarrow> StandInExit 1 [say message]
              | Inr credential \<Rightarrow>
                  if b = NeverReady
                  then StaysUnbound [say ''staying up without binding, as requested'']
                  else listen_as e iv b credential)))"

text \<open>
  The accept loop over the connections in the order they are answered. A stand-in that is to
  abandon its instance answers until one has been served and then \<open>extra\<close> that arrive within the
  delay; the others get nothing.
\<close>

fun serve_connections :: "u8 list list \<Rightarrow> standin_state \<Rightarrow> u8 list list \<times> standin_state" where
  "serve_connections [] st = ([], st)"
| "serve_connections (c # cs) st =
     (let (out, st) = standin_connection c st; (outs, st) = serve_connections cs st in (out # outs, st))"

fun serve_then_exit :: "nat \<Rightarrow> u8 list list \<Rightarrow> standin_state \<Rightarrow> u8 list list \<times> standin_state" where
  "serve_then_exit extra [] st = ([], st)"
| "serve_then_exit extra (c # cs) st =
     (if st_served st then serve_connections (take extra (c # cs)) st
      else let (out, st) = standin_connection c st; (outs, st) = serve_then_exit extra cs st
           in (out # outs, st))"

definition standin_serve :: "nat \<Rightarrow> listening \<Rightarrow> u8 list list \<Rightarrow> u8 list list \<times> standin_state" where
  "standin_serve extra l cs = (case li_abandon l of
     None \<Rightarrow> serve_connections cs (li_state l) | Some _ \<Rightarrow> serve_then_exit extra cs (li_state l))"

section \<open>The command line\<close>

lemma take_value [simp]:
  "take_argument ''--model'' (v # rest) p = Inr (p\<lparr>iv_model := Some v\<rparr>, rest)"
  "take_argument ''--host'' (v # rest) p = Inr (p\<lparr>iv_host := Some v\<rparr>, rest)"
  "take_argument ''--api-key-file'' (v # rest) p = Inr (p\<lparr>iv_key_file := Some v\<rparr>, rest)"
  "take_argument ''--port'' (show_nat (unat n) # rest) p = Inr (p\<lparr>iv_port := Some n\<rparr>, rest)"
  "take_argument ''--embedding'' rest p = Inr (p\<lparr>iv_embedding := True\<rparr>, rest)"
  "take_argument ''--no-webui'' rest p = Inr (p, rest)"
  "take_argument ''--ctx-size'' (v # rest) p = Inr (p, rest)"
  "take_argument ''--n-gpu-layers'' (v # rest) p = Inr (p, rest)"
  using unat_less_pow [of n]
  by (simp_all add: take_argument_def option_value_def parse_port_def parse_uint_show_nat)

lemma standin_args_launch:
  "standin_args (command_line spec ch key) no_invocation = Inr
     \<lparr>iv_model = Some (sp_model_path spec), iv_host = Some (channel_host ch),
      iv_port = Some (ch_port ch), iv_key_file = Some key,
      iv_embedding = (launch_mode (sp_descriptor spec) = Embedding)\<rparr>"
  by (simp add: command_line_def no_invocation_def standin_args.simps(2)
      split: option.split gpu_layer_policy.split)

section \<open>Requests on the wire\<close>

text \<open>How HTTP/1.1 writes a request: the request line, the headers, the length of the body when
  there is one, a blank line, the body.\<close>

definition head_lines :: "http_request \<Rightarrow> string list" where
  "head_lines q = (hr_method q @ '' '' @ hr_uri q @ '' HTTP/1.1'')
     # map (\<lambda>(n, v). n @ '': '' @ v) (hr_headers q
         @ (if hr_body q = [] then [] else [(''content-length'', show_nat (length (hr_body q)))]))"

definition write_head :: "string list \<Rightarrow> string" where
  "write_head ls = concat (map (\<lambda>l. l @ CRLF) ls) @ CRLF"

definition write_request :: "http_request \<Rightarrow> u8 list" where
  "write_request q = bytes_of (write_head (head_lines q)) @ hr_body q"

definition clean_line :: "string \<Rightarrow> bool" where
  "clean_line l \<longleftrightarrow> l \<noteq> [] \<and> (\<forall>c\<in>set l. (of_char c :: nat) < 128 \<and> c \<noteq> CHR 0x0D \<and> c \<noteq> CHR 0x0A)"

lemma bytes_of_append [simp]: "bytes_of (a @ b) = bytes_of a @ bytes_of b"
  by (simp add: bytes_of_def)

lemma bytes_of_eq [simp]: "bytes_of a = bytes_of b \<longleftrightarrow> a = b"
  by (metis text_of_bytes_of)

lemma read_head_step:
  "read_head (Suc n) raw (b # inp) =
     (if b = 10 \<and> suffix [13, 10, 13] raw then Some (raw @ [b], inp) else read_head n (raw @ [b]) inp)"
proof -
  have "suffix (bytes_of (CRLF @ CRLF)) (raw @ [b]) \<longleftrightarrow> b = 10 \<and> suffix [13, 10, 13] raw"
    by (auto simp: bytes_of_def CRLF_def suffix_def)
  then show ?thesis by (simp add: Let_def del: bytes_of_append)
qed

declare read_head.simps(3) [simp del]

lemma read_head_pass:
  assumes "\<forall>b\<in>set bs. b \<noteq> 10"
  shows "read_head (length bs + n) raw (bs @ inp) = read_head n (raw @ bs) inp"
  using assms by (induction bs arbitrary: raw) (simp_all add: read_head_step)

lemma bytes_of_line:
  assumes "clean_line l" and "b \<in> set (bytes_of l)"
  shows "b \<noteq> 10 \<and> b \<noteq> 13 \<and> b \<le> 127"
proof -
  obtain c where c: "c \<in> set l" "b = of_nat (of_char c)" using assms(2) by (auto simp: bytes_of_def)
  have small: "(of_char c :: nat) < 128" "c \<noteq> CHR 0x0A" "c \<noteq> CHR 0x0D"
    using assms(1) c(1) by (auto simp: clean_line_def)
  then have u: "unat b = of_char c" by (simp add: c(2) unat_of_nat)
  have "(of_char (CHR 0x0A) :: nat) = 10" "(of_char (CHR 0x0D) :: nat) = 13" by simp_all
  then have "(of_char c :: nat) \<noteq> 10" "(of_char c :: nat) \<noteq> 13" using small(2,3) by (metis of_char_eq_iff)+
  with u small(1) show ?thesis by (auto simp: word_le_nat_alt)
qed

lemma bytes_of_CRLF: "bytes_of CRLF = [13, 10]"
  by (simp add: bytes_of_def CRLF_def)

lemma length_CRLF: "length CRLF = 2"
  by (simp add: CRLF_def)

lemma write_head_simps:
  "write_head [] = CRLF" "write_head (l # ls) = l @ CRLF @ write_head ls"
  by (simp_all add: write_head_def)

lemma read_head_line:
  assumes "clean_line l"
  shows "read_head (length l + 2 + n) raw (bytes_of (l @ CRLF) @ inp)
    = read_head n (raw @ bytes_of (l @ CRLF)) inp"
proof -
  obtain l0 x where l: "bytes_of l = l0 @ [x]"
    using assms by (cases "bytes_of l" rule: rev_cases) (auto simp: clean_line_def bytes_of_def)
  with bytes_of_line [OF assms, of x] have "x \<noteq> 10" by simp
  then have "\<not> suffix ([13, 10] @ [13]) ((raw @ bytes_of l) @ [13])"
    unfolding snoc_suffix_snoc using snoc_suffix_snoc [of "[13]" 10 "raw @ l0" x] by (simp add: l)
  then have "\<not> suffix [13, 10, 13] (raw @ bytes_of l @ [13])" by simp
  then show ?thesis
    using read_head_pass [of "bytes_of l @ [13]" "Suc n" raw "10 # inp"] bytes_of_line [OF assms]
    by (simp add: bytes_of_CRLF read_head_step)
qed

lemma read_head_end:
  assumes "suffix [13, 10] raw"
  shows "read_head (2 + n) raw (13 # 10 # inp) = Some (raw @ [13, 10], inp)"
proof -
  have "suffix [13, 10, 13] (raw @ [13])" using assms by (auto simp: suffix_def)
  then show ?thesis by (simp add: read_head_step)
qed

lemma read_head_lines:
  assumes "\<forall>l\<in>set ls. clean_line l" and "suffix [13, 10] raw \<or> ls \<noteq> []"
  shows "read_head (length (write_head ls) + n) raw (bytes_of (write_head ls) @ inp)
    = Some (raw @ bytes_of (write_head ls), inp)"
  using assms
proof (induction ls arbitrary: raw)
  case Nil
  then show ?case using read_head_end [of raw n inp]
    by (simp add: write_head_simps bytes_of_CRLF length_CRLF)
next
  case (Cons l ls)
  let ?raw = "raw @ bytes_of (l @ CRLF)"
  have "suffix [13, 10] ?raw" by (simp add: bytes_of_CRLF suffix_def)
  with Cons.IH [of ?raw] Cons.prems(1)
  have "read_head (length (write_head ls) + n) ?raw (bytes_of (write_head ls) @ inp)
      = Some (?raw @ bytes_of (write_head ls), inp)" by simp
  with Cons.prems(1) read_head_line [of l "length (write_head ls) + n" raw "bytes_of (write_head ls) @ inp"]
  show ?case by (simp add: write_head_simps length_CRLF ac_simps)
qed

lemma split_lines_line:
  assumes "clean_line l"
  shows "split_lines [] (l @ CRLF @ s) = l # split_lines [] s"
proof -
  have "split_lines acc (l @ CRLF @ s) = (acc @ l) # split_lines [] s"
    if "\<forall>c\<in>set l. c \<noteq> CHR 0x0A" for acc
    using that
  proof (induction l arbitrary: acc)
    case Nil
    then show ?case by (simp add: CRLF_def suffix_def)
  qed simp
  with assms show ?thesis by (simp add: clean_line_def)
qed

lemma str_lines_head:
  "\<forall>l\<in>set ls. clean_line l \<Longrightarrow> str_lines (write_head ls) = ls @ [[]]"
proof (induction ls)
  case Nil
  then show ?case by (simp add: str_lines_def write_head_def CRLF_def suffix_def)
next
  case (Cons l ls)
  then show ?case using split_lines_line [of l "write_head ls"] by (simp add: str_lines_def write_head_def)
qed

text \<open>A request whose parts can be written without quoting.\<close>

definition word :: "string \<Rightarrow> bool" where
  "word s \<longleftrightarrow> s \<noteq> [] \<and> list_all printing s"

definition header_value :: "string \<Rightarrow> bool" where
  "header_value v \<longleftrightarrow> v \<noteq> [] \<and> printing (hd v) \<and> printing (last v) \<and> clean_line v"

definition plain_header :: "string \<times> string \<Rightarrow> bool" where
  "plain_header h \<longleftrightarrow> word (fst h) \<and> CHR '':'' \<notin> set (fst h) \<and> header_value (snd h)"

definition plain_request :: "http_request \<Rightarrow> bool" where
  "plain_request q \<longleftrightarrow> word (hr_method q) \<and> word (hr_uri q) \<and> list_all plain_header (hr_headers q)
     \<and> ''content-length'' \<notin> set (map (\<lambda>h. ascii_lower (fst h)) (hr_headers q))
     \<and> length (hr_body q) \<le> MAX_BODY_BYTES
     \<and> length (write_head (head_lines q)) \<le> MAX_HEAD_BYTES"

lemma printing_clean: "printing c \<Longrightarrow> (of_char c :: nat) < 128 \<and> c \<noteq> CHR 0x0D \<and> c \<noteq> CHR 0x0A"
  by (auto simp: printing_def)

lemma printing_no_space: "printing c \<Longrightarrow> find (\<lambda>w. prefix w (c # s)) white_space = None"
  using white_space_not_printing by (fastforce simp: find_None_iff prefix_def Cons_eq_append_conv)

lemma space_found: "find (\<lambda>w. prefix w (CHR '' '' # s)) white_space = Some '' ''"
proof -
  have "take 6 white_space
      = [[CHR 0x09], [CHR 0x0A], [CHR 0x0B], [CHR 0x0C], [CHR 0x0D], '' '']" by code_simp
  then obtain ws where w: "white_space
      = [[CHR 0x09], [CHR 0x0A], [CHR 0x0B], [CHR 0x0C], [CHR 0x0D], '' ''] @ ws"
    by (metis append_take_drop_id)
  show ?thesis unfolding w by simp
qed

lemma words_from_word: "list_all printing w \<Longrightarrow> words_from acc (w @ s) = words_from (acc @ w) s"
  by (induction w arbitrary: acc) (simp_all add: printing_no_space)

lemma split_request_line:
  assumes "word a" and "word b" and "word c"
  shows "split_whitespace (a @ '' '' @ b @ '' '' @ c) = [a, b, c]"
  using assms words_from_word [of c "[]" "[]"]
  by (auto simp: split_whitespace_def words_from_word word_def space_found)

lemma trim_space:
  assumes "printing (hd v)" and "printing (last v)" and "v \<noteq> []"
  shows "trim (CHR '' '' # v) = v"
proof -
  have "trim_start (CHR '' '' # v) = v"
    using strip_any_printing [of white_space v "length v"] white_space_not_printing assms(1)
    by (simp add: trim_start_def space_found)
  then show ?thesis
    using trim_printing [OF assms(1,2)] strip_any_printing [of white_space v "length v"]
      white_space_not_printing assms(1) by (simp add: trim_def trim_start_def)
qed

lemma add_header_line:
  assumes "plain_header (n, v)"
  shows "add_header (n @ '': '' @ v) hs = hs(ascii_lower n \<mapsto> v)"
proof -
  have n: "CHR '':'' \<notin> set n" "printing (hd n)" "printing (last n)"
    using assms by (auto simp: plain_header_def word_def list_all_iff)
  have "split_once (CHR '':'') (n @ '': '' @ v) = Some (n, CHR '' '' # v)"
  proof -
    have "\<forall>c\<in>set n. c \<noteq> CHR '':''" using n(1) by auto
    then show ?thesis by (simp add: split_once_def takeWhile_append2 dropWhile_append2)
  qed
  with n trim_printing [of n] trim_space [of v] assms show ?thesis
    by (simp add: add_header_def plain_header_def header_value_def)
qed

lemma fold_headers:
  "list_all plain_header hs \<Longrightarrow> fold add_header (map (\<lambda>(n, v). n @ '': '' @ v) hs) m
   = fold (\<lambda>(n, v) m. m(ascii_lower n \<mapsto> v)) hs m"
  by (induction hs arbitrary: m) (auto simp: add_header_line simp del: append.simps)

lemma show_nat_header: "header_value (show_nat n)"
  using show_nat_digits [of n] show_nat_nonempty [of n] digit_printing printing_clean
  by (auto simp: header_value_def clean_line_def list_all_iff)

lemma word_clean: "word s \<Longrightarrow> clean_line s"
  using printing_clean by (auto simp: word_def clean_line_def list_all_iff)

lemma clean_line_append: "clean_line a \<Longrightarrow> clean_line b \<Longrightarrow> clean_line (a @ b)"
  by (auto simp: clean_line_def)

lemma headers_written:
  assumes "plain_request q"
  shows "list_all plain_header (hr_headers q
     @ (if hr_body q = [] then [] else [(''content-length'', show_nat (length (hr_body q)))]))"
  using assms show_nat_header
  by (auto simp: plain_request_def plain_header_def word_def printing_def)

lemma head_lines_clean:
  assumes "plain_request q"
  shows "\<forall>l\<in>set (head_lines q). clean_line l"
proof -
  have sep: "clean_line '' ''" "clean_line '' HTTP/1.1''" "clean_line '': ''"
    by (simp_all add: clean_line_def)
  have "clean_line (n @ '': '' @ v)" if "plain_header (n, v)" for n v
    using that sep by (intro clean_line_append) (auto simp: plain_header_def header_value_def word_clean)
  with headers_written [OF assms] have "\<forall>l\<in>set (map (\<lambda>(n, v). n @ '': '' @ v) (hr_headers q
      @ (if hr_body q = [] then [] else [(''content-length'', show_nat (length (hr_body q)))]))).
      clean_line l" by (fastforce simp: list_all_iff simp del: append.simps)
  moreover have "clean_line (hr_method q @ '' '' @ hr_uri q @ '' HTTP/1.1'')"
    using assms sep by (intro clean_line_append) (auto simp: plain_request_def word_clean)
  ultimately show ?thesis unfolding head_lines_def list.set by blast
qed

definition header_map :: "http_request \<Rightarrow> string \<rightharpoonup> string" where
  "header_map q = fold (\<lambda>(n, v) m. m(ascii_lower n \<mapsto> v)) (hr_headers q
     @ (if hr_body q = [] then [] else [(''content-length'', show_nat (length (hr_body q)))])) Map.empty"

lemma ascii_head:
  assumes "\<forall>l\<in>set ls. clean_line l"
  shows "list_all (\<lambda>b. b \<le> 127) (bytes_of (write_head ls))"
  using assms bytes_of_line
  by (induction ls) (auto simp: write_head_simps bytes_of_CRLF list_all_iff)

lemma header_map_other:
  "k \<notin> set (map (\<lambda>h. ascii_lower (fst h)) hs) \<Longrightarrow> fold (\<lambda>(n, v) m. m(ascii_lower n \<mapsto> v)) hs m k = m k"
  by (induction hs arbitrary: m) auto

lemma header_map_member:
  assumes "(n, v) \<in> set hs" and "distinct (map (\<lambda>h. ascii_lower (fst h)) hs)"
  shows "fold (\<lambda>(n, v) m. m(ascii_lower n \<mapsto> v)) hs m (ascii_lower n) = Some v"
  using assms
proof (induction hs arbitrary: m)
  case (Cons h hs)
  show ?case
  proof (cases "h = (n, v)")
    case True
    with Cons.prems(2) header_map_other [of "ascii_lower n" hs "m(ascii_lower n \<mapsto> v)"]
    show ?thesis by (simp del: fun_upd_apply) (simp only: fun_upd_same)
  next
    case False
    with Cons show ?thesis by (cases h) auto
  qed
qed simp

lemma content_length_written:
  assumes "plain_request q"
  shows "content_length (header_map q) = length (hr_body q)"
proof (cases "hr_body q = []")
  case True
  with assms header_map_other [of "''content-length''" "hr_headers q" Map.empty] show ?thesis
    by (simp add: content_length_def header_map_def plain_request_def)
next
  case False
  have "ascii_lower ''content-length'' = ''content-length''" by (simp add: ascii_lower_def)
  moreover have "length (hr_body q) \<le> u64_max"
    using assms by (simp add: plain_request_def MAX_BODY_BYTES_def u64_max_def)
  ultimately show ?thesis using False
    by (simp add: content_length_def header_map_def parse_uint_show_nat)
qed

lemma read_write_request:
  assumes "plain_request q"
  shows "read_request (write_request q @ rest) = Some (\<lparr>rq_method = hr_method q, rq_path = hr_uri q,
    rq_headers = header_map q, rq_body = lossy (hr_body q)\<rparr>, rest)"
proof -
  let ?hs = "hr_headers q
     @ (if hr_body q = [] then [] else [(''content-length'', show_nat (length (hr_body q)))])"
  let ?start = "hr_method q @ '' '' @ hr_uri q @ '' '' @ ''HTTP/1.1''"
  let ?head = "write_head (head_lines q)"
  note clean = head_lines_clean [OF assms]
  have lines: "head_lines q = ?start # map (\<lambda>(n, v). n @ '': '' @ v) ?hs" by (simp add: head_lines_def)
  have "length ?head \<le> MAX_HEAD_BYTES" using assms by (simp add: plain_request_def)
  then obtain n where n: "MAX_HEAD_BYTES = length ?head + n" by (metis le_Suc_ex)
  have raw: "read_head MAX_HEAD_BYTES [] (write_request q @ rest)
      = Some (bytes_of ?head, hr_body q @ rest)"
    using read_head_lines [OF clean, of "[]" n "hr_body q @ rest"]
    unfolding n write_request_def by (simp add: lines)
  have ascii: "list_all (\<lambda>b. b \<le> 127) (bytes_of ?head)"
    by (rule ascii_head [OF clean])
  have read: "str_lines (lossy (bytes_of ?head)) = head_lines q @ [[]]"
    using lossy_valid [OF valid_utf8_ascii [OF ascii]] str_lines_head [OF clean] by simp
  have words: "split_whitespace ?start = [hr_method q, hr_uri q, ''HTTP/1.1'']"
    using assms by (intro split_request_line) (auto simp: plain_request_def word_def printing_def)
  have "add_header [] m = m" for m by (simp add: add_header_def split_once_def)
  then have headers: "fold add_header (map (\<lambda>(n, v). n @ '': '' @ v) ?hs @ [[]]) Map.empty = header_map q"
    using fold_headers [OF headers_written [OF assms]] by (simp add: header_map_def)
  have len: "content_length (header_map q) = length (hr_body q)" "length (hr_body q) \<le> MAX_BODY_BYTES"
    using content_length_written [OF assms] assms by (simp_all add: plain_request_def)
  show ?thesis
    using raw read words headers len by (simp add: read_request_def lines first_or_empty_def Let_def)
qed

section \<open>The stand-in as a peer\<close>

text \<open>How a client reads the status of an answer: the three digits after the version.\<close>

definition response_status :: "string \<Rightarrow> u16" where
  "response_status response = of_nat (read_nat (take 3 (drop 9 response)))"

definition standin_peer :: "standin_state \<Rightarrow> peer" where
  "standin_peer st = \<lparr>pe_connect = Inr (), pe_handshake = Inr (), pe_build = (\<lambda>_. Inr ()),
     pe_send = (\<lambda>q. case read_request (write_request q) of
       None \<Rightarrow> Inl ''connection closed''
     | Some (r, _) \<Rightarrow> Inr (response_status (fst (standin_route r st)))),
     pe_collect = Inr []\<rparr>"

lemma response_status_json:
  "response_status (json_response 200 reason body) = 200"
  "response_status (json_response 401 reason body) = 401"
  by (simp_all add: response_status_def json_response_def show_nat.simps read_nat_def digit_value_def)

lemma hex_digit_printing: "n < 16 \<Longrightarrow> printing (hex_digit n)"
proof -
  assume "n < 16"
  then have "hex_digit n \<in> set ''0123456789abcdef''" unfolding hex_digit_def by (intro nth_mem) simp
  then show ?thesis by (auto simp: printing_def)
qed

lemma hex_encode_printing: "list_all printing (hex_encode bs)"
proof -
  have "list_all printing (hex_byte b)" for b
    using unat_less_pow [of b] by (simp add: hex_byte_def hex_digit_printing)
  then show ?thesis by (induction bs) (auto simp: hex_encode_def)
qed

text \<open>A channel as the runtime reserves it: on the loopback address, with a secret of 32 bytes.\<close>

definition reserved :: "backend_channel \<Rightarrow> bool" where
  "reserved ch \<longleftrightarrow> (\<exists>port bs. length bs = 32
     \<and> reserve_channel (Inr port) (Inr bs) = Inr ch)"

lemma reserved_facts:
  assumes "reserved ch"
  shows "ch_ip ch = [127, 0, 0, 1] \<and> channel_host ch = ''127.0.0.1''
    \<and> length (expose (ch_secret ch)) = 64 \<and> word (expose (ch_secret ch))"
proof -
  obtain port bs where bs: "length bs = 32" and r: "reserve_channel (Inr port) (Inr bs) = Inr ch"
    using assms by (auto simp: reserved_def)
  from r have ch: "ch = \<lparr>ch_ip = [127, 0, 0, 1], ch_port = port, ch_secret = ChannelSecret (hex_encode bs)\<rparr>"
    by (simp add: reserve_channel_def generate_secret_def generate_hex_def)
  have len: "length (hex_encode bs) = 64" using bs by simp
  then have "hex_encode bs \<noteq> []" by (metis list.size(3) zero_neq_numeral)
  moreover have "show_ipv4 [127, 0, 0, 1] = ''127.0.0.1''" by code_simp
  ultimately show ?thesis using hex_encode_printing [of bs] len
    by (simp add: ch channel_host_def word_def)
qed

lemma sample_channel_ok: "reserved sample_channel"
  unfolding reserved_def
  by (intro exI [of _ 4000] exI [of _ "replicate 32 7"])
     (simp add: reserve_channel_def generate_secret_def generate_hex_def sample_channel_def)

lemma word_header: "word v \<Longrightarrow> header_value v"
  using word_clean [of v] by (auto simp: word_def header_value_def list_all_iff)

lemma bearer_header: "word v \<Longrightarrow> header_value (''Bearer '' @ v)"
  using word_clean [of v] clean_line_append [of "''Bearer ''" v]
  by (auto simp: word_def header_value_def list_all_iff clean_line_def printing_def)

lemma probe_plain:
  assumes "reserved ch" and "path \<in> {HEALTH_PATH, PROPS_PATH}"
  shows "plain_request (probe_request ch path True)"
  using assms(2) reserved_facts [OF assms(1)] bearer_header [of "expose (ch_secret ch)"]
    word_header [of "''127.0.0.1''"]
  by (auto simp: plain_request_def probe_request_def word_def printing_def plain_header_def
      ascii_lower_def HEALTH_PATH_def PROPS_PATH_def head_lines_def write_head_def CRLF_def
      MAX_HEAD_BYTES_def MAX_BODY_BYTES_def)

lemma probe_received:
  assumes "reserved ch" and "path \<in> {HEALTH_PATH, PROPS_PATH}"
  obtains r where "read_request (write_request (probe_request ch path True)) = Some (r, [])"
    and "rq_method r = ''GET''" and "rq_path r = path" and "bearer r = Some (expose (ch_secret ch))"
proof -
  have "header_map (probe_request ch path True) ''authorization'' = Some (''Bearer '' @ expose (ch_secret ch))"
    by (simp add: header_map_def probe_request_def ascii_lower_def)
  with read_write_request [OF probe_plain [OF assms], of "[]"] that show ?thesis
    by (simp add: bearer_def probe_request_def strip_prefix_def)
qed

lemma standin_probes:
  assumes "reserved ch"
  shows "health_probe (health_answer True (standin_peer st) ch) = Inr EndpointReady"
    and "probe_credential (props_answer True (standin_peer st) ch)
      = Inr (if st_refuse st \<or> expose (ch_secret ch) \<noteq> st_credential st
             then CredentialRefused 401 else Accepted)"
proof -
  from probe_received [OF assms, of HEALTH_PATH] obtain r where
    "read_request (write_request (probe_request ch HEALTH_PATH True)) = Some (r, [])"
    "rq_method r = ''GET''" "rq_path r = HEALTH_PATH" by auto
  then show "health_probe (health_answer True (standin_peer st) ch) = Inr EndpointReady"
    by (simp add: health_answer_def timed_def status_of_def Let_def standin_peer_def standin_route_def
        HEALTH_PATH_def response_status_json health_probe_def health_request_def phase_for_status_def)
next
  from probe_received [OF assms, of PROPS_PATH] obtain r where
    "read_request (write_request (probe_request ch PROPS_PATH True)) = Some (r, [])"
    "rq_method r = ''GET''" "rq_path r = PROPS_PATH" "bearer r = Some (expose (ch_secret ch))" by auto
  then show "probe_credential (props_answer True (standin_peer st) ch)
      = Inr (if st_refuse st \<or> expose (ch_secret ch) \<noteq> st_credential st
             then CredentialRefused 401 else Accepted)"
    by (simp add: props_answer_def timed_def status_of_def Let_def standin_peer_def standin_route_def
        PROPS_PATH_def response_status_json probe_credential_def is_success_def unauthorised_response_def)
qed

text \<open>The state in which a stand-in that was started by the runtime listens.\<close>

definition standin_initial :: "backend_channel \<Rightarrow> behaviour \<Rightarrow> standin_state" where
  "standin_initial ch b = \<lparr>st_credential = expose (ch_secret ch), st_refuse = (b = RefuseCredential),
     st_served = False\<rparr>"

lemma key_credential:
  assumes "reserved ch" and "secret_file_create ke dir (ch_secret ch) ks = (Inr key, ks1)"
    and "\<And>path f. map_of (ks_files ks1) path = Some f \<Longrightarrow> sn_read e path = Inr (kf_contents f)"
  shows "read_credential e (Some key) = Inr (expose (ch_secret ch))"
proof -
  have "map_of (ks_files ks1) key = Some \<lparr>kf_mode = 384, kf_contents = expose (ch_secret ch)\<rparr>"
    using secret_file_create_cases [OF assms(2)] by simp
  moreover have "trim (expose (ch_secret ch)) = expose (ch_secret ch)"
    using reserved_facts [OF assms(1)] by (intro trim_printing) (auto simp: word_def list_all_iff)
  ultimately show ?thesis using assms(3) by (simp add: read_credential_def)
qed

lemma stand_in_listens:
  assumes "reserved ch" and "secret_file_create ke dir (ch_secret ch) ks = (Inr key, ks')"
    and "\<And>path f. map_of (ks_files ks') path = Some f \<Longrightarrow> sn_read e path = Inr (kf_contents f)"
    and "from_model (sn_debug e) (Some (sp_model_path spec)) = Inr b" and "b \<noteq> FailLoad" and "b \<noteq> NeverReady"
    and "sn_is_file e (sp_model_path spec)" and "sn_bind e (IpV4 (ch_ip ch)) (ch_port ch) = Inr ()"
    and "''--version'' \<notin> set (command_line spec ch key)"
  shows "\<exists>l said. standin_main e (command_line spec ch key) = Listening l said
    \<and> li_ip l = IpV4 (ch_ip ch) \<and> li_port l = ch_port ch \<and> li_state l = standin_initial ch b"
proof -
  obtain delay said where d: "(case b of
            SlowReady after \<Rightarrow> (after, [say (''delaying readiness by '' @ show_nat after @ '' ms'')])
          | _ \<Rightarrow> (0, [])) = (delay, said)" by (cases b) auto
  show ?thesis
    using assms(4-9) key_credential [OF assms(1-3)] reserved_facts [OF assms(1)] d
    by (simp add: standin_main_def standin_args_launch listen_as_def parse_ip_loopback standin_initial_def)
qed

section \<open>The streamed answer\<close>

definition stream_words :: "string list" where
  "stream_words = split_inclusive (CHR '' '') STAND_IN_TEXT"

definition stream_payloads :: "string list" where
  "stream_payloads = map word_payload stream_words @ [final_payload, ''[DONE]'']"

definition stream_body :: "u8 list" where
  "stream_body = drop (length stream_head) (bytes_of streamed_completion)"

definition payload_event :: "string \<Rightarrow> u8 list list" where
  "payload_event p = [bytes_of p]"

lemma stream_words_eq:
  "stream_words = ['' '', ''a '', ''stand-in '', ''response, '', ''which '', ''means '', ''nothing'']"
  by (simp add: stream_words_def STAND_IN_TEXT_def)

lemma event_text_bytes: "bytes_of (event_text p) = encode_event (payload_event p)"
  by (simp add: event_text_def encode_event_def encode_line_def payload_event_def data_field_def bytes_of_def)

lemma stream_body_events: "stream_body = concat (map encode_event (map payload_event stream_payloads))"
proof -
  have "bytes_of (concat ts) = concat (map bytes_of ts)" for ts
    by (induction ts) (auto simp: bytes_of_def)
  then show ?thesis
    by (simp add: stream_body_def streamed_completion_def stream_payloads_def event_text_bytes
        comp_def flip: stream_words_def)
qed

lemma payload_of_event: "event_payload (payload_event p) = p"
  by (simp add: payload_event_def)

lemma clean_event:
  assumes "clean_line p"
  shows "sendable (payload_event p)"
proof -
  have "b \<le> 127 \<and> b \<noteq> 10 \<and> b \<noteq> 13" if "b \<in> set (bytes_of p)" for b
    using bytes_of_line [OF assms that] by simp
  moreover from this have "valid_utf8 (bytes_of p)" by (intro valid_utf8_ascii) (simp add: list_all_iff)
  ultimately show ?thesis by (auto simp: sendable_def payload_event_def line_end_def)
qed

lemma stream_events_sendable: "\<forall>e\<in>set (map payload_event stream_payloads). sendable e"
proof -
  have "\<forall>p\<in>set stream_payloads. clean_line p"
    by (simp add: stream_payloads_def stream_words_eq word_payload_def final_payload_def clean_line_def)
  with clean_event show ?thesis by auto
qed

text \<open>A decoder that reads the JSON of the stand-in's events.\<close>

definition reads_standin :: "wire \<Rightarrow> bool" where
  "reads_standin w \<longleftrightarrow>
     (\<forall>t\<in>set stream_words. wi_response w (bytes_of (word_payload t))
        = Inr \<lparr>wr_choices = [\<lparr>wc_text = t, wc_finish_reason = None\<rparr>], wr_usage = None\<rparr>)
     \<and> wi_response w (bytes_of final_payload)
        = Inr \<lparr>wr_choices = [\<lparr>wc_text = [], wc_finish_reason = Some ''stop''\<rparr>],
               wr_usage = Some \<lparr>wu_prompt_tokens = 1, wu_completion_tokens = 7\<rparr>\<rparr>"

definition standin_wire :: wire where
  "standin_wire = sample_wire\<lparr>wi_response := (\<lambda>bs.
     if bs = bytes_of final_payload
     then Inr \<lparr>wr_choices = [\<lparr>wc_text = [], wc_finish_reason = Some ''stop''\<rparr>],
               wr_usage = Some \<lparr>wu_prompt_tokens = 1, wu_completion_tokens = 7\<rparr>\<rparr>
     else case find (\<lambda>t. bytes_of (word_payload t) = bs) stream_words of
       Some t \<Rightarrow> Inr \<lparr>wr_choices = [\<lparr>wc_text = t, wc_finish_reason = None\<rparr>], wr_usage = None\<rparr>
     | None \<Rightarrow> Inl ''expected value'')\<rparr>"

lemma standin_wire_reads: "reads_standin standin_wire"
  by (simp add: reads_standin_def standin_wire_def stream_words_eq word_payload_def final_payload_def)

definition standin_summary :: generation_summary where
  "standin_summary = \<lparr>s_finish_reason = Stop, s_usage = Some \<lparr>input_tokens = 1, output_tokens = 7\<rparr>\<rparr>"

lemma trim_braces: "trim (CHR ''{'' # s @ ''}'') = CHR ''{'' # s @ ''}''"
  by (rule trim_printing) (simp_all add: printing_def)

lemma script_words:
  assumes "reads_standin w" and "set ts \<subseteq> set stream_words"
  shows "script w (map word_payload ts @ ps) terminal
    = (let (us, fin) = script w ps terminal in (ts @ us, fin))"
  using assms(2)
proof (induction ts)
  case Nil
  then show ?case by (cases "script w ps terminal") auto
next
  case (Cons t ts)
  have "trim (word_payload t) = word_payload t"
    using trim_braces [of "''\"choices\":[{\"text\":\"'' @ t @ ''\"}]''"] by (simp add: word_payload_def)
  then have "trim (word_payload t) \<noteq> DONE_MARKER" by (simp add: word_payload_def DONE_MARKER_def)
  with assms(1) Cons show ?case
    by (cases "script w ps terminal") (auto simp: reads_standin_def note_terminal_def)
qed

lemma standin_script:
  assumes "reads_standin w"
  shows "script w (map event_payload (map payload_event stream_payloads)) None
    = (stream_words @ [[]], Some standin_summary, AtMarker)"
proof -
  have "trim final_payload = final_payload"
    unfolding final_payload_def by (rule trim_printing) (simp_all add: printing_def)
  then have final: "trim final_payload \<noteq> DONE_MARKER" by (simp add: final_payload_def DONE_MARKER_def)
  have marker: "trim ''[DONE]'' = DONE_MARKER"
    unfolding DONE_MARKER_def by (rule trim_printing) (simp_all add: printing_def)
  have payloads: "map event_payload (map payload_event stream_payloads) = stream_payloads"
    by (simp add: comp_def payload_of_event)
  from assms final marker show ?thesis
    unfolding payloads by (simp add: stream_payloads_def script_words reads_standin_def note_terminal_def
        standin_summary_def usage_of_def)
qed

lemma stream_words_text: "concat stream_words = STAND_IN_TEXT"
  by (simp add: stream_words_eq STAND_IN_TEXT_def)

text \<open>The stand-in's streamed answer arrives. However the network cuts it, a reader that keeps
  reading is handed the stand-in's text in order, nothing lost or repeated, and the stream ends as
  completed with the reason and the usage the stand-in reported.\<close>

lemma standin_stream_read:
  assumes "reads_standin w" and "concat cs = stream_body" and "list_all2 brings waits cs"
    and "flowing g" and "makes_room room"
  shows "\<exists>g' k ts. read_response w su room waits g = Some g' \<and> concat ts = STAND_IN_TEXT
    \<and> gn_queue g' = drop k (gn_queue g @ map (\<lambda>t. Inr (TextDelta (h_id (gn_handle g)) t)) ts)
    \<and> gn_pending g' = Some (Inr (CompletedEvent (h_id (gn_handle g)) standin_summary))
    \<and> h_state (gn_handle g') = Completed"
proof -
  have "2 * length (concat cs) \<le> MAX_PENDING_BYTES"
    unfolding assms(2) stream_body_events
    by (simp add: stream_payloads_def stream_words_eq word_payload_def final_payload_def payload_event_def
        encode_event_def encode_line_def data_field_def MAX_PENDING_BYTES_def)
  with fits_small assms(2) stream_body_events have "fits cs (map payload_event stream_payloads)" by metis
  from read_response_script [OF stream_events_sendable _ this assms(3) _ standin_script [OF assms(1)] assms(4,5),
      of "[]" None]
  obtain g' k where "read_response w su room waits g = Some g'"
    and "gn_queue g' = drop k (gn_queue g @ deltas (h_id (gn_handle g)) (stream_words @ [[]]))"
    and "gn_pending g' = Some (Inr (CompletedEvent (h_id (gn_handle g)) standin_summary))"
    and "h_state (gn_handle g') = Completed"
    using assms(2) stream_body_events by (fastforce simp: goes_on_def)
  moreover have "deltas i (stream_words @ [[]]) = map (\<lambda>t. Inr (TextDelta i t)) stream_words" for i
    by (simp add: deltas_def stream_words_eq)
  ultimately show ?thesis using stream_words_text by metis
qed

lemma key_not_version:
  assumes "secret_file_create (se_keys sample_start) (CHR ''/'' # dir) secret sample_store = (Inr key, ks')"
  shows "''--version'' \<notin> set (command_line (sample_llama_spec\<lparr>sp_model_path := CHR ''/'' # path\<rparr>) sample_channel key)"
proof -
  have "hd key = CHR ''/''" "key \<noteq> []"
    using assms by (auto simp: secret_file_create_def Let_def ensure_credential_directory_def generate_hex_def
        sample_start_def sample_host_def sample_store_def key_path_def path_join_def split: if_splits)
  then have "key \<noteq> ''--version''" by auto
  then show ?thesis
    using show_nat_header [of 4000]
    by (simp add: command_line_def sample_llama_spec_def sample_channel_def channel_host_def
        header_value_def show_nat.simps)
qed

section \<open>Properties\<close>

text \<open>what is written is what is read. A request of plain parts, with a body of up to 8 MiB
  and a head of up to 16 KiB, is read back from the connection exactly: its method, its path, every
  header under its name in lower case, its body decoded as text, and not a byte of what follows.\<close>

theorem request_round_trip:
  assumes "plain_request q"
  shows "\<exists>r. read_request (write_request q @ rest) = Some (r, rest)
    \<and> rq_method r = hr_method q \<and> rq_path r = hr_uri q \<and> rq_body r = lossy (hr_body q)
    \<and> (\<forall>h\<in>set (hr_headers q). distinct (map (\<lambda>h. ascii_lower (fst h)) (hr_headers q)) \<longrightarrow>
         rq_headers r (ascii_lower (fst h)) = Some (snd h))"
proof -
  have "header_map q (ascii_lower n) = Some v"
    if h: "(n, v) \<in> set (hr_headers q)" and d: "distinct (map (\<lambda>h. ascii_lower (fst h)) (hr_headers q))" for n v
  proof -
    have "ascii_lower n \<in> set (map (\<lambda>h. ascii_lower (fst h)) (hr_headers q))" using h by force
    then have "ascii_lower n \<noteq> ''content-length''" using assms unfolding plain_request_def by metis
    moreover have "ascii_lower ''content-length'' = ''content-length''" by (simp add: ascii_lower_def)
    ultimately show ?thesis
      using header_map_member [OF h d, of Map.empty] by (simp add: header_map_def)
  qed
  with read_write_request [OF assms, of rest] show ?thesis by auto
qed

theorem request_round_trip_witness:
  "\<exists>r. read_request (write_request (probe_request sample_channel PROPS_PATH True) @ [1, 2]) = Some (r, [1, 2])
     \<and> rq_path r = ''/props''"
proof -
  have "plain_request (probe_request sample_channel PROPS_PATH True)"
    by (intro probe_plain sample_channel_ok) simp
  from request_round_trip [OF this, of "[1, 2]"] show ?thesis by (auto simp: probe_request_def PROPS_PATH_def)
qed

text \<open>the program the runtime starts is the one it talks to. With the command line the runtime
  builds and the credential file it wrote, the stand-in listens on the reserved address, answers
  the readiness probe, and accepts the runtime's credential, or refuses it when the container's name
  asks for that, which the runtime then sees as a refusal with status 401.\<close>

theorem standin_joins_runtime:
  assumes "reserved ch" and "secret_file_create ke dir (ch_secret ch) ks = (Inr key, ks')"
    and "\<And>path f. map_of (ks_files ks') path = Some f \<Longrightarrow> sn_read e path = Inr (kf_contents f)"
    and "from_model (sn_debug e) (Some (sp_model_path spec)) = Inr b" and "b \<noteq> FailLoad" and "b \<noteq> NeverReady"
    and "sn_is_file e (sp_model_path spec)" and "sn_bind e (IpV4 (ch_ip ch)) (ch_port ch) = Inr ()"
    and "''--version'' \<notin> set (command_line spec ch key)"
  shows "\<exists>l said. standin_main e (command_line spec ch key) = Listening l said
    \<and> li_ip l = IpV4 (ch_ip ch) \<and> li_port l = ch_port ch
    \<and> health_probe (health_answer True (standin_peer (li_state l)) ch) = Inr EndpointReady
    \<and> probe_credential (props_answer True (standin_peer (li_state l)) ch)
      = Inr (if b = RefuseCredential then CredentialRefused 401 else Accepted)"
proof -
  obtain l said where "standin_main e (command_line spec ch key) = Listening l said"
    "li_ip l = IpV4 (ch_ip ch)" "li_port l = ch_port ch" "li_state l = standin_initial ch b"
    using stand_in_listens [OF assms] by blast
  with standin_probes [OF assms(1), of "li_state l"] show ?thesis by (auto simp: standin_initial_def)
qed

theorem standin_joins_runtime_witness:
  "\<exists>l said key ks'. secret_file_create (se_keys sample_start) ''/tmp/k'' (ch_secret sample_channel) sample_store
       = (Inr key, ks')
     \<and> standin_main \<lparr>sn_is_file = (\<lambda>_. True), sn_read = (\<lambda>path. case map_of (ks_files ks') path of
           Some f \<Rightarrow> Inr (kf_contents f) | None \<Rightarrow> Inl (io_of KOther ''no such file'')),
         sn_bind = (\<lambda>_ _. Inr ()), sn_debug = id\<rparr>
       (command_line (sample_llama_spec\<lparr>sp_model_path := ''/m/x__refuse-credential.gguf''\<rparr>) sample_channel key)
       = Listening l said
     \<and> probe_credential (props_answer True (standin_peer (li_state l)) sample_channel)
       = Inr (CredentialRefused 401)"
proof -
  let ?spec = "sample_llama_spec\<lparr>sp_model_path := ''/m/x__refuse-credential.gguf''\<rparr>"
  obtain key ks' where k: "secret_file_create (se_keys sample_start) ''/tmp/k'' (ch_secret sample_channel)
      sample_store = (Inr key, ks')" using key_sample by blast
  let ?e = "\<lparr>sn_is_file = (\<lambda>_. True), sn_read = (\<lambda>path. case map_of (ks_files ks') path of
           Some f \<Rightarrow> Inr (kf_contents f) | None \<Rightarrow> Inl (io_of KOther ''no such file'')),
         sn_bind = (\<lambda>_ _. Inr ()), sn_debug = id\<rparr>"
  have "from_model (sn_debug ?e) (Some (sp_model_path ?spec)) = Inr RefuseCredential"
    by (simp add: from_model_def file_stem_def file_name_def BEHAVIOUR_MARKER_def named_behaviour_def)
  moreover have "''--version'' \<notin> set (command_line ?spec sample_channel key)"
    by (rule key_not_version [OF k])
  ultimately show ?thesis
    using standin_joins_runtime [OF sample_channel_ok k, of ?e ?spec RefuseCredential] k by auto
qed

lemma standin_route_served:
  assumes "standin_route r st = (out, st')"
  shows "st_credential st' = st_credential st \<and> st_refuse st' = st_refuse st
    \<and> (st_served st' \<longrightarrow> st_served st
       \<or> bearer r = Some (st_credential st) \<and> rq_method r = ''POST''
         \<and> rq_path r \<in> {''/v1/completions'', ''/v1/embeddings''})"
proof -
  consider "st' = st" | "st' = mark_served st" "bearer r = Some (st_credential st)"
    "rq_method r = ''POST''" "rq_path r \<in> {''/v1/completions'', ''/v1/embeddings''}"
    using assms by (simp add: standin_route_def split: if_splits)
  then show ?thesis by cases (auto simp: mark_served_def)
qed

lemma standin_connection_served:
  assumes "standin_connection c st = (out, st')"
  shows "st_credential st' = st_credential st
    \<and> (st_served st' \<longrightarrow> st_served st
       \<or> (\<exists>r rest. read_request c = Some (r, rest) \<and> bearer r = Some (st_credential st)
            \<and> rq_method r = ''POST'' \<and> rq_path r \<in> {''/v1/completions'', ''/v1/embeddings''}))"
proof (cases "read_request c")
  case None
  with assms show ?thesis by (auto simp: standin_connection_def)
next
  case (Some x)
  obtain r rest where x: "x = (r, rest)" by (cases x)
  obtain o1 st1 where ro: "standin_route r st = (o1, st1)" by (cases "standin_route r st")
  with assms Some x have "st' = st1" by (simp add: standin_connection_def)
  with standin_route_served [OF ro] Some x show ?thesis by auto
qed

text \<open>only a holder of the credential is served: if a stand-in that had served nobody has
  served somebody after some connections, one of them was a request with its credential to one of
  the two paths that do work.\<close>

theorem only_credential_serves:
  assumes "serve_connections cs st = (outs, st')" and "st_served st'" and "\<not> st_served st"
  shows "\<exists>c\<in>set cs. \<exists>r rest. read_request c = Some (r, rest) \<and> bearer r = Some (st_credential st)
    \<and> rq_method r = ''POST'' \<and> rq_path r \<in> {''/v1/completions'', ''/v1/embeddings''}"
  using assms
proof (induction cs arbitrary: st outs)
  case (Cons c cs)
  obtain o1 st1 where c: "standin_connection c st = (o1, st1)" by (cases "standin_connection c st")
  obtain os st2 where cs: "serve_connections cs st1 = (os, st2)" by (cases "serve_connections cs st1")
  have st2: "serve_connections cs st1 = (os, st')" using Cons.prems(1) c cs by simp
  from Cons.IH [OF st2] Cons.prems(2,3) standin_connection_served [OF c]
  show ?case by (cases "st_served st1") auto
qed simp

section \<open>Counting inputs\<close>

definition quoted :: "string \<Rightarrow> string" where
  "quoted x = CHR 0x22 # x @ [CHR 0x22]"

definition input_body :: "string list \<Rightarrow> string" where
  "input_body xs = ''{'' @ INPUT_OPEN @ join '','' (map quoted xs) @ '']}''"

lemma split_first_char: "c \<notin> set a \<Longrightarrow> split_first [c] (a @ c # b) = Some (a, b)"
  by (induction a) auto

lemma join_quoted:
  assumes "\<forall>x\<in>set xs. CHR 0x22 \<notin> set x \<and> CHR '']'' \<notin> set x"
  shows "CHR '']'' \<notin> set (join '','' (map quoted xs))
    \<and> length (filter (\<lambda>c. c = CHR 0x22) (join '','' (map quoted xs))) = 2 * length xs
    \<and> (xs \<noteq> [] \<longrightarrow> hd (join '','' (map quoted xs)) = CHR 0x22 \<and> last (join '','' (map quoted xs)) = CHR 0x22
         \<and> join '','' (map quoted xs) \<noteq> [])"
  using assms
proof (induction xs)
  case (Cons x xs)
  have "filter (\<lambda>c. c = CHR 0x22) x = []" using Cons.prems by (auto simp: filter_empty_conv)
  with Cons show ?case by (cases xs) (auto simp: quoted_def)
qed simp

text \<open>the stand-in embeds exactly the inputs of a request whose texts contain no quote and no
  bracket; a bracket in a text hides that input and all after it.\<close>

theorem inputs_counted:
  assumes "\<forall>x\<in>set xs. CHR 0x22 \<notin> set x \<and> CHR '']'' \<notin> set x"
  shows "count_inputs (input_body xs) = length xs"
proof -
  let ?array = "join '','' (map quoted xs)"
  note j = join_quoted [OF assms]
  have "split_first INPUT_OPEN (input_body xs) = Some (''{'', ?array @ CHR '']'' # ''}'')"
    by (simp add: input_body_def INPUT_OPEN_def)
  moreover have "split_first '']'' (?array @ CHR '']'' # ''}'') = Some (?array, ''}'')"
    using j by (intro split_first_char) simp
  moreover have "trim ?array = [] \<longleftrightarrow> xs = []"
  proof (cases "xs = []")
    case False
    then have "trim ?array = ?array" using j by (intro trim_printing) (simp_all add: printing_def)
    with j False show ?thesis by simp
  qed (simp add: trim_def trim_start_def trim_end_def)
  ultimately show ?thesis using j by (auto simp: count_inputs_def)
qed

theorem inputs_counted_witness: "count_inputs (input_body [''a,b'', ''c'']) = 2"
  using inputs_counted [of "[''a,b'', ''c'']"] by simp

theorem bracket_miscounts: "count_inputs (input_body [''a'', ''b]'', ''c'']) = 1"
  by (simp add: input_body_def INPUT_OPEN_def quoted_def count_inputs_def trim_printing printing_def)

end
