(* ===== verification/Joined.thy ===== *)
theory Joined
  imports StandIn
begin

text \<open>
  The runtime's adapter and the stand-in engine joined end to end: what the streaming task of
  \<open>Generate\<close> writes to its connection is read and answered by the stand-in of \<open>StandIn\<close>, and the
  answer is read back; and the start of \<open>Backend\<close> is decided by the stand-in it starts.
\<close>

section \<open>The generation request on the wire\<close>

lemma length_show_nat: "n < 10 ^ Suc k \<Longrightarrow> length (show_nat n) \<le> Suc k"
proof (induction k arbitrary: n)
  case (Suc k)
  then have "n div 10 < 10 ^ Suc k" by (simp add: less_mult_imp_div_less mult.commute)
  with Suc.IH show ?case by (subst show_nat.simps) (auto intro: le_SucI)
qed (subst show_nat.simps, simp)

text \<open>The one law of JSON that the stand-in relies on: the flag of a streaming request is written
  without spaces.\<close>

definition writes_flag :: "wire \<Rightarrow> bool" where
  "writes_flag w \<longleftrightarrow> (\<forall>fields body. (''stream'', JBool True) \<in> set fields \<longrightarrow> wi_encode w fields = Inr body \<longrightarrow>
     str_contains (lossy body) ''\"stream\":true'')"

definition generation_job :: "backend_channel \<Rightarrow> u8 list \<Rightarrow> job" where
  "generation_job ch body = \<lparr>jb_host = channel_host ch, jb_secret = expose (ch_secret ch), jb_body = Inr body\<rparr>"

lemma plain_stream_request:
  assumes "reserved ch" and "length body \<le> MAX_BODY_BYTES"
  shows "plain_request (stream_request (generation_job ch body) body)"
proof -
  note r = reserved_facts [OF assms(1)]
  have "length (show_nat (length body)) \<le> 7"
    using assms(2) length_show_nat [of "length body" 6] by (simp add: MAX_BODY_BYTES_def)
  moreover have "header_value ''text/event-stream''" "header_value ''application/json''"
    by (simp_all add: header_value_def clean_line_def printing_def)
  ultimately show ?thesis
    using r assms(2) bearer_header [of "expose (ch_secret ch)"] word_header [of "''127.0.0.1''"]
    by (auto simp: plain_request_def stream_request_def post_request_def generation_job_def COMPLETIONS_PATH_def
        word_def printing_def plain_header_def ascii_lower_def head_lines_def write_head_def
        MAX_HEAD_BYTES_def length_CRLF)
qed

lemma stand_in_answers:
  assumes "reserved ch" and "length body \<le> MAX_BODY_BYTES" and "st_credential st = expose (ch_secret ch)"
    and "str_contains (lossy body) ''\"stream\":true''"
  shows "standin_connection (write_request (stream_request (generation_job ch body) body)) st
    = (bytes_of streamed_completion, mark_served st)"
proof -
  let ?q = "stream_request (generation_job ch body) body"
  have "header_map ?q ''authorization'' = Some (''Bearer '' @ expose (ch_secret ch))"
    by (simp add: header_map_def stream_request_def post_request_def generation_job_def ascii_lower_def)
  with read_write_request [OF plain_stream_request [OF assms(1,2)], of "[]"] assms(3,4) show ?thesis
    by (simp add: standin_connection_def standin_route_def bearer_def wants_stream_def strip_prefix_def
        stream_request_def post_request_def COMPLETIONS_PATH_def)
qed

section \<open>Waits that bring their value\<close>

definition prompt :: "'a waited \<Rightarrow> 'a \<Rightarrow> bool" where
  "prompt wt v \<longleftrightarrow> ended wt = Some v \<and> reader (others_did wt)"

lemma step_of_prompt:
  assumes "prompt wt (Inr v)" and "flowing g"
  shows "step_of wt g continue = continue v (others_did wt g)" and "flowing (others_did wt g)"
    and "carries [] g (others_did wt g)"
proof -
  show c: "carries [] g (others_did wt g)"
    using assms carries_reader by (simp add: prompt_def)
  from carries_flowing [OF this assms(2)] show f: "flowing (others_did wt g)" .
  with assms(1) show "step_of wt g continue = continue v (others_did wt g)"
    by (simp add: step_of_def await_def prompt_def flowing_def Let_def)
qed

lemma flowing_running: "flowing g \<Longrightarrow> flowing (g\<lparr>gn_handle := mark_running (gn_handle g)\<rparr>)"
  by (auto simp: flowing_def task_ok_def mark_running_def)

text \<open>A peer through which the stand-in answers: it connects, sends, and yields the answer's status
  and the pieces \<open>cs\<close> of its body.\<close>

definition answers_with :: "stream_peer \<Rightarrow> (http_request \<Rightarrow> u8 list) \<Rightarrow> u8 list list \<Rightarrow> http_request \<Rightarrow> bool" where
  "answers_with p out cs q \<longleftrightarrow> prompt (sp_connect p) (Inr ()) \<and> prompt (sp_handshake p) (Inr ())
     \<and> sp_build p q = Inr () \<and> prompt (sp_send p q) (Inr (response_status (text_of (out q))))
     \<and> list_all2 brings (sp_frames p) cs \<and> concat cs = drop (length stream_head) (out q)
     \<and> makes_room (sp_room p)"

lemma stream_status: "response_status streamed_completion = 200"
  by (simp add: response_status_def streamed_completion_def stream_head_def read_nat_def digit_value_def)

lemma execute_answered:
  assumes "answers_with p out cs (stream_request j body)" and "jb_body j = Inr body"
    and "out (stream_request j body) = bytes_of streamed_completion" and "flowing g"
  obtains g1 k where "execute w su p j g = read_response w su (sp_room p) (sp_frames p) g1"
    and "flowing g1" and "gn_queue g1 = drop k (gn_queue g)" and "h_id (gn_handle g1) = h_id (gn_handle g)"
proof -
  let ?q = "stream_request j body"
  have p: "prompt (sp_connect p) (Inr ())" "prompt (sp_handshake p) (Inr ())" "sp_build p ?q = Inr ()"
    "prompt (sp_send p ?q) (Inr 200)"
    using assms(1,3) stream_status by (simp_all add: answers_with_def)
  note s1 = step_of_prompt [OF p(1) assms(4)]
  note s2 = step_of_prompt [OF p(2) s1(2)]
  note s3 = step_of_prompt [OF p(4) s2(2)]
  let ?g3 = "others_did (sp_send p ?q) (others_did (sp_handshake p) (others_did (sp_connect p) g))"
  let ?g4 = "?g3\<lparr>gn_handle := mark_running (gn_handle ?g3)\<rparr>"
  have "carries ([] @ [] @ []) g ?g3" by (intro carries_trans [OF s1(3)] carries_trans [OF s2(3)] s3(3))
  then obtain k where "gn_queue ?g3 = drop k (gn_queue g)" "gn_handle ?g3 = gn_handle g"
    by (auto simp: carries_def)
  moreover have "execute w su p j g = read_response w su (sp_room p) (sp_frames p) ?g4"
    using s1(1) s2(1) s3(1) p(3) assms(2)
    by (simp add: execute_def send_job_def answered_def is_success_def Let_def)
  ultimately show ?thesis using flowing_running [OF s3(2)]
    by (intro that [of ?g4 k]) (simp_all add: mark_running_def)
qed

section \<open>A start decided by the stand-in\<close>

text \<open>The worker lives through its start: no look at it finds it exited or fails.\<close>

definition stays_up :: "os \<Rightarrow> bool" where
  "stays_up e \<longleftrightarrow> (\<forall>n. os_exits e n = None \<and> os_try_error e n = None)"

lemma stays_up_looks:
  assumes "stays_up e" and "wh_process h = Alive"
  shows "\<exists>h'. os_try_wait e h = (Inr None, h') \<and> wh_process h' = Alive \<and> wh_state h' = wh_state h
    \<and> wh_child h' = wh_child h"
  using assms by (simp add: os_try_wait_def os_look_def stays_up_def Let_def)

lemma loop_finds_ready:
  assumes "stays_up e" and "probe k = Inr (ProbeReady ready)"
  shows "wh_process h = Alive \<Longrightarrow> n \<le> k \<Longrightarrow> k < n + rounds \<Longrightarrow> \<forall>m. n \<le> m \<and> m < k \<longrightarrow> probe m = Inr NotYet \<Longrightarrow>
    \<exists>h'. ready_loop rounds e probe n h = (Some (Inr ready), h') \<and> wh_process h' = Alive
      \<and> wh_state h' = wh_state h \<and> wh_child h' = wh_child h"
proof (induction rounds arbitrary: n h)
  case (Suc rounds)
  obtain h1 where h1: "os_try_wait e h = (Inr None, h1)" "wh_process h1 = Alive" "wh_state h1 = wh_state h"
    "wh_child h1 = wh_child h" using stays_up_looks [OF assms(1) Suc.prems(1)] by blast
  show ?case
  proof (cases "n = k")
    case True
    with assms(2) h1 show ?thesis by simp
  next
    case False
    with Suc.prems have "probe n = Inr NotYet" by simp
    with False Suc.prems Suc.IH [OF h1(2), of "n + 1"] h1 show ?thesis by simp
  qed
qed simp

lemma ready_after:
  assumes "stays_up e" and "wh_process h = Alive" and "wh_child h" and "wh_state h = WStarting"
    and "k < rounds" and "probe k = Inr (ProbeReady ready)" and "\<forall>m<k. probe m = Inr NotYet"
  shows "\<exists>h'. wait_ready_with rounds elapsed e probe h = (Inr ready, h') \<and> wh_state h' = Ready
    \<and> wh_process h' = Alive \<and> wh_child h'"
proof -
  obtain h1 where "ready_loop rounds e probe 0 h = (Some (Inr ready), h1)" "wh_process h1 = Alive"
    "wh_state h1 = WStarting" "wh_child h1"
    using loop_finds_ready [where probe = probe and k = k and n = 0 and rounds = rounds, OF assms(1,6,2)]
      assms(3-5,7) by auto
  with assms(3) show ?thesis
    by (simp add: wait_ready_with_def Let_def set_worker_state_def transition_to_def)
qed

text \<open>
  The environment of a start in which the engine is the stand-in: it was started with the command
  line of this start, ended up listening, and answers the probes.
\<close>

definition runs_stand_in :: "start_env \<Rightarrow> standin_env \<Rightarrow> llama_spec \<Rightarrow> backend_channel \<Rightarrow> string \<Rightarrow> bool" where
  "runs_stand_in se e spec ch key \<longleftrightarrow> (\<exists>l said.
     standin_main e (command_line spec ch key) = Listening l said
     \<and> (\<forall>n. se_health se n = health_answer True (standin_peer (li_state l)) ch)
     \<and> se_props se = props_answer True (standin_peer (li_state l)) ch)"

lemma listening_stand_in:
  assumes "reserved ch" and "secret_file_create ke dir (ch_secret ch) ks = (Inr key, ks1)"
    and "\<And>path f. map_of (ks_files ks1) path = Some f \<Longrightarrow> sn_read e path = Inr (kf_contents f)"
    and "from_model (sn_debug e) (Some (sp_model_path spec)) = Inr b"
    and "standin_main e (command_line spec ch key) = Listening l said"
  shows "st_credential (li_state l) = expose (ch_secret ch) \<and> st_refuse (li_state l) = (b = RefuseCredential)"
  using assms(4,5) key_credential [OF assms(1-3)]
  by (auto simp: standin_main_def standin_args_launch listen_as_def Let_def
      split: if_splits option.splits sum.splits prod.splits)

lemma stand_in_starts:
  assumes "se_port se = Inr port" and "se_secret se = Inr bs" and "length bs = 32"
    and "reserve_channel (Inr port) (Inr bs) = Inr ch"
    and "secret_file_create (se_keys se) (secret_directory (se_temp se) (ho_euid (ke_host (se_keys se))))
      (ch_secret ch) ks = (Inr key, ks1)"
    and "se_spawn se = Inr ()" and "0 < se_rounds se" and "stays_up (se_os se)"
    and "runs_stand_in se e spec ch key"
    and "\<And>path f. map_of (ks_files ks1) path = Some f \<Longrightarrow> sn_read e path = Inr (kf_contents f)"
    and "from_model (sn_debug e) (Some (sp_model_path spec)) = Inr b"
    and "backend_start se exe i spec ks = (r, ho, ks')"
  shows "if b = RefuseCredential
    then \<exists>h left. ho = Some h \<and> r = Inl (BackendRejected (refused_detail 401 @ describe_leak (se_secs se) left))
      \<and> (gone h \<or> left \<noteq> None)
    else \<exists>rb. r = Inr rb \<and> rb_channel rb = ch \<and> rb_readiness rb = BackendReady
      \<and> wh_state (rb_handle rb) = Ready \<and> wh_child (rb_handle rb) \<and> wh_stop (rb_handle rb) = Terminate
      \<and> machine_ok (rb_handle rb)"
proof -
  have ch: "reserved ch" using assms(3,4) by (auto simp: reserved_def)
  from assms(9) obtain l0 said0 where l0: "standin_main e (command_line spec ch key) = Listening l0 said0"
    "\<And>n. se_health se n = health_answer True (standin_peer (li_state l0)) ch"
    "se_props se = props_answer True (standin_peer (li_state l0)) ch"
    unfolding runs_stand_in_def by blast
  note up = listening_stand_in [OF ch assms(5,10,11) l0(1)]
  have props: "probe_credential (se_props se) = Inr (if b = RefuseCredential then CredentialRefused 401 else Accepted)"
    and health: "backend_probe (se_status se) (se_health se 0) = Inr (ProbeReady (WorkerReady (show_startup_phase EndpointReady)))"
    using standin_probes [OF ch, of "li_state l0"] up l0(2,3) by (auto simp: backend_probe_def)
  let ?ws = "backend_worker_spec exe i spec ch key"
  obtain h where h: "spawn (Inr ()) ?ws = Inr h" "wh_process h = Alive" "wh_child h" "wh_state h = WStarting"
    "machine_ok h" "wh_stop h = Terminate"
    by (simp add: spawn_def transition_to_def machine_ok_def handle_ok_def backend_worker_spec_def)
  obtain h1 where w: "wait_ready_with (se_rounds se) (se_elapsed se) (se_os se)
      (\<lambda>n. backend_probe (se_status se) (se_health se n)) h
      = (Inr (WorkerReady (show_startup_phase EndpointReady)), h1)" and up1: "wh_state h1 = Ready" "wh_child h1"
    using ready_after [where probe = "\<lambda>n. backend_probe (se_status se) (se_health se n)" and k = 0,
        OF assms(8) h(2-4) assms(7) health] by auto
  have ok: "machine_ok h1" and stop1: "wh_stop h1 = Terminate"
    using wait_ready_with_facts [OF w h(5)] h(6) by (simp_all add: same_worker_def)
  obtain cr h2 where c: "confirm_credential se
      (case identify exe (se_identify se) of Inl _ \<Rightarrow> None | Inr b \<Rightarrow> Some b) ch h1 = (cr, h2)"
    by (cases "confirm_credential se
      (case identify exe (se_identify se) of Inl _ \<Rightarrow> None | Inr b \<Rightarrow> Some b) ch h1")
  have r: "r = cr" "ho = Some (case cr of Inl _ \<Rightarrow> worker_drop (se_os se) h2 | Inr _ \<Rightarrow> h2)"
    using assms(12) by (auto simp add: backend_start_def Let_def assms(1,2,4-6) h(1) w c)
  obtain sr sh where sd: "shutdown (se_os se) h1 = (sr, sh)" by (cases "shutdown (se_os se) h1")
  show ?thesis
  proof (cases "b = RefuseCredential")
    case True
    with c props sd have "cr = Inl (BackendRejected (refused_detail 401 @ describe_leak (se_secs se)
        (case sr of Inl err \<Rightarrow> Some err | Inr _ \<Rightarrow> None)))" "h2 = sh"
      by (simp_all add: confirm_credential_def)
    with True r shutdown_leak [OF sd ok] dropped_keeps_gone [of sh "se_os se"] show ?thesis by force
  next
    case False
    with c props have "cr = Inr \<lparr>rb_handle = h1, rb_channel = ch,
        rb_identity = (case identify exe (se_identify se) of Inl _ \<Rightarrow> None | Inr b \<Rightarrow> Some b), rb_readiness = BackendReady\<rparr>"
      by (auto simp: confirm_credential_def)
    with False r up1 ok stop1 show ?thesis by simp
  qed
qed

section \<open>An example\<close>

definition joined_body :: "u8 list" where
  "joined_body = bytes_of ''{\"prompt\":\"hello\",\"stream\":true}''"

definition joined_wire :: wire where
  "joined_wire = standin_wire\<lparr>wi_encode := \<lambda>_. Inr joined_body\<rparr>"

lemma joined_wire_ok: "writes_flag joined_wire" "reads_standin joined_wire"
proof -
  have "valid_utf8 joined_body" by (rule valid_utf8_ascii) (simp add: joined_body_def bytes_of_def)
  then have "lossy joined_body = ''{\"prompt\":\"hello\",\"stream\":true}''"
    using lossy_valid by (simp add: joined_body_def)
  then have "str_contains (lossy joined_body) ''\"stream\":true''"
    by (simp add: str_contains_def sublist_code)
  then show "writes_flag joined_wire" by (simp add: writes_flag_def joined_wire_def)
  show "reads_standin joined_wire"
    using standin_wire_reads by (simp add: reads_standin_def joined_wire_def)
qed

section \<open>Properties\<close>

text \<open>C6: A generation reaches the engine and comes back. The request that the streaming task sends for a
  caller, written as HTTP/1.1 to the stand-in that holds the channel's credential, is read, admitted and
  answered; and however the network cuts the answer, the caller's stream carries the stand-in's text in
  order and ends as completed with the reason and usage it reported.
\<close>

theorem generation_round_trip:
  assumes "reserved ch" and "st_credential st = expose (ch_secret ch)"
    and "start_generation w ch request (new_handle i) = (j, g)"
    and "jb_body j = Inr body" and "length body \<le> MAX_BODY_BYTES" and "writes_flag w" and "reads_standin w"
    and "answers_with p (\<lambda>q. fst (standin_connection (write_request q) st)) cs (stream_request j body)"
  shows "\<exists>g' k ts. execute w su p j g = Some g' \<and> concat ts = STAND_IN_TEXT
    \<and> gn_queue g' = drop k (Inr (Started i) # map (\<lambda>t. Inr (TextDelta i t)) ts)
    \<and> gn_pending g' = Some (Inr (CompletedEvent i standin_summary))
    \<and> h_state (gn_handle g') = Completed"
proof -
  let ?fields = "wire_fields (wire_of True request)"
  from assms(3,4) have body: "wi_encode w ?fields = Inr body"
    by (cases "wi_encode w ?fields") (auto simp: start_generation_def)
  with assms(3) have j: "j = generation_job ch body" and g: "g = generation_stream (new_handle i)"
    by (auto simp: start_generation_def generation_job_def)
  have "(''stream'', JBool True) \<in> set ?fields" by (simp add: wire_fields_def wire_of_def)
  with assms(6) body have "str_contains (lossy body) ''\"stream\":true''" by (simp add: writes_flag_def)
  from stand_in_answers [OF assms(1,5,2) this]
  have out: "fst (standin_connection (write_request (stream_request j body)) st) = bytes_of streamed_completion"
    by (simp add: j)
  have fresh: "flowing g" by (simp add: g flowing_new)
  have start: "gn_queue g = [Inr (Started i)]" "h_id (gn_handle g) = i"
    by (simp_all add: g generation_stream_def new_handle_def)
  from assms(8) out have cs: "concat cs = stream_body" "list_all2 brings (sp_frames p) cs" "makes_room (sp_room p)"
    by (simp_all add: answers_with_def stream_body_def)
  obtain g1 k1 where g1: "execute w su p j g = read_response w su (sp_room p) (sp_frames p) g1"
    and f1: "flowing g1" "gn_queue g1 = drop k1 [Inr (Started i)]" "h_id (gn_handle g1) = i"
    using execute_answered [OF assms(8) assms(4) out fresh] unfolding start by metis
  from standin_stream_read [OF assms(7) cs(1,2) f1(1) cs(3)] obtain g' k ts where
    "read_response w su (sp_room p) (sp_frames p) g1 = Some g'" "concat ts = STAND_IN_TEXT"
    and q: "gn_queue g' = drop k (drop k1 [Inr (Started i)] @ map (\<lambda>t. Inr (TextDelta i t)) ts)"
    and "gn_pending g' = Some (Inr (CompletedEvent i standin_summary))" "h_state (gn_handle g') = Completed"
    unfolding f1(2,3) by blast
  moreover obtain k' where "gn_queue g' = drop k' (Inr (Started i) # map (\<lambda>t. Inr (TextDelta i t)) ts)"
    using q drop_drop_append [of k k1 "[Inr (Started i)]"] by auto
  ultimately show ?thesis using g1 by metis
qed

theorem generation_round_trip_witness:
  "\<exists>g p. execute joined_wire (\<lambda>_. []) p (generation_job sample_channel joined_body)
      (generation_stream (new_handle (RequestId 7))) = Some g \<and> h_state (gn_handle g) = Completed"
proof -
  let ?st = "standin_initial sample_channel Serve" and ?j = "generation_job sample_channel joined_body"
  let ?out = "\<lambda>q. fst (standin_connection (write_request q) ?st)"
  let ?q = "stream_request ?j joined_body"
  let ?cs = "[drop (length stream_head) (?out ?q)]"
  let ?p = "\<lparr>sp_connect = still (Some (Inr ())), sp_handshake = still (Some (Inr ())), sp_build = (\<lambda>_. Inr ()),
    sp_send = (\<lambda>q. still (Some (Inr (response_status (text_of (?out q)))))), sp_collect = still (Some (Inr [])),
    sp_frames = map (\<lambda>c. still (Some (Some (Inr (Data c))))) ?cs, sp_room = sample_room\<rparr>"
  have "answers_with ?p ?out ?cs ?q"
    by (simp add: answers_with_def prompt_def still_def reader_id brings_def makes_room_sample)
  moreover have "start_generation joined_wire sample_channel (continuation ''hello'') (new_handle (RequestId 7))
      = (?j, generation_stream (new_handle (RequestId 7)))"
    by (simp add: start_generation_def generation_job_def joined_wire_def)
  moreover have "jb_body ?j = Inr joined_body" by (simp add: generation_job_def)
  moreover have "length joined_body \<le> MAX_BODY_BYTES" by (simp add: joined_body_def MAX_BODY_BYTES_def)
  ultimately show ?thesis
    using generation_round_trip [OF sample_channel_ok _ _ _ _ joined_wire_ok, of ?st] by (fastforce simp: standin_initial_def)
qed

text \<open>C20: What the stand-in is told decides what the runtime makes of it. Started with the runtime's own
  command line and credential file it becomes a ready backend on the reserved channel; if its
  container's name asks it to refuse credentials, the start fails, says that the credential was refused
  with status 401, and shuts the worker down or says that it may still be running.
\<close>

theorem start_of_stand_in:
  assumes "se_port se = Inr port" and "se_secret se = Inr bs" and "length bs = 32"
    and "reserve_channel (Inr port) (Inr bs) = Inr ch"
    and "secret_file_create (se_keys se) (secret_directory (se_temp se) (ho_euid (ke_host (se_keys se))))
      (ch_secret ch) ks = (Inr key, ks1)"
    and "se_spawn se = Inr ()" and "0 < se_rounds se" and "stays_up (se_os se)"
    and "runs_stand_in se e spec ch key"
    and "\<And>path f. map_of (ks_files ks1) path = Some f \<Longrightarrow> sn_read e path = Inr (kf_contents f)"
    and "from_model (sn_debug e) (Some (sp_model_path spec)) = Inr b"
    and "backend_start se exe i spec ks = (r, ho, ks')"
  shows "if b = RefuseCredential
    then \<exists>h left. ho = Some h \<and> r = Inl (BackendRejected (refused_detail 401 @ describe_leak (se_secs se) left))
      \<and> (gone h \<or> left \<noteq> None)
    else \<exists>rb. r = Inr rb \<and> rb_channel rb = ch \<and> rb_readiness rb = BackendReady"
  using stand_in_starts [OF assms] by (auto split: if_splits)

theorem start_of_stand_in_witness:
  "\<exists>se e d. fst (backend_start se ''/x/llama'' (WorkerId 1)
       (sample_llama_spec\<lparr>sp_model_path := ''/m/x__refuse-credential.gguf''\<rparr>) sample_store)
     = Inl (BackendRejected d)"
proof -
  let ?spec = "sample_llama_spec\<lparr>sp_model_path := ''/m/x__refuse-credential.gguf''\<rparr>"
  let ?ch = sample_channel
  let ?dir = "secret_directory (se_temp sample_start) (ho_euid (ke_host (se_keys sample_start)))"
  obtain key ks1 where k: "secret_file_create (se_keys sample_start) ?dir (ch_secret ?ch) sample_store
      = (Inr key, ks1)" using key_sample by blast
  obtain d where "?dir = CHR ''/'' # d" by (cases ?dir) (auto simp: secret_directory_def path_join_def sample_start_def split: if_splits)
  with k have v: "''--version'' \<notin> set (command_line ?spec ?ch key)"
    using key_not_version [of d "ch_secret ?ch" key ks1] by simp
  let ?e = "\<lparr>sn_is_file = (\<lambda>_. True), sn_read = (\<lambda>path. case map_of (ks_files ks1) path of
           Some f \<Rightarrow> Inr (kf_contents f) | None \<Rightarrow> Inl (io_of KOther ''no such file'')),
         sn_bind = (\<lambda>_ _. Inr ()), sn_debug = id\<rparr>"
  have b: "from_model (sn_debug ?e) (Some (sp_model_path ?spec)) = Inr RefuseCredential"
    by (simp add: from_model_def file_stem_def file_name_def BEHAVIOUR_MARKER_def named_behaviour_def)
  obtain l said where l: "standin_main ?e (command_line ?spec ?ch key) = Listening l said"
    using stand_in_listens [OF sample_channel_ok k, of ?e ?spec RefuseCredential] b v by auto
  let ?se = "sample_start\<lparr>
    se_health := \<lambda>_. health_answer True (standin_peer (li_state l)) ?ch,
    se_props := props_answer True (standin_peer (li_state l)) ?ch\<rparr>"
  have run: "runs_stand_in ?se ?e ?spec ?ch key" using l by (auto simp: runs_stand_in_def)
  have res: "reserve_channel (Inr 4000) (Inr (replicate 32 7)) = Inr ?ch"
    by (simp add: reserve_channel_def generate_secret_def generate_hex_def sample_channel_def)
  obtain r ho ks' where s: "backend_start ?se ''/x/llama'' (WorkerId 1) ?spec sample_store = (r, ho, ks')"
    by (cases "backend_start ?se ''/x/llama'' (WorkerId 1) ?spec sample_store")
  have "\<exists>h left. ho = Some h \<and> r = Inl (BackendRejected (refused_detail 401 @ describe_leak (se_secs ?se) left))
      \<and> (gone h \<or> left \<noteq> None)"
    using start_of_stand_in [OF _ _ _ res _ _ _ _ run _ b s] k
    by (simp add: sample_start_def stays_up_def obedient_def)
  with s show ?thesis by (metis fst_conv)
qed

end
