(* ===== verification/Owners.thy ===== *)
theory Owners
  imports Dummy Joined
begin

text \<open>
  The owner processes (\<open>mehoy-core/examples/orphan_parent.rs\<close> and
  \<open>mehoy-backend-llama/examples/llama_orphan_parent.rs\<close>): programs that start one worker with fixed
  settings, report its process id and hold it until they are killed. The first is joined to the dummy
  worker it starts.
\<close>

section \<open>Owners\<close>

text \<open>An owner has exited with a code and the line it printed, or it holds its worker and has reported it.\<close>

datatype owner_run = OwnerExit nat string | OwnerHolds string worker_handle

text \<open>\<open>pid\<close>: the process id while the child is there and was not seen to have exited.\<close>

definition worker_pid :: "nat \<Rightarrow> worker_handle \<Rightarrow> nat option" where
  "worker_pid pid h = (if wh_child h \<and> wh_process h = Alive then Some pid else None)"

definition report_pid :: "nat \<Rightarrow> string" where
  "report_pid pid = ''WORKER_PID '' @ show_nat pid @ NL"

section \<open>The owner of a dummy worker\<close>

text \<open>The program beside the owner's own.\<close>

definition dummy_worker_path :: "string \<Rightarrow> string \<Rightarrow> string" where
  "dummy_worker_path directory exe_suffix = path_join directory (''dummy_worker'' @ exe_suffix)"

definition orphan_spec :: "string \<Rightarrow> string \<Rightarrow> worker_spec" where
  "orphan_spec directory exe_suffix = \<lparr>
     ws_id = fst (allocate_worker new_allocator),
     ws_program = dummy_worker_path directory exe_suffix,
     ws_args = [''--ignore-shutdown''],
     ws_deadlines = \<lparr>startup = seconds 20, shutdown_budget = seconds 2, health = seconds 2\<rparr>,
     ws_capture_lines = DEFAULT_CAPTURE_LINES, ws_stop = ShutdownLine\<rparr>"

definition orphan_parent ::
    "(duration \<Rightarrow> string) \<Rightarrow> string \<Rightarrow> string \<Rightarrow> string + unit \<Rightarrow> nat \<Rightarrow> duration \<Rightarrow> os \<Rightarrow> (nat \<Rightarrow> string list) \<Rightarrow> nat \<Rightarrow>
     owner_run" where
  "orphan_parent secs directory exe_suffix spawned rounds elapsed e seen pid =
     (case spawn spawned (orphan_spec directory exe_suffix) of
        Inl err \<Rightarrow> OwnerExit 1 (''orphan_parent: cannot start worker: '' @ show_worker_error secs err)
      | Inr h \<Rightarrow> (case wait_ready rounds elapsed e seen h of
          (Inl err, _) \<Rightarrow> OwnerExit 1 (''orphan_parent: worker never became ready: '' @ show_worker_error secs err)
        | (Inr _, h) \<Rightarrow> (case worker_pid pid h of
            None \<Rightarrow> OwnerExit 1 ''orphan_parent: worker has no process id''
          | Some p \<Rightarrow> OwnerHolds (report_pid p) h)))"

section \<open>The owner of an engine\<close>

definition llama_owner_args :: "backend_channel \<Rightarrow> string \<Rightarrow> string list" where
  "llama_owner_args ch key = [''--host'', channel_host ch, ''--port'', show_nat (unat (ch_port ch)),
     ''--api-key-file'', key, ''--no-webui'']"

definition llama_owner_spec :: "string \<Rightarrow> backend_channel \<Rightarrow> string \<Rightarrow> worker_spec" where
  "llama_owner_spec executable ch key = \<lparr>
     ws_id = fst (allocate_worker new_allocator), ws_program = executable,
     ws_args = llama_owner_args ch key,
     ws_deadlines = \<lparr>startup = seconds 30, shutdown_budget = seconds 5, health = seconds 5\<rparr>,
     ws_capture_lines = DEFAULT_CAPTURE_LINES, ws_stop = Terminate\<rparr>"

text \<open>The key store is part of the result: an owner that exits runs no destructors.\<close>

definition llama_orphan_parent ::
    "(duration \<Rightarrow> string) \<Rightarrow> string option \<Rightarrow> io_error + u16 \<Rightarrow> string + u8 list \<Rightarrow> string \<Rightarrow> key_env \<Rightarrow>
     string + unit \<Rightarrow> nat \<Rightarrow> key_store \<Rightarrow> owner_run \<times> key_store" where
  "llama_orphan_parent secs executable bound drawn temp ke spawned pid ks = (case executable of
     None \<Rightarrow> (OwnerExit 2 (''llama_orphan_parent: '' @ EXECUTABLE_ENV @ '' is not set''), ks)
   | Some exe \<Rightarrow> (case reserve_channel bound drawn of
       Inl err \<Rightarrow> (OwnerExit 1 (''llama_orphan_parent: cannot reserve a channel: '' @ io_message err), ks)
     | Inr ch \<Rightarrow> (case secret_file_create ke (path_join temp ''mehoy-backend'') (ch_secret ch) ks of
         (Inl err, ks) \<Rightarrow>
           (OwnerExit 1 (''llama_orphan_parent: cannot write the credential file: '' @ io_message err), ks)
       | (Inr key, ks) \<Rightarrow> (case spawn spawned (llama_owner_spec exe ch key) of
           Inl err \<Rightarrow> (OwnerExit 1 (''llama_orphan_parent: cannot start backend: '' @ show_worker_error secs err), ks)
         | Inr h \<Rightarrow> (case worker_pid pid h of
             None \<Rightarrow> (OwnerExit 1 ''llama_orphan_parent: backend has no process id'', ks)
           | Some p \<Rightarrow> (OwnerHolds (report_pid p) h, ks))))))"

section \<open>Properties\<close>

lemma spawned_up:
  "\<exists>h. spawn (Inr ()) spec = Inr h \<and> wh_process h = Alive \<and> wh_child h \<and> wh_state h = WStarting"
  by (simp add: spawn_def transition_to_def)

lemma ignoring_args:
  "dummy_main debug [''--ignore-shutdown''] pid waited closed inp = DummyLives (announcement pid) []"
  by (simp add: dummy_main_def dummy_args.simps(2) dummy_argument_def dummy_default_def run_config_def announced_def)

text \<open>
  The owner ends up holding a worker that nothing but its own death will end: with a worker that stays
  up, the owner reports its process id once a poll sees what the dummy worker writes, and that worker
  exits neither on a stop request nor when its input closes.
\<close>

theorem owner_holds_worker:
  assumes "stays_up e" and "k < rounds" and "\<forall>m<k. seen m = []"
    and "seen k = all_lines (bytes_of (dummy_stdout
      (dummy_main debug (ws_args (orphan_spec directory exe_suffix)) pid waited closed inp)))"
  shows "(\<exists>h. orphan_parent secs directory exe_suffix (Inr ()) rounds elapsed e seen pid = OwnerHolds (report_pid pid) h
      \<and> wh_state h = Ready)
    \<and> (\<forall>waited closed inp. dummy_exits
        (dummy_main debug (ws_args (orphan_spec directory exe_suffix)) pid waited closed inp) = None)"
proof -
  obtain h where h: "spawn (Inr ()) (orphan_spec directory exe_suffix) = Inr h"
    "wh_process h = Alive" "wh_child h" "wh_state h = WStarting" using spawned_up by blast
  have "seen k = [pid_line pid]"
    using assms(4) all_lines_written [OF pid_line_text, of pid "[]"] announcement_bytes [of pid "[]"]
    by (simp add: orphan_spec_def ignoring_args bytes_of_def [of "[]"])
  then have "marker_probe (seen k) = Inr (ProbeReady (WorkerReady (pid_line pid)))"
    using pid_line_probed [of pid "[]"] by simp
  moreover have "\<forall>m<k. marker_probe (seen m) = Inr NotYet" using assms(3) by simp
  ultimately obtain h' where "wait_ready rounds elapsed e seen h = (Inr (WorkerReady (pid_line pid)), h')"
    "wh_state h' = Ready" "wh_process h' = Alive" "wh_child h'"
    using ready_after [of e h k rounds "\<lambda>n. marker_probe (seen n)" _ elapsed] assms(1,2) h(2-4)
    unfolding wait_ready_def by blast
  with h(1) show ?thesis by (simp add: orphan_parent_def worker_pid_def orphan_spec_def ignoring_args)
qed

theorem owner_holds_worker_witness:
  "\<exists>h. orphan_parent (\<lambda>_. []) ''/x'' [] (Inr ()) 3 0 obedient
      (\<lambda>n. if n = 1 then all_lines (bytes_of (announcement 9)) else []) 9 = OwnerHolds (report_pid 9) h"
proof -
  have "stays_up obedient" by (simp add: stays_up_def obedient_def)
  from owner_holds_worker [OF this, of 1 3 "\<lambda>n. if n = 1 then all_lines (bytes_of (announcement 9)) else []"
      id "''/x''" "[]" 9 0 False "[]" "\<lambda>_. []" 0]
  show ?thesis by (auto simp: orphan_spec_def ignoring_args)
qed

text \<open>
  An owner of an engine that cannot start it leaves the credential behind: it exits without running
  destructors, so the file with the secret stays.
\<close>

theorem failed_owner_leaves_key:
  assumes "reserve_channel bound drawn = Inr ch"
    and "secret_file_create ke (path_join temp ''mehoy-backend'') (ch_secret ch) ks = (Inr key, ks1)"
    and "llama_orphan_parent secs (Some exe) bound drawn temp ke (Inl err) pid ks = (r, ks')"
  shows "(\<exists>message. r = OwnerExit 1 message)
    \<and> map_of (ks_files ks') key = Some \<lparr>kf_mode = 384, kf_contents = expose (ch_secret ch)\<rparr>"
  using assms secret_file_create_cases [OF assms(2)]
  by (auto simp: llama_orphan_parent_def spawn_def transition_to_def)

theorem failed_owner_leaves_key_witness:
  "\<exists>r ks' key. llama_orphan_parent (\<lambda>_. []) (Some ''/x'') (se_port sample_start) (se_secret sample_start) ''/tmp''
       (se_keys sample_start) (Inl ''refused'') 9 sample_store = (r, ks')
     \<and> map_of (ks_files ks') key = Some \<lparr>kf_mode = 384, kf_contents = expose (ch_secret sample_channel)\<rparr>"
proof -
  obtain key ks1 where k: "secret_file_create (se_keys sample_start) (path_join ''/tmp'' ''mehoy-backend'')
      (ch_secret sample_channel) sample_store = (Inr key, ks1)" using key_sample by blast
  obtain r ks' where r: "llama_orphan_parent (\<lambda>_. []) (Some ''/x'') (se_port sample_start) (se_secret sample_start)
      ''/tmp'' (se_keys sample_start) (Inl ''refused'') 9 sample_store = (r, ks')"
    by (cases "llama_orphan_parent (\<lambda>_. []) (Some ''/x'') (se_port sample_start) (se_secret sample_start)
      ''/tmp'' (se_keys sample_start) (Inl ''refused'') 9 sample_store")
  from failed_owner_leaves_key [OF reserve_sample k r] r show ?thesis by blast
qed

end
