(* ===== verification/Serving.thy ===== *)
theory Serving
  imports Lifecycle
begin

text \<open>
  A loaded model together with the streams it has opened (\<open>mehoy-runtime/src/loader.rs\<close> over
  \<open>mehoy-core/src/inference.rs\<close>). A stream and the model share the request's handle: what the streaming
  task, the reader, a canceller and an unload do to it is one handle. \<open>Stream\<close> follows one stream
  alone and \<open>Lifecycle\<close> the model alone; here every interleaving of both is a run of \<open>serve_step\<close>.
\<close>

section \<open>A model and its streams\<close>

record serving =
  sv_model :: loaded_model
  sv_streams :: "request_id \<Rightarrow> (generation \<times> stream_item list) option"

text \<open>The handle of a stream is the one in the model's store.\<close>

definition shared :: "serving \<Rightarrow> request_id \<Rightarrow> generation \<Rightarrow> generation" where
  "shared s i g = g\<lparr>gn_handle := lm_handles (sv_model s) i\<rparr>"

definition with_model :: "serving \<Rightarrow> loaded_model \<Rightarrow> serving" where
  "with_model s m = s\<lparr>sv_model := m\<rparr>"

definition put_handle :: "request_id \<Rightarrow> request_handle \<Rightarrow> loaded_model \<Rightarrow> loaded_model" where
  "put_handle i h m = m\<lparr>lm_handles := (lm_handles m)(i := h)\<rparr>"

text \<open>
  Whatever clients, streaming tasks, readers, cancellers and an unload do, in any order. Only the two
  halves of a stream record its outcome; everybody else may ask it to stop. The identifier of a new
  request is not one of an open stream: the counter would have to wrap around for that.
\<close>

inductive serve_step :: "serving \<Rightarrow> serving \<Rightarrow> bool" where
  open_stream: "generate_stream_within show_f32 request (sv_model s) = Inr (i, g, m) \<Longrightarrow> sv_streams s i = None \<Longrightarrow>
    serve_step s (s\<lparr>sv_model := m, sv_streams := (sv_streams s)(i \<mapsto> (g, []))\<rparr>)"
| stream: "sv_streams s i = Some (g, seen) \<Longrightarrow> gen_step (shared s i g, seen) (g', seen') \<Longrightarrow>
    serve_step s (s\<lparr>sv_model := put_handle i (gn_handle g') (sv_model s),
                    sv_streams := (sv_streams s)(i \<mapsto> (g', seen'))\<rparr>)"
| request: "admit (sv_model s) = Inr (i, m) \<Longrightarrow> sv_streams s i = None \<Longrightarrow> serve_step s (with_model s m)"
| settle: "legal_op op \<Longrightarrow> sv_streams s i = None \<Longrightarrow>
    serve_step s (with_model s (snd (on_handle i (handle_step op) (sv_model s))))"
| ask: "\<forall>st. op \<noteq> Finish st \<Longrightarrow>
    serve_step s (with_model s (snd (on_handle i (handle_step op) (sv_model s))))"
| retain: "serve_step s (with_model s (retain_live (sv_model s)))"
| demonstrate: "serve_step s (with_model s (demonstrate now c (sv_model s)))"
| unload_begin: "unload_begin (sv_model s) = (r, m) \<Longrightarrow> serve_step s (with_model s m)"
| finish_unload: "lm_phase (sv_model s) = Unloading \<Longrightarrow> phase \<in> {Unloaded, UnloadFailed} \<Longrightarrow>
    serve_step s (with_model s (finish_unload phase (sv_model s)))"

definition serving_start :: "loaded_model \<Rightarrow> serving" where
  "serving_start m = \<lparr>sv_model = m, sv_streams = \<lambda>_. None\<rparr>"

section \<open>Lemmas\<close>

lemma with_model_fields [simp]:
  "sv_model (with_model s m) = m" "sv_streams (with_model s m) = sv_streams s"
  by (simp_all add: with_model_def)

lemma put_handle_fields [simp]:
  "lm_phase (put_handle i h m) = lm_phase m" "lm_active (put_handle i h m) = lm_active m"
  "lm_worker (put_handle i h m) = lm_worker m" "lm_handles (put_handle i h m) = (lm_handles m)(i := h)"
  by (simp_all add: put_handle_def)

lemma generate_stream_within_Inr:
  assumes "generate_stream_within show_f32 request m = Inr (i, g, m')"
  shows "admit m = Inr (i, m')" and "g = generation_stream (new_handle i)"
proof -
  obtain j m1 where a: "admit m = Inr (j, m1)" and "(j, generation_stream (lm_handles m1 j), m1) = (i, g, m')"
    using assms unfolding generate_stream_within_def
    by (cases "checked_parameters show_f32 request"; cases "admit m") auto
  then show "admit m = Inr (i, m')" "g = generation_stream (new_handle i)" using admit_Inr [OF a] by auto
qed

text \<open>Every step of the whole is, for one stream, nothing or a step of that stream.\<close>

definition stream_ok :: "serving \<Rightarrow> request_id \<Rightarrow> bool" where
  "stream_ok s i \<longleftrightarrow> (case sv_streams s i of None \<Rightarrow> True
     | Some (g, seen) \<Rightarrow> gen_reachable i (shared s i g, seen))"

lemma stream_ok_same:
  "stream_ok s i \<Longrightarrow> sv_streams t i = sv_streams s i \<Longrightarrow> lm_handles (sv_model t) i = lm_handles (sv_model s) i \<Longrightarrow>
    stream_ok t i"
proof -
  assume ok: "stream_ok s i" and same: "sv_streams t i = sv_streams s i"
    and "lm_handles (sv_model t) i = lm_handles (sv_model s) i"
  then have "shared t i = shared s i" by (simp add: shared_def fun_eq_iff)
  with ok same show "stream_ok t i" by (auto simp: stream_ok_def split: option.splits)
qed

lemma ask_is_step:
  assumes "\<forall>st. op \<noteq> Finish st"
  shows "gen_step (g, seen) (g\<lparr>gn_handle := snd (handle_step op (gn_handle g))\<rparr>, seen)"
  using assms gen_step.running gen_step.request_cancel gen_step.token_cancel by (cases op) auto

lemma stream_ok_asked:
  assumes "stream_ok s i" and "\<forall>st. op \<noteq> Finish st"
  shows "stream_ok (with_model s (snd (on_handle i (handle_step op) (sv_model s)))) i"
proof (cases "sv_streams s i")
  case None
  then show ?thesis by (simp add: stream_ok_def)
next
  case (Some p)
  obtain g seen where p: "p = (g, seen)" by (cases p)
  with Some assms(1) have "gen_reachable i (shared s i g, seen)" by (simp add: stream_ok_def)
  from gen_reachable.step [OF this ask_is_step [OF assms(2)]] Some p show ?thesis
    by (simp add: stream_ok_def shared_def)
qed

lemma stream_ok_step:
  assumes "serve_step s t" and "stream_ok s i"
  shows "stream_ok t i"
  using assms
proof cases
  case (open_stream show_f32 request j g m)
  note a = generate_stream_within_Inr [OF open_stream(2)]
  show ?thesis
  proof (cases "j = i")
    case True
    with a admit_Inr [OF a(1)] open_stream(1) show ?thesis
      using gen_reachable.start [of i] by (simp add: stream_ok_def shared_def generation_stream_def)
  next
    case False
    with open_stream(1) admit_Inr [OF a(1)] show ?thesis
      by (intro stream_ok_same [OF assms(2)]) auto
  qed
next
  case (stream j g seen g' seen')
  show ?thesis
  proof (cases "j = i")
    case True
    with stream assms(2) have "gen_reachable i (shared s i g, seen)" by (simp add: stream_ok_def)
    from gen_reachable.step [OF this] stream True show ?thesis by (simp add: stream_ok_def shared_def)
  next
    case False
    with stream(1) show ?thesis by (intro stream_ok_same [OF assms(2)]) auto
  qed
next
  case (request j m)
  show ?thesis
  proof (cases "j = i")
    case True
    with request show ?thesis by (simp add: stream_ok_def)
  next
    case False
    with request(1) admit_Inr [OF request(2)] show ?thesis by (intro stream_ok_same [OF assms(2)]) auto
  qed
next
  case (settle op j)
  then show ?thesis using assms(2) stream_ok_same [OF assms(2)]
    by (cases "j = i") (auto simp: stream_ok_def)
next
  case (ask op j)
  then show ?thesis using stream_ok_asked [OF assms(2)] stream_ok_same [OF assms(2)] by (cases "j = i") auto
next
  case (unload_begin r m)
  then show ?thesis
    by (intro stream_ok_same [OF assms(2)]) (auto simp: unload_begin_def split: lifecycle_phase.splits)
qed (auto intro!: stream_ok_same [OF assms(2)] simp: demonstrate_def finish_unload_def)

interpretation served: preserved serve_step "\<lambda>s. stream_ok s i" for i
  by unfold_locales (rule stream_ok_step)

lemma serving_streams_reachable:
  assumes "serve_step\<^sup>*\<^sup>* (serving_start m) s" and "sv_streams s i = Some (g, seen)"
  shows "gen_reachable i (shared s i g, seen)"
proof -
  have "stream_ok (serving_start m) i" by (simp add: stream_ok_def serving_start_def)
  with served.run.runs [OF assms(1)] have "stream_ok s i" by blast
  with assms(2) show ?thesis by (simp add: stream_ok_def)
qed

text \<open>A handle that has ended stays ended, whoever steps.\<close>

lemma gen_step_ended:
  assumes "gen_step (g, seen) (g', seen')" and "is_terminal (h_state (gn_handle g))"
  shows "is_terminal (h_state (gn_handle g'))"
  using assms
proof cases
  case (delta t b)
  from delta(4) assms(2) show ?thesis by (cases rule: sink_delta_cases) auto
next
  case flush
  from flush(3) obtain x b g1 where "channel_send x g = Some (b, g1)" "g' = sink_drop g1"
    by (rule sink_flush_cases)
  with assms(2) show ?thesis
    by (auto simp: channel_send_def sink_drop_def finish_state split: if_splits)
next
  case (next_item item)
  from next_item(3) assms(2) show ?thesis by (cases rule: stream_next_cases) (auto simp: finish_state)
next
  case next_none
  with stream_next_None assms(2) show ?thesis by blast
qed (auto simp: sink_complete_def sink_cancel_def sink_fail_def sink_drop_def stream_drop_def finish_state)

lemma gen_step_token:
  assumes "gen_step (g, seen) (g', seen')" and "h_token (gn_handle g) = Some c"
  shows "h_token (gn_handle g') = Some c"
proof -
  have keeps: "h_token (snd (handle_step op h)) = Some c" if "h_token h = Some c" for op h
    using handle_step_token [of op h "fst (handle_step op h)" "snd (handle_step op h)"] that by simp
  have finish: "h_token (snd (finish st h)) = h_token h" for st h by (simp add: finish_def)
  from assms(1) show ?thesis
  proof cases
    case (delta t b)
    from delta(4) assms(2) show ?thesis by (cases rule: sink_delta_cases) auto
  next
    case flush
    from flush(3) obtain x b g1 where "channel_send x g = Some (b, g1)" "g' = sink_drop g1"
      by (rule sink_flush_cases)
    with assms(2) show ?thesis by (auto simp: channel_send_def sink_drop_def finish split: if_splits)
  next
    case (next_item item)
    from next_item(3) assms(2) show ?thesis by (cases rule: stream_next_cases) (auto simp: finish)
  next
    case next_none
    with stream_next_None assms(2) show ?thesis by blast
  next
    case (cancel cause)
    with keeps [OF assms(2), of "RequestCancel cause"] assms(2) show ?thesis
      by (simp add: sink_cancel_def sink_drop_def finish)
  qed (use keeps [OF assms(2), of MarkRunning] keeps [OF assms(2), of "RequestCancel _"]
      keeps [OF assms(2), of "TokenCancel _"] assms(2) in
      \<open>auto simp: sink_complete_def sink_fail_def sink_drop_def stream_drop_def finish\<close>)
qed

text \<open>While the model serves, every live stream is among its active requests, where an unload finds it.\<close>

definition found :: "serving \<Rightarrow> bool" where
  "found s \<longleftrightarrow> (lm_phase (sv_model s) = Serving \<longrightarrow>
     (\<forall>i. sv_streams s i \<noteq> None \<longrightarrow> live (sv_model s) i \<longrightarrow> i \<in> set (lm_active (sv_model s))))"

lemma step_keeps_ended:
  "\<not> live m j \<Longrightarrow> legal_op op \<Longrightarrow> \<not> live (snd (on_handle i (handle_step op) m)) j"
  using on_handle_progress closed_progress_dead by blast

lemma ask_legal: "\<forall>st. op \<noteq> Finish st \<Longrightarrow> legal_op op"
  by (cases op) auto

lemma found_step:
  assumes "serve_step s t" and "found s"
  shows "found t"
  using assms(1)
proof cases
  case (open_stream show_f32 request j g m)
  note a = generate_stream_within_Inr [OF open_stream(2)]
  from assms(2) admit_Inr [OF a(1)] open_stream show ?thesis
    by (auto simp: found_def live_def)
next
  case (stream j g seen g' seen')
  have ended: "\<not> live (sv_model s) j \<Longrightarrow> is_terminal (h_state (gn_handle g'))"
    using gen_step_ended [OF stream(3)] by (simp add: shared_def live_def handle_is_terminal_def)
  have "i \<in> set (lm_active (sv_model s))"
    if "lm_phase (sv_model s) = Serving" "live (put_handle j (gn_handle g') (sv_model s)) i"
      "i = j \<or> sv_streams s i \<noteq> None" for i
    using that assms(2) stream(2) ended
    by (cases "i = j") (auto simp: found_def live_def handle_is_terminal_def)
  then show ?thesis unfolding stream(1) found_def by (auto simp: fun_upd_def)
next
  case (request j m)
  with assms(2) admit_Inr [OF request(2)] show ?thesis by (auto simp: found_def live_def)
next
  case (settle op j)
  with assms(2) step_keeps_ended [OF _ settle(2)] show ?thesis unfolding found_def by fastforce
next
  case (ask op j)
  with assms(2) step_keeps_ended [OF _ ask_legal [OF ask(2)]] show ?thesis unfolding found_def by fastforce
next
  case retain
  with assms(2) show ?thesis by (simp add: found_def)
next
  case (demonstrate now c)
  with assms(2) show ?thesis by (simp add: found_def demonstrate_def live_def)
next
  case (unload_begin r m)
  with assms(2) show ?thesis
    by (auto simp: found_def unload_begin_def split: lifecycle_phase.splits)
next
  case (finish_unload phase)
  then show ?thesis by (auto simp: found_def finish_unload_def)
qed

interpretation listed: preserved serve_step found
  by unfold_locales (rule found_step)

text \<open>Once the model stops serving, no stream is opened, and a stream that was told to stop stays told.\<close>

definition closing :: "serving \<Rightarrow> serving \<Rightarrow> bool" where
  "closing s t \<longleftrightarrow> (lm_phase (sv_model s) \<noteq> Serving \<longrightarrow> lm_phase (sv_model t) \<noteq> Serving
     \<and> (\<forall>i. sv_streams s i = None \<longrightarrow> sv_streams t i = None)
     \<and> (\<forall>i. stopping_or_dead (sv_model s) i \<longrightarrow> stopping_or_dead (sv_model t) i))"

lemma handle_op_closing:
  assumes "legal_op op"
  shows "closing s (with_model s (snd (on_handle i (handle_step op) (sv_model s))))"
  using closed_progress_stopping [OF on_handle_progress [OF assms]] by (simp add: closing_def)

lemma closing_step:
  assumes "serve_step s t"
  shows "closing s t"
  using assms
proof cases
  case (open_stream show_f32 request i g m)
  with admit_Inr [OF generate_stream_within_Inr(1) [OF open_stream(2)]] show ?thesis by (simp add: closing_def)
next
  case (stream i g seen g' seen')
  have "stopping_or_dead (put_handle i (gn_handle g') (sv_model s)) j" if "stopping_or_dead (sv_model s) j" for j
    using that gen_step_ended [OF stream(3)] gen_step_token [OF stream(3)]
    by (cases "j = i") (auto simp: stopping_or_dead_def live_def handle_is_terminal_def shared_def)
  with stream(1,2) show ?thesis by (auto simp: closing_def)
next
  case (request i m)
  with admit_Inr [OF request(2)] show ?thesis by (simp add: closing_def)
next
  case (settle op i)
  then show ?thesis using handle_op_closing by simp
next
  case (ask op i)
  then show ?thesis using handle_op_closing [OF ask_legal] by simp
next
  case (unload_begin r m)
  then show ?thesis
    by (auto simp: closing_def unload_begin_def stopping_or_dead_def live_def split: lifecycle_phase.splits)
qed (auto simp: closing_def demonstrate_def finish_unload_def stopping_or_dead_def live_def)

interpretation closed: directed serve_step closing
  by unfold_locales (auto simp: closing_def dest: closing_step [unfolded closing_def])

lemma with_model_twice [simp]: "with_model (with_model s m) m' = with_model s m'"
  by (simp add: with_model_def)

lemma with_model_same [simp]: "with_model s (sv_model s) = s"
  by (simp add: with_model_def)

lemma cancel_all_run: "serve_step\<^sup>*\<^sup>* s (with_model s (cancel_all is (sv_model s)))"
proof (induction "is" arbitrary: s)
  case (Cons i js)
  let ?s = "with_model s (snd (on_handle i (request_cancellation InstanceUnloading) (sv_model s)))"
  have "handle_step (RequestCancel InstanceUnloading) = request_cancellation InstanceUnloading" by (rule ext) simp
  with serve_step.ask [of "RequestCancel InstanceUnloading" s i] have "serve_step s ?s" by simp
  with Cons [of ?s] show ?case by (simp add: converse_rtranclp_into_rtranclp)
qed simp

section \<open>Properties\<close>

text \<open>C10: 
  Every stream of a model keeps the streaming protocol, whatever happens to the model. However its
  clients, the streaming tasks, the readers and an unload interleave, a reader only ever sees events of
  its own request, at most 32 are buffered, a terminal event it saw is the state of the handle that
  cancelling and unloading look at, and a live stream of a serving model is among its active requests.
\<close>

theorem streams_share_outcome:
  assumes "serve_step\<^sup>*\<^sup>* (serving_start m) s" and "sv_streams s i = Some (g, seen)"
  shows "(\<forall>e. Inr e \<in> set seen \<longrightarrow> event_request_id e = i)
    \<and> length (gn_queue g) \<le> 32
    \<and> (\<forall>x\<in>set seen. \<forall>st. promised x = Some st \<longrightarrow> h_state (lm_handles (sv_model s) i) = st)
    \<and> (\<not> gn_sender g \<longrightarrow> \<not> live (sv_model s) i)
    \<and> (lm_phase (sv_model s) = Serving \<longrightarrow> live (sv_model s) i \<longrightarrow> i \<in> set (lm_active (sv_model s)))"
proof -
  note r = reachable_invs [OF serving_streams_reachable [OF assms]]
  have "\<forall>e. Inr e \<in> set seen \<longrightarrow> event_request_id e = i"
  proof (cases "phase_of i seen")
    case Opening
    then show ?thesis by (simp add: phase_Opening)
  next
    case Open
    with phase_Open [OF Open] show ?thesis by (auto simp: delta_items_def)
  next
    case Ended
    then show ?thesis by (elim phase_Ended) (auto simp: delta_items_def)
  next
    case Broken
    with r show ?thesis by (simp add: trace_inv_def)
  qed
  moreover have "found (serving_start m)" by (simp add: found_def serving_start_def)
  with listed.run.runs [OF assms(1)] have "found s" by blast
  ultimately show ?thesis using r assms(2)
    by (auto simp: channel_inv_def outcome_inv_def found_def shared_def GENERATION_STREAM_BUFFER_def
        live_def handle_is_terminal_def)
qed

text \<open>C11: 
  No stream outlives an unload unnoticed. When an unload takes over a serving model, every live stream
  is among the requests it tells to stop; from then on, whatever everybody does, no stream is opened,
  every stream has ended or has a cause to stop, and once its producer is gone it has ended and its
  reader comes to the end within 33 reads.
\<close>

theorem unload_reaches_streams:
  assumes "serve_step\<^sup>*\<^sup>* (serving_start m) s" and "unload_begin (sv_model s) = (Inr (w, outstanding), m1)"
    and "serve_step\<^sup>*\<^sup>* (with_model s (cancel_all outstanding m1)) t" and "sv_streams t i = Some (g, seen)"
  shows "sv_streams s i \<noteq> None \<and> (live (sv_model s) i \<longrightarrow> i \<in> set outstanding)
    \<and> stopping_or_dead (sv_model t) i
    \<and> (\<not> gn_sender g \<longrightarrow> \<not> live (sv_model t) i
         \<and> (\<exists>g'. read_items 33 (shared t i g) = Some g' \<and> gn_stream_finished g'))"
proof -
  let ?u = "with_model s (cancel_all outstanding m1)"
  have b: "lm_phase (sv_model s) = Serving" "outstanding = filter (live (sv_model s)) (lm_active (sv_model s))"
    "m1 = (sv_model s)\<lparr>lm_phase := Unloading, lm_worker := None\<rparr>"
    using assms(2) by (auto simp: unload_begin_def split: lifecycle_phase.splits)
  have c: "closed_progress m1 (cancel_all outstanding m1)" by (rule cancel_all_progress)
  then have "lm_phase (sv_model ?u) \<noteq> Serving" by (simp add: closed_progress_def b(3))
  with closed.runs [OF assms(3)] have k: "\<And>j. sv_streams ?u j = None \<Longrightarrow> sv_streams t j = None"
    "\<And>j. stopping_or_dead (sv_model ?u) j \<Longrightarrow> stopping_or_dead (sv_model t) j"
    unfolding closing_def by blast+
  have open_before: "sv_streams s i \<noteq> None" using k(1) [of i] assms(4) by fastforce
  have "found (serving_start m)" by (simp add: found_def serving_start_def)
  with listed.run.runs [OF assms(1)] have "found s" by blast
  with open_before b(1,2) have out: "live (sv_model s) i \<longrightarrow> i \<in> set outstanding" by (simp add: found_def)
  have "stopping_or_dead (cancel_all outstanding m1) i"
  proof (cases "live (sv_model s) i")
    case True
    with out cancel_all_cancelled show ?thesis by blast
  next
    case False
    then have "\<not> live m1 i" by (simp add: b(3) live_def)
    from closed_progress_dead [OF c this] show ?thesis by (simp add: stopping_or_dead_def)
  qed
  then have told: "stopping_or_dead (sv_model t) i" using k(2) by simp
  have "serve_step s (with_model s m1)" using serve_step.unload_begin [OF assms(2)] .
  moreover have "serve_step\<^sup>*\<^sup>* (with_model s m1) ?u" using cancel_all_run [of "with_model s m1" outstanding] by simp
  ultimately have "serve_step\<^sup>*\<^sup>* (serving_start m) ?u" using assms(1) by (meson rtranclp.rtrancl_into_rtrancl rtranclp_trans)
  then have "serve_step\<^sup>*\<^sup>* (serving_start m) t" using assms(3) by (rule rtranclp_trans)
  note r = reachable_invs [OF serving_streams_reachable [OF this assms(4)]]
  have "\<not> live (sv_model t) i \<and> (\<exists>g'. read_items 33 (shared t i g) = Some g' \<and> gn_stream_finished g')"
    if "\<not> gn_sender g"
  proof
    show "\<not> live (sv_model t) i"
      using r that by (auto simp: channel_inv_def shared_def live_def handle_is_terminal_def)
    have "\<not> gn_sender (shared t i g)" "length (gn_queue (shared t i g)) < 33"
      using r that by (auto simp: channel_inv_def shared_def GENERATION_STREAM_BUFFER_def)
    from read_items_ends [OF this] show "\<exists>g'. read_items 33 (shared t i g) = Some g' \<and> gn_stream_finished g'" by blast
  qed
  with open_before out told show ?thesis by blast
qed

lemma sample_opens:
  obtains s g where "serve_step\<^sup>*\<^sup>* (serving_start sample_model) s" and "sv_streams s (RequestId 1) = Some (g, [])"
    and "live (sv_model s) (RequestId 1)" and "lm_phase (sv_model s) = Serving"
proof -
  let ?s = "serving_start sample_model" and ?r = "continuation ''hello''"
  have c: "checked_parameters (\<lambda>_. []) ?r = Inr ()"
    by (simp add: checked_parameters_def validate_parameters_def validate_temperature_def continuation_def
        default_parameters_def)
  obtain m where a: "admit sample_model = Inr (RequestId 1, m)"
    by (simp add: admit_def sample_model_def new_instance_def allocate_request_def next_raw_def new_allocator_def Let_def)
  from c a have "generate_stream_within (\<lambda>_. []) ?r (sv_model ?s)
      = Inr (RequestId 1, generation_stream (lm_handles m (RequestId 1)), m)"
    by (simp add: generate_stream_within_def serving_start_def)
  from serve_step.open_stream [OF this] have "serve_step ?s (?s\<lparr>sv_model := m, sv_streams :=
      (sv_streams ?s)(RequestId 1 \<mapsto> (generation_stream (lm_handles m (RequestId 1)), []))\<rparr>)"
    by (simp add: serving_start_def)
  from that [OF r_into_rtranclp [of serve_step, OF this]] admit_Inr [OF a] show ?thesis
    by (simp add: live_def handle_is_terminal_def new_handle_def)
qed

theorem streams_share_outcome_witness:
  "\<exists>(s :: serving) g. sv_streams s (RequestId 1) = Some (g, []) \<and> live (sv_model s) (RequestId 1)
     \<and> RequestId 1 \<in> set (lm_active (sv_model s)) \<and> length (gn_queue g) \<le> 32"
proof -
  from sample_opens obtain s g where o: "serve_step\<^sup>*\<^sup>* (serving_start sample_model) s"
    "sv_streams s (RequestId 1) = Some (g, [])" "live (sv_model s) (RequestId 1)" "lm_phase (sv_model s) = Serving" .
  from streams_share_outcome [OF o(1,2)] o show ?thesis by - (intro exI [of _ s] exI [of _ g], simp)
qed

theorem unload_reaches_streams_witness:
  "\<exists>(s :: serving) outstanding w m1. unload_begin (sv_model s) = (Inr (w, outstanding), m1)
     \<and> RequestId 1 \<in> set outstanding \<and> stopping_or_dead (cancel_all outstanding m1) (RequestId 1)"
proof -
  from sample_opens obtain s g where o: "serve_step\<^sup>*\<^sup>* (serving_start sample_model) s"
    "sv_streams s (RequestId 1) = Some (g, [])" "live (sv_model s) (RequestId 1)" "lm_phase (sv_model s) = Serving" .
  obtain w outstanding m1 where u: "unload_begin (sv_model s) = (Inr (w, outstanding), m1)"
    using o(4) by (simp add: unload_begin_def)
  from unload_reaches_streams [OF o(1) u rtranclp.rtrancl_refl, of "RequestId 1" g "[]"] o(2,3) u
  show ?thesis by - (intro exI [of _ s] exI [of _ outstanding] exI [of _ w] exI [of _ m1], simp)
qed

end
