(* ===== verification/Session.thy ===== *)
theory Session
  imports Joined Ledger
begin

text \<open>
  A whole session: the runtime loads a registered artifact whose engine is the stand-in, is served by
  it over the channel, and unloads it. The parts are the operations of \<open>Ledger\<close> (\<open>runtime.rs\<close>), which
  call those of \<open>Lifecycle\<close> (\<open>loader.rs\<close>) and \<open>Backend\<close>; the requests of \<open>Generate\<close> are answered by the
  stand-in of \<open>StandIn\<close>.
\<close>

section \<open>Whole answers\<close>

text \<open>What a client makes of the bytes of an answer: the body is what follows the blank line.\<close>

definition answer_body :: "u8 list \<Rightarrow> u8 list" where
  "answer_body out = (case read_head MAX_HEAD_BYTES [] out of Some (_, body) \<Rightarrow> body | None \<Rightarrow> [])"

text \<open>A peer that carries one request to a server and the server's whole answer back.\<close>

definition carries_answer :: "peer \<Rightarrow> (http_request \<Rightarrow> u8 list) \<Rightarrow> http_request \<Rightarrow> bool" where
  "carries_answer p out q \<longleftrightarrow> pe_connect p = Inr () \<and> pe_handshake p = Inr () \<and> pe_build p q = Inr ()
     \<and> pe_send p q = Inr (response_status (text_of (out q))) \<and> pe_collect p = Inr (answer_body (out q))"

definition stand_in_out :: "standin_state \<Rightarrow> http_request \<Rightarrow> u8 list" where
  "stand_in_out st q = fst (standin_connection (write_request q) st)"

lemma post_carried: "carries_answer p out q \<Longrightarrow>
    post p q = Inr (response_status (text_of (out q)), answer_body (out q))"
  by (simp add: carries_answer_def post_def)

definition json_lines :: "string \<Rightarrow> string list" where
  "json_lines body = [''HTTP/1.1 200 OK'', ''Content-Type: application/json'',
     ''Content-Length: '' @ show_nat (length body), ''Connection: close'']"

lemma json_response_lines: "json_response 200 ''OK'' body = write_head (json_lines body) @ body"
proof -
  have "show_nat 200 = ''200''" by code_simp
  then show ?thesis by (simp add: json_response_def json_lines_def write_head_def)
qed

lemma json_lines_clean: "\<forall>l\<in>set (json_lines body). clean_line l"
proof -
  have "clean_line (show_nat (length body))" using show_nat_header by (simp add: header_value_def)
  moreover have "clean_line ''Content-Length: ''" by (simp add: clean_line_def)
  ultimately have "clean_line (''Content-Length: '' @ show_nat (length body))" by (rule clean_line_append [rotated])
  then show ?thesis by (simp add: json_lines_def clean_line_def)
qed

lemma answer_body_json:
  assumes "length body < 10 ^ 100"
  shows "answer_body (bytes_of (json_response 200 ''OK'' body)) = bytes_of body"
proof -
  have "length (show_nat (length body)) \<le> 100" using assms length_show_nat [of "length body" 99] by simp
  then have "length (write_head (json_lines body)) \<le> MAX_HEAD_BYTES"
    by (simp add: json_lines_def write_head_def length_CRLF MAX_HEAD_BYTES_def)
  then obtain n where n: "MAX_HEAD_BYTES = length (write_head (json_lines body)) + n" by (metis le_Suc_ex)
  have "json_lines body \<noteq> []" by (simp add: json_lines_def)
  with read_head_lines [OF json_lines_clean, of "[]" body n "bytes_of body"] show ?thesis
    by (simp add: answer_body_def json_response_lines n)
qed

section \<open>Posts\<close>

lemma plain_post:
  assumes "reserved ch" and "length body \<le> MAX_BODY_BYTES" and "uri \<in> {COMPLETIONS_PATH, EMBEDDINGS_PATH}"
  shows "plain_request (post_request uri [] (channel_host ch) (expose (ch_secret ch)) body)"
proof -
  note r = reserved_facts [OF assms(1)]
  have "length (show_nat (length body)) \<le> 7"
    using assms(2) length_show_nat [of "length body" 6] by (simp add: MAX_BODY_BYTES_def)
  moreover have "header_value ''application/json''"
    by (simp add: header_value_def clean_line_def printing_def)
  ultimately show ?thesis
    using r assms(2,3) bearer_header [of "expose (ch_secret ch)"] word_header [of "''127.0.0.1''"]
    by (auto simp: plain_request_def post_request_def COMPLETIONS_PATH_def EMBEDDINGS_PATH_def
        word_def printing_def plain_header_def ascii_lower_def head_lines_def write_head_def
        MAX_HEAD_BYTES_def length_CRLF)
qed

lemma post_received:
  assumes "reserved ch" and "length body \<le> MAX_BODY_BYTES" and "uri \<in> {COMPLETIONS_PATH, EMBEDDINGS_PATH}"
  obtains r where "read_request (write_request (post_request uri [] (channel_host ch) (expose (ch_secret ch)) body))
      = Some (r, [])"
    and "rq_method r = ''POST''" and "rq_path r = uri" and "bearer r = Some (expose (ch_secret ch))"
    and "rq_body r = lossy body"
proof -
  let ?q = "post_request uri [] (channel_host ch) (expose (ch_secret ch)) body"
  have "header_map ?q ''authorization'' = Some (''Bearer '' @ expose (ch_secret ch))"
    by (simp add: header_map_def post_request_def ascii_lower_def)
  with read_write_request [OF plain_post [OF assms], of "[]"] that show ?thesis
    by (simp add: bearer_def post_request_def strip_prefix_def)
qed

section \<open>Generation\<close>

text \<open>Two laws of JSON: a request without the flag does not contain it, and the stand-in's answer
  reads as what it says.\<close>

definition omits_flag :: "wire \<Rightarrow> bool" where
  "omits_flag w \<longleftrightarrow> (\<forall>request body. wi_encode w (wire_fields (wire_of False request)) = Inr body \<longrightarrow>
     \<not> str_contains (lossy body) ''\"stream\":true'' \<and> \<not> str_contains (lossy body) ''\"stream\": true'')"

definition reads_completion :: "wire \<Rightarrow> bool" where
  "reads_completion w \<longleftrightarrow> wi_response w (bytes_of completion_body)
     = Inr \<lparr>wr_choices = [\<lparr>wc_text = STAND_IN_TEXT, wc_finish_reason = Some ''stop''\<rparr>],
            wr_usage = Some \<lparr>wu_prompt_tokens = 1, wu_completion_tokens = 6\<rparr>\<rparr>"

definition stand_in_result :: generation_result where
  "stand_in_result = \<lparr>g_text = STAND_IN_TEXT, g_finish_reason = Stop,
     g_usage = Some \<lparr>input_tokens = 1, output_tokens = 6\<rparr>\<rparr>"

lemma stand_in_completes:
  assumes "reserved ch" and "st_credential st = expose (ch_secret ch)" and "length body \<le> MAX_BODY_BYTES"
    and "\<not> str_contains (lossy body) ''\"stream\":true''" and "\<not> str_contains (lossy body) ''\"stream\": true''"
  shows "stand_in_out st (completion_post ch body) = bytes_of (json_response 200 ''OK'' completion_body)"
proof -
  from post_received [OF assms(1,3), of COMPLETIONS_PATH] obtain r where
    "read_request (write_request (completion_post ch body)) = Some (r, [])" "rq_method r = ''POST''"
    "rq_path r = ''/v1/completions''" "bearer r = Some (st_credential st)" "rq_body r = lossy body"
    by (auto simp: completion_post_def COMPLETIONS_PATH_def assms(2))
  with assms(4,5) show ?thesis
    by (simp add: stand_in_out_def standin_connection_def standin_route_def wants_stream_def)
qed

lemma words_then_space: "word v \<Longrightarrow> words_from [] (v @ CHR '' '' # s) = v # words_from [] s"
  using words_from_word [of v "[]" "CHR '' '' # s"] by (auto simp: word_def space_found)

lemma stand_in_words:
  "split_whitespace STAND_IN_TEXT = [''a'', ''stand-in'', ''response,'', ''which'', ''means'', ''nothing'']"
proof -
  have t: "STAND_IN_TEXT = CHR '' '' # ''a'' @ CHR '' '' # ''stand-in'' @ CHR '' '' # ''response,'' @ CHR '' ''
      # ''which'' @ CHR '' '' # ''means'' @ CHR '' '' # ''nothing''" by (simp add: STAND_IN_TEXT_def)
  have w: "word ''a''" "word ''stand-in''" "word ''response,''" "word ''which''" "word ''means''"
    by (simp_all add: word_def printing_def)
  have "words_from [] ''nothing'' = [''nothing'']"
    using words_from_word [of "''nothing''" "[]" "[]"] by (simp add: printing_def)
  moreover have "words_from [] (CHR '' '' # s) = words_from [] s" for s by (simp add: space_found)
  ultimately show ?thesis
    by (simp only: split_whitespace_def t words_then_space [OF w(1)] words_then_space [OF w(2)]
        words_then_space [OF w(3)] words_then_space [OF w(4)] words_then_space [OF w(5)])
qed

lemma completion_length: "length completion_body < 10 ^ 100"
proof -
  have "length (show_nat (Suc (Suc (Suc (Suc (Suc (Suc 0))))))) = 1" by code_simp
  then have "length (show_nat (length (split_whitespace STAND_IN_TEXT))) = 1" by (simp add: stand_in_words)
  then have "length completion_body \<le> 200" unfolding completion_body_def by (simp add: STAND_IN_TEXT_def)
  moreover have "(200::nat) < 10 ^ 100" by simp
  ultimately show ?thesis by (rule le_less_trans)
qed

lemma generated_by_stand_in:
  assumes "reserved ch" and "st_credential st = expose (ch_secret ch)"
    and "wi_encode w (wire_fields (wire_of False request)) = Inr body" and "length body \<le> MAX_BODY_BYTES"
    and "omits_flag w" and "reads_completion w" and "carries_answer p (stand_in_out st) (completion_post ch body)"
  shows "generate w True p ch request = Inr stand_in_result"
proof -
  from assms(3,5) have "\<not> str_contains (lossy body) ''\"stream\":true''"
    "\<not> str_contains (lossy body) ''\"stream\": true''" by (auto simp: omits_flag_def)
  from stand_in_completes [OF assms(1,2,4) this] have
    out: "stand_in_out st (completion_post ch body) = bytes_of (json_response 200 ''OK'' completion_body)" .
  with post_carried [OF assms(7)] have "post p (completion_post ch body) = Inr (200, bytes_of completion_body)"
    by (simp only: out text_of_bytes_of response_status_json answer_body_json [OF completion_length])
  with assms(3,6) show ?thesis
    by (simp add: generate_def is_success_def reads_completion_def first_choice_def usage_of_def
        stand_in_result_def)
qed

section \<open>Embedding\<close>

text \<open>Two more laws of JSON, for texts that need no escapes, and for what the stand-in sends for \<open>n\<close>
  inputs: the vector of an input is \<open>vec\<close> of its index, finite and of the stand-in's width.\<close>

definition plain_text :: "string \<Rightarrow> bool" where
  "plain_text x \<longleftrightarrow> (\<forall>c\<in>set x. (of_char c :: nat) < 128 \<and> 32 \<le> (of_char c :: nat)
     \<and> c \<noteq> CHR 0x22 \<and> c \<noteq> CHR 0x5C \<and> c \<noteq> CHR '']'')"

definition writes_inputs :: "wire \<Rightarrow> bool" where
  "writes_inputs w \<longleftrightarrow> (\<forall>xs. list_all plain_text xs \<longrightarrow>
     wi_encode w [(''input'', JTexts xs)] = Inr (bytes_of (input_body xs)))"

definition reads_embeddings :: "wire \<Rightarrow> (nat \<Rightarrow> f32 list) \<Rightarrow> nat \<Rightarrow> bool" where
  "reads_embeddings w vec n \<longleftrightarrow>
     (\<forall>i. length (vec i) = EMBEDDING_WIDTH \<and> list_all f32_is_finite (vec i))
     \<and> (\<forall>body. count_inputs body = n \<longrightarrow> wi_embeddings w (bytes_of (embedding_body body))
          = Inr (map (\<lambda>i. \<lparr>we_index = i, we_embedding = vec i\<rparr>) [0..<n]))"

lemma length_join: "length (join sep xs) \<le> sum_list (map length xs) + length sep * length xs"
  by (induction sep xs rule: join.induct) auto

lemma length_join_map:
  assumes "\<forall>i<n. length (f i) \<le> b"
  shows "length (join '','' (map f [0..<n])) \<le> (b + 1) * n"
proof -
  have "sum_list (map length (map f [0..<n])) \<le> b * n" using assms by (induction n) auto
  with length_join [of "'',''" "map f [0..<n]"] show ?thesis by simp
qed

lemma length_64ths:
  assumes "n < 10 ^ 9"
  shows "length (show_64ths n) \<le> 16"
proof -
  have "n div 64 < 10 ^ 9" using assms by simp
  then have "length (show_nat (n div 64)) \<le> 9" using length_show_nat [of "n div 64" 8] by simp
  moreover have "n mod 64 * 15625 < 10 ^ 6" using mod_less_divisor [of 64 n] by simp
  then have "length (show_nat (n mod 64 * 15625)) \<le> 6" using length_show_nat [of "n mod 64 * 15625" 5] by simp
  ultimately show ?thesis by (simp add: show_64ths_def pad_left_def)
qed

lemma length_item:
  assumes "i < 10 ^ 7"
  shows "length (embedding_item i) \<le> 200"
proof -
  have "component_64ths i axis < 10 ^ 9" if "axis < EMBEDDING_WIDTH" for axis
    using assms that by (simp add: component_64ths_def round_f32_def EMBEDDING_WIDTH_def)
  then have "\<forall>axis<EMBEDDING_WIDTH. length (show_64ths (component_64ths i axis)) \<le> 16" using length_64ths by blast
  from length_join_map [OF this] have
    "length (join '','' (map (\<lambda>axis. show_64ths (component_64ths i axis)) [0..<EMBEDDING_WIDTH])) \<le> 17 * EMBEDDING_WIDTH" by simp
  moreover have "length (show_nat i) \<le> 7" using assms length_show_nat [of i 6] by simp
  ultimately show ?thesis by (simp add: embedding_item_def EMBEDDING_WIDTH_def)
qed

lemma split_first_length: "split_first p s = Some (a, b) \<Longrightarrow> length a \<le> length s \<and> length b \<le> length s"
  by (induction p s arbitrary: a rule: split_first.induct) (auto split: if_splits)

lemma count_inputs_bound: "count_inputs body \<le> Suc (length body)"
proof -
  have "length (filter P array) div 2 \<le> length body"
    if "split_first INPUT_OPEN body = Some (x, rest)" "split_first '']'' rest = Some (array, y)"
    for x rest array y and P :: "char \<Rightarrow> bool"
    using split_first_length [OF that(1)] split_first_length [OF that(2)] length_filter_le [of P array] by linarith
  then show ?thesis by (auto simp: count_inputs_def le_SucI split: option.splits)
qed

lemma embedding_length:
  assumes "length body \<le> MAX_BODY_BYTES"
  shows "length (embedding_body body) < 10 ^ 100"
proof -
  have n: "count_inputs body < 10 ^ 7" using count_inputs_bound [of body] assms by (simp add: MAX_BODY_BYTES_def)
  have "\<forall>i<count_inputs body. length (embedding_item i) \<le> 200"
  proof safe
    fix i assume "i < count_inputs body"
    with n have "i < 10 ^ 7" by linarith
    then show "length (embedding_item i) \<le> 200" by (rule length_item)
  qed
  from length_join_map [OF this] have
    "length (join '','' (map embedding_item [0..<count_inputs body])) \<le> 201 * count_inputs body" by simp
  then have "length (embedding_body body) \<le> 201 * count_inputs body + 30" by (simp add: embedding_body_def)
  with n have "length (embedding_body body) < 10 ^ 10" by simp
  then show ?thesis by (rule less_le_trans) simp
qed

lemma list_all_join: "list_all P sep \<Longrightarrow> \<forall>x\<in>set xs. list_all P x \<Longrightarrow> list_all P (join sep xs)"
  by (induction sep xs rule: join.induct) auto

lemma plain_input_body:
  assumes "list_all plain_text xs"
  shows "lossy (bytes_of (input_body xs)) = input_body xs" and "count_inputs (input_body xs) = length xs"
proof -
  have "list_all (\<lambda>c. (of_char c :: nat) < 128) x" if "x \<in> set xs" for x
    using assms that by (auto simp: plain_text_def list_all_iff)
  then have "list_all (\<lambda>c. (of_char c :: nat) < 128) (input_body xs)"
    by (auto simp: input_body_def INPUT_OPEN_def quoted_def intro!: list_all_join)
  then have "list_all (\<lambda>b. b \<le> 127) (bytes_of (input_body xs))"
    by (auto simp: bytes_of_def list_all_iff word_le_nat_alt unat_of_nat)
  from lossy_valid [OF valid_utf8_ascii [OF this]] show "lossy (bytes_of (input_body xs)) = input_body xs" by simp
  show "count_inputs (input_body xs) = length xs"
    using assms by (intro inputs_counted) (auto simp: plain_text_def list_all_iff)
qed

definition stand_in_embeddings :: "(nat \<Rightarrow> f32 list) \<Rightarrow> nat \<Rightarrow> embedding_result" where
  "stand_in_embeddings vec n = map (\<lambda>i. \<lparr>e_index = i, e_vector = vec i\<rparr>) [0..<n]"

lemma embedded_by_stand_in:
  assumes "reserved ch" and "st_credential st = expose (ch_secret ch)"
    and "list_all plain_text xs" and "length (input_body xs) \<le> MAX_BODY_BYTES"
    and "writes_inputs w" and "reads_embeddings w vec (length xs)"
    and "carries_answer p (stand_in_out st) (embedding_post ch (bytes_of (input_body xs)))"
  shows "embed_inputs w True p ch (embed_batch xs) = Inr (stand_in_embeddings vec (length xs))"
proof -
  let ?body = "bytes_of (input_body xs)"
  have "length ?body \<le> MAX_BODY_BYTES" using assms(4) by (simp add: bytes_of_def)
  from post_received [OF assms(1) this, of EMBEDDINGS_PATH] obtain r where
    "read_request (write_request (embedding_post ch ?body)) = Some (r, [])" "rq_method r = ''POST''"
    "rq_path r = ''/v1/embeddings''" "bearer r = Some (st_credential st)" "rq_body r = input_body xs"
    by (auto simp: embedding_post_def EMBEDDINGS_PATH_def assms(2) plain_input_body [OF assms(3)])
  then have "stand_in_out st (embedding_post ch ?body)
      = bytes_of (json_response 200 ''OK'' (embedding_body (input_body xs)))"
    by (simp add: stand_in_out_def standin_connection_def standin_route_def)
  with post_carried [OF assms(7)] have
    "post p (embedding_post ch ?body) = Inr (200, bytes_of (embedding_body (input_body xs)))"
    by (simp only: text_of_bytes_of response_status_json answer_body_json [OF embedding_length [OF assms(4)]])
  moreover have "wi_encode w [(''input'', JTexts (inputs (embed_batch xs)))] = Inr ?body"
    using assms(3,5) by (simp add: writes_inputs_def embed_batch_def)
  ultimately show ?thesis
    using assms(6) plain_input_body(2) [OF assms(3)]
    by (simp add: embed_inputs_def embed_as_generate is_success_def reads_embeddings_def stand_in_embeddings_def comp_def)
qed

lemma stand_in_embeddings_valid:
  assumes "\<forall>i. length (vec i) = EMBEDDING_WIDTH \<and> list_all f32_is_finite (vec i)" and "xs \<noteq> []"
  shows "validate (embed_batch xs) (stand_in_embeddings vec (length xs)) = Inr ()"
proof -
  have "vec i \<noteq> []" for i using assms(1) by (auto simp: EMBEDDING_WIDTH_def dest: spec [of _ i])
  with assms show ?thesis unfolding validate_ok_iff
    by (auto simp: stand_in_embeddings_def embed_batch_def embed_len_def embedding_is_finite_def
        embedding_dimension_def comp_def)
qed

lemma stand_in_vectors:
  "(\<forall>k<n. for_input k (stand_in_embeddings vec n) = Some \<lparr>e_index = k, e_vector = vec k\<rparr>)
    \<and> (\<forall>k\<ge>n. for_input k (stand_in_embeddings vec n) = None)"
proof -
  have "for_input k (stand_in_embeddings vec n) = Some \<lparr>e_index = k, e_vector = vec k\<rparr>" if "k < n" for k
    using for_input_found [of "stand_in_embeddings vec n" "\<lparr>e_index = k, e_vector = vec k\<rparr>"] that
    by (auto simp: stand_in_embeddings_def comp_def)
  moreover have "for_input k (stand_in_embeddings vec n) = None" if "n \<le> k" for k
    using that by (auto simp: for_input_def find_None_iff stand_in_embeddings_def)
  ultimately show ?thesis by blast
qed

section \<open>Loading\<close>

text \<open>The start of a backend whose engine is the stand-in, up to the state it listens in.\<close>

definition starts_stand_in ::
    "start_env \<Rightarrow> standin_env \<Rightarrow> llama_spec \<Rightarrow> key_store \<Rightarrow> backend_channel \<Rightarrow> standin_state \<Rightarrow> bool" where
  "starts_stand_in se e spec ks ch st \<longleftrightarrow> (\<exists>port bs key ks1 l said b.
     se_port se = Inr port \<and> se_secret se = Inr bs \<and> length bs = 32
     \<and> reserve_channel (Inr port) (Inr bs) = Inr ch
     \<and> secret_file_create (se_keys se) (secret_directory (se_temp se) (ho_euid (ke_host (se_keys se))))
         (ch_secret ch) ks = (Inr key, ks1)
     \<and> se_spawn se = Inr () \<and> 0 < se_rounds se \<and> stays_up (se_os se)
     \<and> standin_main e (command_line spec ch key) = Listening l said \<and> st = li_state l
     \<and> (\<forall>n. se_health se n = health_answer True (standin_peer (li_state l)) ch)
     \<and> se_props se = props_answer True (standin_peer (li_state l)) ch
     \<and> (\<forall>path f. map_of (ks_files ks1) path = Some f \<longrightarrow> sn_read e path = Inr (kf_contents f))
     \<and> from_model (sn_debug e) (Some (sp_model_path spec)) = Inr b \<and> b \<noteq> RefuseCredential)"

lemma backend_of_stand_in:
  assumes "starts_stand_in se e spec ks ch st" and "backend_start se exe w spec ks = (r, ho, ks')"
  shows "\<exists>rb. r = Inr rb \<and> rb_channel rb = ch \<and> wh_state (rb_handle rb) = Ready
    \<and> wh_child (rb_handle rb) \<and> wh_stop (rb_handle rb) = Terminate \<and> machine_ok (rb_handle rb)"
proof -
  from assms(1) obtain port bs key ks1 l said b where
    s: "se_port se = Inr port" "se_secret se = Inr bs" "length bs = 32"
      "reserve_channel (Inr port) (Inr bs) = Inr ch"
      "secret_file_create (se_keys se) (secret_directory (se_temp se) (ho_euid (ke_host (se_keys se))))
         (ch_secret ch) ks = (Inr key, ks1)"
      "se_spawn se = Inr ()" "0 < se_rounds se" "stays_up (se_os se)"
    and l: "standin_main e (command_line spec ch key) = Listening l said" "st = li_state l"
      "\<forall>n. se_health se n = health_answer True (standin_peer (li_state l)) ch"
      "se_props se = props_answer True (standin_peer (li_state l)) ch"
    and f: "\<And>path f. map_of (ks_files ks1) path = Some f \<Longrightarrow> sn_read e path = Inr (kf_contents f)"
      "from_model (sn_debug e) (Some (sp_model_path spec)) = Inr b" "b \<noteq> RefuseCredential"
    unfolding starts_stand_in_def by blast
  have "runs_stand_in se e spec ch key" using l by (auto simp: runs_stand_in_def)
  from stand_in_starts [OF s this f(1,2) assms(2)] f(3) show ?thesis by auto
qed

lemma stand_in_credential:
  assumes "starts_stand_in se e spec ks ch st"
  shows "reserved ch" and "st_credential st = expose (ch_secret ch)"
proof -
  from assms obtain port bs where s: "length bs = 32" "reserve_channel (Inr port) (Inr bs) = Inr ch"
    unfolding starts_stand_in_def by blast
  show ch: "reserved ch" using s by (auto simp: reserved_def)
  show "st_credential st = expose (ch_secret ch)"
    using assms listening_stand_in [OF ch] unfolding starts_stand_in_def by blast
qed

definition spec_of :: "model_artifact \<Rightarrow> worker_deadlines \<Rightarrow> llama_spec" where
  "spec_of art deadlines = \<lparr>sp_model_path = a_path art, sp_descriptor = describe art, sp_context_size = None,
     sp_gpu_layers = None, sp_deadlines = deadlines\<rparr>"

lemma loaded_from_stand_in:
  assumes "get_artifact db a = Inr (Some art)" and "detect_drift (lo_files lo) art = Unchanged"
    and "permits_start (assess (describe art))"
    and "starts_stand_in (lo_start lo) e (spec_of art deadlines) ks ch st"
    and "lo_fault lo = None" and "instance_id_generate (lo_random lo) = Inr i"
  obtains m rb where "fst (load lo exe db a w deadlines ks) = Inr m" and "mi_id (lm_instance m) = i"
    and "lm_channel m = ch" and "lm_phase m = Serving" and "lm_active m = []" and "lm_worker m = Some rb"
    and "instance_is_usable (mi_state (lm_instance m))" and "mi_artifact (lm_instance m) = a_id art"
    and "\<forall>c. \<not> capability_is_verified (mi_capabilities (lm_instance m)) c"
    and "bt_inv (mi_capabilities (lm_instance m))" and "wh_state (rb_handle rb) = Ready" and "wh_child (rb_handle rb)"
    and "wh_stop (rb_handle rb) = Terminate" and "machine_ok (rb_handle rb)"
proof -
  obtain r ho ks' where b: "backend_start (lo_start lo) exe w (spec_of art deadlines) ks = (r, ho, ks')"
    by (cases "backend_start (lo_start lo) exe w (spec_of art deadlines) ks") auto
  from backend_of_stand_in [OF assms(4) b] obtain rb where rb: "r = Inr rb" "rb_channel rb = ch"
    "wh_state (rb_handle rb) = Ready" "wh_child (rb_handle rb)" "wh_stop (rb_handle rb) = Terminate"
    "machine_ok (rb_handle rb)" by blast
  obtain m where m: "commit (lo_fault lo) (lo_random lo) art rb = Inr m"
    using assms(5,6) by (simp add: commit_def)
  then have f: "mi_id (lm_instance m) = i" "lm_channel m = ch" "lm_phase m = Serving" "lm_active m = []"
      "lm_worker m = Some rb" "instance_is_usable (mi_state (lm_instance m))" "mi_artifact (lm_instance m) = a_id art"
      "\<forall>c. \<not> capability_is_verified (mi_capabilities (lm_instance m)) c" "bt_inv (mi_capabilities (lm_instance m))"
    using assms(5,6) rb(2) indicated_by_metadata_facts by (auto simp: commit_def new_instance_def)
  have "resolve (lo_files lo) db a = Inr art" using assms(1,2) by (simp add: resolve_def ok_or_def)
  then have "fst (load lo exe db a w deadlines ks) = Inr m"
    using assms(3) b rb(1) m by (simp add: load_def Let_def spec_of_def)
  with f rb that show ?thesis by blast
qed

section \<open>Unloading\<close>

text \<open>A worker that can be killed: nobody refuses the signal.\<close>

definition killable :: "os \<Rightarrow> bool" where
  "killable e \<longleftrightarrow> (\<forall>n. os_kill_error e n = None \<and> os_injected e n = None)"

lemma killed: "killable e \<Longrightarrow> fst (try_to_kill e h) = None"
  by (auto simp: try_to_kill_def os_kill_def killable_def Let_def split: prod.splits sum.splits option.splits)

lemma stops_killable:
  assumes "killable e" and "wh_state (rb_handle rb) = Ready"
    and "wh_stop (rb_handle rb) = Terminate"
  shows "fst (backend_stop e rb) = Inr ()"
proof -
  obtain h1 where b: "begin_stopping (rb_handle rb) = (Inr (), h1)"
    using begin_stopping_facts [of "rb_handle rb"] by (cases "begin_stopping (rb_handle rb)") auto
  with begin_stopping_facts [OF b] assms(2,3) have h1: "wh_stop h1 = Terminate" "wh_state h1 = Stopping"
    by (auto simp: same_worker_def)
  obtain t h2 where t: "terminate e h1 = (t, h2)" by (cases "terminate e h1")
  have "t = Inr ()" using t killed [OF assms(1), of h1]
    by (auto simp: terminate_def Let_def split: prod.splits option.splits if_splits)
  have "fst (leave_stopping h2) = Inr ()"
    by (simp add: leave_stopping_def set_worker_state_def transition_to_def)
  with b h1 t \<open>t = Inr ()\<close> have "fst (shutdown e (rb_handle rb)) = Inr Requested"
    by (auto simp: shutdown_def split: prod.splits sum.splits)
  then show ?thesis by (auto simp: backend_stop_def split: prod.splits sum.splits)
qed

lemma unloads_at_once:
  assumes "lm_phase m = Serving" and "lm_worker m = Some rb" and "filter (live m) (lm_active m) = []"
    and "killable (ue_os ue)" and "machine_ok (rb_handle rb)" and "wh_state (rb_handle rb) = Ready"
    and "wh_stop (rb_handle rb) = Terminate"
  shows "\<exists>m' rb'. unload_within ue m = (Inr (Drained 0), m', Some rb') \<and> lm_phase m' = Unloaded
    \<and> gone (rb_handle rb')"
proof -
  obtain rb' where st: "backend_stop (ue_os ue) rb = (Inr (), rb')"
    using stops_killable [OF assms(4,6,7)] by (cases "backend_stop (ue_os ue) rb") auto
  have "drain_requests rounds others n [] m1 = (0, m1)" for rounds others n m1
    by (cases rounds) (simp_all add: unsettled_def)
  with assms(1-3) st backend_stop_facts [OF st assms(5)] show ?thesis
    by (simp add: unload_within_def unload_begin_def finish_unload_def Let_def)
qed

section \<open>One request\<close>

lemma served_request:
  assumes "start_request m = Inr (i, m1)" and "judge r = None"
  shows "\<exists>m'. settle (\<lambda>m. m) i (Inr r) judge m1 = (Inr r, m') \<and> lm_phase m' = Serving
    \<and> lm_worker m' = lm_worker m \<and> lm_instance m' = lm_instance m
    \<and> (filter (live m) (lm_active m) = [] \<longrightarrow> filter (live m') (lm_active m') = [])"
proof -
  obtain m0 where a: "admit m = Inr (i, m0)" and m1: "m1 = snd (on_handle i (\<lambda>h. ((), mark_running h)) m0)"
    using start_request_Inr [OF assms(1)] by blast
  note f = admit_Inr [OF a]
  have "filter (live m) (lm_active m) = [] \<Longrightarrow> lm_active m0 = [i]"
    using a by (auto simp: admit_def retain_live_def Let_def split: prod.splits if_splits)
  moreover have "h_token (lm_handles m1 i) = None" using f by (simp add: m1 mark_running_def new_handle_def new_token_def)
  ultimately show ?thesis using assms(2) f
    by (simp add: settle_def m1 live_def handle_is_terminal_def finish_state)
qed

lemma admits_request:
  assumes "lm_phase m = Serving" and "instance_is_usable (mi_state (lm_instance m))"
  obtains i m1 where "start_request m = Inr (i, m1)"
proof -
  have "admit m \<noteq> Inl err" for err using assms by (auto simp: admit_def Let_def split: prod.splits)
  with that show ?thesis by (cases "start_request m") (auto dest: start_request_Inl)
qed

lemma served_generation:
  assumes "lm_phase m = Serving" and "instance_is_usable (mi_state (lm_instance m))"
    and "checked_parameters show_f32 request = Inr ()" and "validate_generation result = Inr ()"
  obtains m' where "generate_text show_f32 (\<lambda>k m. m) (Inr result) request m = (Inr result, m')"
    and "lm_phase m' = Serving" and "lm_worker m' = lm_worker m" and "lm_instance m' = lm_instance m"
    and "filter (live m) (lm_active m) = [] \<Longrightarrow> filter (live m') (lm_active m') = []"
proof -
  obtain i m1 where st: "start_request m = Inr (i, m1)" using admits_request [OF assms(1,2)] .
  with served_request [OF st, of "\<lambda>r. defect_of show_generation_defect (validate_generation r)" result] assms(3,4) that
  show ?thesis by (auto simp: generate_text_def defect_of_def)
qed

lemma served_embedding:
  assumes "lm_phase m = Serving" and "instance_is_usable (mi_state (lm_instance m))"
    and "validate request result = Inr ()"
  obtains m' where "embed (\<lambda>k m. m) (Inr result) request m = (Inr result, m')"
    and "lm_phase m' = Serving" and "lm_worker m' = lm_worker m" and "lm_instance m' = lm_instance m"
    and "filter (live m) (lm_active m) = [] \<Longrightarrow> filter (live m') (lm_active m') = []"
proof -
  obtain i m1 where st: "start_request m = Inr (i, m1)" using admits_request [OF assms(1,2)] .
  with served_request [OF st, of "\<lambda>r. defect_of show_result_defect (validate request r)" result] assms(3) that
  show ?thesis by (auto simp: embed_def defect_of_def)
qed

lemma verified_embeddings:
  assumes "lm_phase m = Serving" and "instance_is_usable (mi_state (lm_instance m))"
    and "bt_inv (mi_capabilities (lm_instance m))" and "validate request result = Inr ()"
  shows "\<exists>m'. verify_embeddings now (\<lambda>k m. m) (Inr result) request m = (Inr result, m')
    \<and> lm_phase m' = Serving \<and> capability_is_verified (mi_capabilities (lm_instance m')) Embeddings"
proof -
  obtain m1 where "embed (\<lambda>k m. m) (Inr result) request m = (Inr result, m1)" "lm_phase m1 = Serving"
    "lm_instance m1 = lm_instance m" using served_embedding [OF assms(1,2,4)] by metis
  with assms(3) show ?thesis
    by (simp add: verify_embeddings_def demonstrate_def instance_verify_def
        capability_is_verified_def state_of_verify)
qed

section \<open>Properties\<close>

lemma insert_then_remove: "map_of m k = None \<Longrightarrow> hm_remove k (hm_insert k v m) = m"
  by (auto simp: hm_remove_def hm_insert_def map_of_eq_None_iff filter_id_conv)

text \<open>C4: A whole session leaves what it promises and nothing else. A registered artifact whose engine is
  the stand-in is loaded and resident on the channel that was reserved. Over that channel a batch of
  texts (printable, without quotes, backslashes and closing brackets) comes back as one vector per text,
  each under its index, and a text request as the stand-in's text, reason and token counts. No
  capability counts as verified, before or after: an answer alone is no evidence. Unloading drains
  nobody, ends the worker's process and leaves the ledger as it was, but for the number of the next
  reservation.
\<close>

theorem session_with_stand_in:
  assumes "get_artifact db a = Inr (Some art)" and "detect_drift (lo_files lo) art = Unchanged"
    and "permits_start (assess (describe art))"
    and "starts_stand_in (lo_start lo) e (spec_of art deadlines) ks ch st"
    and "lo_fault lo = None" and "instance_id_generate (lo_random lo) = Inr i"
    and "admits limits (committed (rt_ledger rt)) (from_container_size (a_size art)) = Inr ()"
    and "map_of (ld_pending (rt_ledger rt)) (ld_next (rt_ledger rt) + 1) = None" and "\<not> is_resident rt i"
    and "xs \<noteq> []" and "list_all plain_text xs" and "length (input_body xs) \<le> MAX_BODY_BYTES"
    and "writes_inputs wr" and "reads_embeddings wr vec (length xs)"
    and "carries_answer pe (stand_in_out st) (embedding_post ch (bytes_of (input_body xs)))"
    and "checked_parameters show_f32 request = Inr ()"
    and "wi_encode wr (wire_fields (wire_of False request)) = Inr body" and "length body \<le> MAX_BODY_BYTES"
    and "omits_flag wr" and "reads_completion wr" and "carries_answer pg (stand_in_out st) (completion_post ch body)"
    and "killable (ue_os ue)"
    and "runtime_load limits lo exe ue (\<lambda>s. s) db a w deadlines ks rt = (r1, rt1)"
    and "runtime_embed (\<lambda>k m. m) (map_err show_embed_error (embed_inputs wr True pe ch (embed_batch xs)))
      (embed_batch xs) i rt1 = (r2, rt2)"
    and "runtime_generate_text show_f32 (\<lambda>k m. m)
      (map_err show_generate_error (generate wr True pg ch request)) request i rt2 = (r3, rt3)"
    and "runtime_unload ue (\<lambda>s. s) i rt3 = (r4, rt4)"
  shows "r1 = Inr i \<and> is_resident rt1 i \<and> lm_channel (rt_models rt1 i) = ch
    \<and> (\<exists>result. r2 = Inr result
        \<and> (\<forall>k<length xs. for_input k result = Some \<lparr>e_index = k, e_vector = vec k\<rparr>)
        \<and> (\<forall>k\<ge>length xs. for_input k result = None))
    \<and> r3 = Inr stand_in_result
    \<and> (\<forall>s\<in>{rt1, rt2, rt3}. \<forall>c. \<not> capability_is_verified (mi_capabilities (lm_instance (rt_models s i))) c)
    \<and> r4 = Inr (Drained 0)
    \<and> (\<exists>rb. snd (snd (unload_within ue (rt_models rt3 i))) = Some rb \<and> gone (rb_handle rb))
    \<and> rt_ledger rt4 = (rt_ledger rt)\<lparr>ld_next := ld_next (rt_ledger rt) + 1\<rparr>"
proof -
  let ?l = "rt_ledger rt" and ?f = "from_container_size (a_size art)"
  let ?c = "ld_next ?l + 1" and ?r = "stand_in_embeddings vec (length xs)"
  from loaded_from_stand_in [OF assms(1-6)] obtain m rb where
    m: "fst (load lo exe db a w deadlines ks) = Inr m" "mi_id (lm_instance m) = i" "lm_channel m = ch"
      "lm_phase m = Serving" "lm_active m = []" "lm_worker m = Some rb"
      "instance_is_usable (mi_state (lm_instance m))"
      "\<forall>c. \<not> capability_is_verified (mi_capabilities (lm_instance m)) c"
    and rb: "wh_state (rb_handle rb) = Ready" "wh_stop (rb_handle rb) = Terminate" "machine_ok (rb_handle rb)"
    by blast
  have free: "map_of (ld_resident ?l) i = None" using assms(9) by (simp add: is_resident_def)
  note clean = insert_then_remove [OF assms(8)] insert_then_remove [OF free]
  have "declared_footprint db a = Inr ?f" using assms(1) by (simp add: declared_footprint_Inr)
  with assms(7,23) m(1,2) free clean have one: "r1 = Inr i"
    "rt1 = rt\<lparr>rt_ledger := \<lparr>ld_pending = ld_pending ?l, ld_resident = hm_insert i ?f (ld_resident ?l), ld_next = ?c\<rparr>,
       rt_models := (rt_models rt)(i := m)\<rparr>"
    by (auto simp: runtime_load_def reserve_def allocate_reservation_def fulfil_ledger_def lookup_insert Let_def)
  then have here: "is_resident rt1 i" by (simp add: is_resident_def lookup_insert)
  have in1: "rt_models rt1 i = m" by (simp add: one)
  note st = stand_in_credential [OF assms(4)]
  have sent: "embed_inputs wr True pe ch (embed_batch xs) = Inr ?r"
    by (rule embedded_by_stand_in [OF st assms(11-15)])
  have valid: "validate (embed_batch xs) ?r = Inr ()"
    using stand_in_embeddings_valid assms(10,14) by (simp add: reads_embeddings_def)
  obtain m2 where "embed (\<lambda>k m. m) (Inr ?r) (embed_batch xs) m = (Inr ?r, m2)"
    and m2: "lm_phase m2 = Serving" "lm_worker m2 = Some rb" "lm_instance m2 = lm_instance m"
    "filter (live m2) (lm_active m2) = []"
    by (rule served_embedding [OF m(4,7) valid]) (simp add: m(5,6))
  with assms(24) here in1 sent have two: "r2 = Inr ?r" "rt2 = rt1\<lparr>rt_models := (rt_models rt1)(i := m2)\<rparr>"
    by (simp_all add: runtime_embed_def on_model_def)
  have "generate wr True pg ch request = Inr stand_in_result"
    by (rule generated_by_stand_in [OF st assms(17-21)])
  moreover have v: "validate_generation stand_in_result = Inr ()"
    by (simp add: validate_generation_def stand_in_result_def STAND_IN_TEXT_def)
  have usable: "instance_is_usable (mi_state (lm_instance m2))" using m(7) m2(3) by simp
  obtain m3 where "generate_text show_f32 (\<lambda>k m. m) (Inr stand_in_result) request m2 = (Inr stand_in_result, m3)"
    and m3: "lm_phase m3 = Serving" "lm_worker m3 = Some rb" "lm_instance m3 = lm_instance m"
    "filter (live m3) (lm_active m3) = []"
    by (rule served_generation [OF m2(1) usable assms(16) v]) (simp add: m2)
  moreover have "is_resident rt2 i" "rt_models rt2 i = m2" using here by (simp_all add: two(2) is_resident_def)
  ultimately have three: "r3 = Inr stand_in_result" "rt3 = rt2\<lparr>rt_models := (rt_models rt2)(i := m3)\<rparr>"
    using assms(25) by (simp_all add: runtime_generate_text_def on_model_def)
  from unloads_at_once [OF m3(1,2,4) assms(22) rb(3,1,2)] obtain m4 rb' where
    m4: "unload_within ue m3 = (Inr (Drained 0), m4, Some rb')" "lm_phase m4 = Unloaded" "gone (rb_handle rb')"
    by blast
  have in3: "is_resident rt3 i" "rt_models rt3 i = m3" using here by (simp_all add: three(2) two(2) is_resident_def)
  with m4 assms(26) have four: "r4 = Inr (Drained 0)" "rt_ledger rt4 = forget_resident i (rt_ledger rt3)"
    by (auto simp: runtime_unload_def)
  then have ledger: "rt_ledger rt4 = ?l\<lparr>ld_next := ?c\<rparr>"
    using clean(2) by (cases ?l) (simp add: forget_resident_def three(2) two(2) one)
  have "\<forall>s\<in>{rt1, rt2, rt3}. \<forall>c. \<not> capability_is_verified (mi_capabilities (lm_instance (rt_models s i))) c"
    using m(8) m2(3) m3(3) in1 in3(2) by (simp add: two(2))
  moreover have "(\<forall>k<length xs. for_input k ?r = Some \<lparr>e_index = k, e_vector = vec k\<rparr>)
      \<and> (\<forall>k\<ge>length xs. for_input k ?r = None)" by (rule stand_in_vectors)
  ultimately show ?thesis using one(1) here in1 m(3) two(1) three(1) four(1) m4 in3(2) ledger by simp
qed

text \<open>The sample: the registered sample artifact, and the sample start with the stand-in as its engine.\<close>

definition session_art :: model_artifact where
  "session_art = stored (\<lambda>p. p) (sample_artifact 7)"

lemma session_artifact: "get_artifact (sample_database 7) (hex_encode [1, 2, 3]) = Inr (Some session_art)"
  using register_stored [OF registry_empty register_sample [of 7]]
  by (simp add: session_art_def sample_artifact_def sample_environment_def)

lemma session_unchanged: "detect_drift (e_stat (sample_environment 7)) session_art = Unchanged"
  using register_then_check [OF registry_empty register_sample [of 7]] session_artifact
  by (simp add: check_artifact_def sample_artifact_def sample_environment_def i64_max_def ok_or_def)

lemma session_startable: "permits_start (assess (describe session_art))"
proof -
  have "architecture sample_header = None"
    by (simp add: architecture_def header_text_def header_get_def sample_header_def)
  then show ?thesis
    by (simp add: session_art_def stored_def sample_artifact_def from_header_def describe_def assess_def)
qed

lemma session_starts:
  obtains se e st where "starts_stand_in se e (spec_of session_art default_deadlines) sample_store sample_channel st"
proof -
  let ?spec = "spec_of session_art default_deadlines" and ?ch = sample_channel
  let ?dir = "secret_directory (se_temp sample_start) (ho_euid (ke_host (se_keys sample_start)))"
  have path: "sp_model_path ?spec = ''/m/a.gguf''"
    by (simp add: spec_of_def session_art_def stored_def sample_artifact_def)
  obtain key ks1 where k: "secret_file_create (se_keys sample_start) ?dir (ch_secret ?ch) sample_store
      = (Inr key, ks1)" using key_sample by blast
  obtain d where "?dir = CHR ''/'' # d"
    by (cases ?dir) (auto simp: secret_directory_def path_join_def sample_start_def split: if_splits)
  with k have "''--version'' \<notin> set (command_line (sample_llama_spec\<lparr>sp_model_path := ''/m/a.gguf''\<rparr>) ?ch key)"
    using key_not_version [of d "ch_secret ?ch" key ks1 "''m/a.gguf''"] by simp
  then have v: "''--version'' \<notin> set (command_line ?spec ?ch key)"
    by (simp add: command_line_def spec_of_def session_art_def stored_def sample_artifact_def sample_llama_spec_def)
  let ?e = "\<lparr>sn_is_file = (\<lambda>_. True), sn_read = (\<lambda>path. case map_of (ks_files ks1) path of
           Some f \<Rightarrow> Inr (kf_contents f) | None \<Rightarrow> Inl (io_of KOther ''no such file'')),
         sn_bind = (\<lambda>_ _. Inr ()), sn_debug = id\<rparr>"
  have b: "from_model (sn_debug ?e) (Some (sp_model_path ?spec)) = Inr Serve"
    by (simp add: path from_model_def file_stem_def file_name_def BEHAVIOUR_MARKER_def named_behaviour_def)
  obtain l said where l: "standin_main ?e (command_line ?spec ?ch key) = Listening l said"
    using stand_in_listens [OF sample_channel_ok k, of ?e ?spec Serve] b v by auto
  let ?se = "sample_start\<lparr>
    se_health := \<lambda>_. health_answer True (standin_peer (li_state l)) ?ch,
    se_props := props_answer True (standin_peer (li_state l)) ?ch\<rparr>"
  have res: "reserve_channel (Inr 4000) (Inr (replicate 32 7)) = Inr ?ch"
    using reserve_sample by (simp add: sample_start_def)
  have "starts_stand_in ?se ?e ?spec sample_store ?ch (li_state l)"
    unfolding starts_stand_in_def
    by (intro exI [of _ 4000] exI [of _ "replicate 32 7"] exI [of _ key] exI [of _ ks1] exI [of _ l]
        exI [of _ said] exI [of _ Serve])
      (use res k l b in \<open>simp add: sample_start_def stays_up_def obedient_def\<close>)
  with that show ?thesis by blast
qed

definition session_body :: "u8 list" where
  "session_body = bytes_of ''{\"prompt\":\"hello\"}''"

definition session_wire :: wire where
  "session_wire = standin_wire\<lparr>wi_encode := (\<lambda>fields. case fields of
       [(_, JTexts xs)] \<Rightarrow> Inr (bytes_of (input_body xs)) | _ \<Rightarrow> Inr session_body),
     wi_response := \<lambda>_. Inr \<lparr>wr_choices = [\<lparr>wc_text = STAND_IN_TEXT, wc_finish_reason = Some ''stop''\<rparr>],
       wr_usage = Some \<lparr>wu_prompt_tokens = 1, wu_completion_tokens = 6\<rparr>\<rparr>,
     wi_embeddings := \<lambda>_. Inr [\<lparr>we_index = 0, we_embedding = replicate 8 1\<rparr>]\<rparr>"

lemma session_wire_ok: "omits_flag session_wire" "reads_completion session_wire" "writes_inputs session_wire"
proof -
  have "valid_utf8 session_body" by (rule valid_utf8_ascii) (simp add: session_body_def bytes_of_def)
  then have "lossy session_body = ''{\"prompt\":\"hello\"}''" using lossy_valid by (simp add: session_body_def)
  then have "\<not> str_contains (lossy session_body) ''\"stream\":true''"
    "\<not> str_contains (lossy session_body) ''\"stream\": true''"
    by (simp_all add: str_contains_def sublist_code)
  then show "omits_flag session_wire" by (simp add: omits_flag_def session_wire_def wire_fields_def)
  show "reads_completion session_wire" by (simp add: reads_completion_def session_wire_def)
  show "writes_inputs session_wire" by (simp add: writes_inputs_def session_wire_def)
qed

definition answering :: "(http_request \<Rightarrow> u8 list) \<Rightarrow> http_request \<Rightarrow> peer" where
  "answering out q = \<lparr>pe_connect = Inr (), pe_handshake = Inr (), pe_build = (\<lambda>_. Inr ()),
     pe_send = (\<lambda>q. Inr (response_status (text_of (out q)))), pe_collect = Inr (answer_body (out q))\<rparr>"

lemma answering_carries: "carries_answer (answering out q) out q"
  by (simp add: carries_answer_def answering_def)

theorem session_with_stand_in_witness:
  "\<exists>lo p q rt1 rt2. runtime_load default_limits lo ''/x/llama'' sample_unload (\<lambda>s. s) (sample_database 7) (hex_encode [1, 2, 3])
       (WorkerId 1) default_deadlines sample_store \<lparr>rt_ledger = empty_ledger, rt_models = \<lambda>_. sample_model\<rparr>
       = (Inr ''05'', rt1)
     \<and> (\<exists>result. runtime_embed (\<lambda>k m. m) (map_err show_embed_error
           (embed_inputs session_wire True p sample_channel (embed_batch [''hello'']))) (embed_batch [''hello'']) ''05'' rt1
         = (Inr result, rt2) \<and> for_input 0 result = Some \<lparr>e_index = 0, e_vector = replicate 8 1\<rparr>)
     \<and> fst (runtime_generate_text (\<lambda>_. []) (\<lambda>k m. m)
         (map_err show_generate_error (generate session_wire True q sample_channel (continuation ''hello'')))
         (continuation ''hello'') ''05'' rt2) = Inr stand_in_result"
proof -
  let ?q = "continuation ''hello''" and ?rt = "\<lparr>rt_ledger = empty_ledger, rt_models = \<lambda>_. sample_model\<rparr>"
  let ?xs = "[''hello'']"
  from session_starts obtain se e st where
    start: "starts_stand_in se e (spec_of session_art default_deadlines) sample_store sample_channel st" by blast
  let ?lo = "\<lparr>lo_start = se, lo_fault = None, lo_random = Inr [5], lo_files = e_stat (sample_environment 7)\<rparr>"
  let ?pe = "answering (stand_in_out st) (embedding_post sample_channel (bytes_of (input_body ?xs)))"
  let ?pg = "answering (stand_in_out st) (completion_post sample_channel session_body)"
  obtain r1 rt1 where l: "runtime_load default_limits ?lo ''/x/llama'' sample_unload (\<lambda>s. s) (sample_database 7)
      (hex_encode [1, 2, 3]) (WorkerId 1) default_deadlines sample_store ?rt = (r1, rt1)" by fastforce
  obtain r2 rt2 where em: "runtime_embed (\<lambda>k m. m) (map_err show_embed_error
      (embed_inputs session_wire True ?pe sample_channel (embed_batch ?xs))) (embed_batch ?xs) ''05'' rt1 = (r2, rt2)"
    by fastforce
  obtain r3 rt3 where g: "runtime_generate_text (\<lambda>_. []) (\<lambda>k m. m) (map_err show_generate_error
      (generate session_wire True ?pg sample_channel ?q)) ?q ''05'' rt2 = (r3, rt3)" by fastforce
  obtain r4 rt4 where u: "runtime_unload sample_unload (\<lambda>s. s) ''05'' rt3 = (r4, rt4)" by fastforce
  have i: "instance_id_generate (lo_random ?lo) = Inr ''05''"
    by (simp add: instance_id_generate_def generate_hex_def hex_encode_def hex_byte_def hex_digit_def)
  have a: "admits default_limits (committed (rt_ledger ?rt)) (from_container_size (a_size session_art)) = Inr ()"
    by (simp add: admits_def default_limits_def DEFAULT_RESIDENT_CAPACITY_def committed_def empty_ledger_def usize_add_def)
  have c: "checked_parameters (\<lambda>_. []) ?q = Inr ()"
    by (simp add: checked_parameters_def validate_parameters_def validate_temperature_def continuation_def
        default_parameters_def)
  have k: "killable (ue_os sample_unload)" by (simp add: killable_def sample_unload_def obedient_def)
  have w: "wi_encode session_wire (wire_fields (wire_of False ?q)) = Inr session_body"
    and len: "length session_body \<le> MAX_BODY_BYTES"
    by (simp_all add: session_wire_def session_body_def MAX_BODY_BYTES_def wire_fields_def)
  have plain: "?xs \<noteq> []" "list_all plain_text ?xs" "length (input_body ?xs) \<le> MAX_BODY_BYTES"
    by (simp_all add: plain_text_def input_body_def INPUT_OPEN_def quoted_def MAX_BODY_BYTES_def)
  have reads: "reads_embeddings session_wire (\<lambda>i. replicate 8 1) (length ?xs)"
    by (simp add: session_wire_def reads_embeddings_def EMBEDDING_WIDTH_def f32_is_finite_def list_all_iff)
  have start': "starts_stand_in (lo_start ?lo) e (spec_of session_art default_deadlines) sample_store sample_channel st"
    using start by simp
  have drift: "detect_drift (lo_files ?lo) session_art = Unchanged" using session_unchanged by simp
  have "r1 = Inr ''05'' \<and> r3 = Inr stand_in_result
    \<and> (\<exists>result. r2 = Inr result \<and> for_input 0 result = Some \<lparr>e_index = 0, e_vector = replicate 8 1\<rparr>)"
    using session_with_stand_in [OF session_artifact drift session_startable start' _ i a _ _ plain session_wire_ok(3) reads answering_carries
        c w len session_wire_ok(1,2) answering_carries k l em g u]
    by (auto simp: empty_ledger_def is_resident_def)
  with l em g show ?thesis by (metis fst_conv)
qed

text \<open>
  An embedding reaches the engine and comes back. Each text of a batch, of printable characters without
  quotes, backslashes and closing brackets, is answered by the one vector the stand-in sends under its
  index; the result passes validation, and \<open>verify_embeddings\<close> records the capability as demonstrated,
  as it would for any other engine: nothing tells the stand-in apart.
\<close>

theorem embedding_round_trip:
  assumes "reserved ch" and "st_credential st = expose (ch_secret ch)" and "xs \<noteq> []"
    and "list_all plain_text xs" and "length (input_body xs) \<le> MAX_BODY_BYTES"
    and "writes_inputs w" and "reads_embeddings w vec (length xs)"
    and "carries_answer p (stand_in_out st) (embedding_post ch (bytes_of (input_body xs)))"
    and "lm_phase m = Serving" and "instance_is_usable (mi_state (lm_instance m))"
    and "bt_inv (mi_capabilities (lm_instance m))"
    and "verify_embeddings now (\<lambda>k m. m)
      (map_err show_embed_error (embed_inputs w True p ch (embed_batch xs))) (embed_batch xs) m = (r, m')"
  shows "\<exists>result. r = Inr result
    \<and> (\<forall>i<length xs. for_input i result = Some \<lparr>e_index = i, e_vector = vec i\<rparr>)
    \<and> (\<forall>i\<ge>length xs. for_input i result = None)
    \<and> capability_is_verified (mi_capabilities (lm_instance m')) Embeddings"
proof -
  let ?r = "stand_in_embeddings vec (length xs)"
  have "embed_inputs w True p ch (embed_batch xs) = Inr ?r" by (rule embedded_by_stand_in [OF assms(1,2,4-8)])
  moreover have "validate (embed_batch xs) ?r = Inr ()"
    using stand_in_embeddings_valid assms(3,7) by (simp add: reads_embeddings_def)
  ultimately have "r = Inr ?r" "capability_is_verified (mi_capabilities (lm_instance m')) Embeddings"
    using verified_embeddings [OF assms(9-11), of "embed_batch xs" ?r now] assms(12) by auto
  with stand_in_vectors [of "length xs" vec] show ?thesis by blast
qed

theorem embedding_round_trip_witness:
  "\<exists>w p m' result. verify_embeddings 9 (\<lambda>k m. m)
       (map_err show_embed_error (embed_inputs w True p sample_channel (embed_batch [''hello'', ''world''])))
       (embed_batch [''hello'', ''world'']) sample_model = (Inr result, m')
     \<and> for_input 1 result = Some \<lparr>e_index = 1, e_vector = replicate 8 1\<rparr>"
proof -
  let ?xs = "[''hello'', ''world'']" 
  let ?st = "standin_initial sample_channel Serve"
  let ?w = "sample_wire\<lparr>wi_encode := \<lambda>fields. case fields of
       [(_, JTexts xs)] \<Rightarrow> Inr (bytes_of (input_body xs)) | _ \<Rightarrow> Inl ''unexpected'',
     wi_embeddings := \<lambda>_. Inr (map (\<lambda>i. \<lparr>we_index = i, we_embedding = replicate 8 1\<rparr>) [0..<2])\<rparr>"
  let ?p = "answering (stand_in_out ?st) (embedding_post sample_channel (bytes_of (input_body ?xs)))"
  obtain r m' where v: "verify_embeddings 9 (\<lambda>k m. m)
       (map_err show_embed_error (embed_inputs ?w True ?p sample_channel (embed_batch ?xs)))
       (embed_batch ?xs) sample_model = (r, m')" by fastforce
  have plain: "list_all plain_text ?xs" by (simp add: plain_text_def)
  have len: "length (input_body ?xs) \<le> MAX_BODY_BYTES"
    by (simp add: input_body_def INPUT_OPEN_def quoted_def MAX_BODY_BYTES_def)
  have reads: "reads_embeddings ?w (\<lambda>i. replicate 8 1) (length ?xs)"
    by (simp add: reads_embeddings_def EMBEDDING_WIDTH_def f32_is_finite_def list_all_iff upt_conv_Cons numeral_2_eq_2)
  have m: "lm_phase sample_model = Serving" "instance_is_usable (mi_state (lm_instance sample_model))"
    "bt_inv (mi_capabilities (lm_instance sample_model))"
    using bt.inv_empty by (simp_all add: sample_model_def new_instance_def)
  have "st_credential ?st = expose (ch_secret sample_channel)" by (simp add: standin_initial_def)
  from embedding_round_trip [OF sample_channel_ok this _ plain len _ reads answering_carries m v]
  obtain result where "r = Inr result" "\<forall>i<2. for_input i result = Some \<lparr>e_index = i, e_vector = replicate 8 1\<rparr>"
    by (auto simp: writes_inputs_def numeral_2_eq_2)
  with v show ?thesis by fastforce
qed

end
