(* ===== verification/Causes.thy ===== *)
theory Causes
  imports Ledger Service
begin

text \<open>
  The chain of causes of an error: \<open>std::error::Error::source\<close> and the \<open>From\<close> conversions of every
  crate (\<open>gguf.rs\<close>, \<open>store.rs\<close>, \<open>worker/mod.rs\<close>, \<open>transport/mod.rs\<close>, the backend's \<open>lib.rs\<close>, \<open>loader.rs\<close>,
  \<open>runtime.rs\<close>, the client's \<open>lib.rs\<close>). The command lines and the daemon print the error they have and
  not its chain.
\<close>

section \<open>Sources\<close>

text \<open>Any error of the program; \<open>Foreign\<close> is one of a library, by its message.\<close>

datatype any_error =
  AnyRuntime runtime_error | AnyLoad load_error | AnyCancel cancel_error | AnyBackend backend_error
| AnyWorker worker_error | AnyRegistry registry_error | AnyGguf gguf_error | AnyEndpoint endpoint_error
| AnyClient client_error | Foreign string

fun gguf_source :: "gguf_error \<Rightarrow> any_error option" where
  "gguf_source (GgufIo err) = Some (Foreign err)"
| "gguf_source _ = None"

fun registry_source :: "registry_error \<Rightarrow> any_error option" where
  "registry_source (NotAnArtifact _ source) = Some (AnyGguf source)"
| "registry_source (Storage err) = Some (Foreign err)"
| "registry_source (RegIo err) = Some (Foreign err)"
| "registry_source _ = None"

fun worker_source :: "worker_error \<Rightarrow> any_error option" where
  "worker_source (SpawnError _ source) = Some (Foreign source)"
| "worker_source (IoError source) = Some (Foreign source)"
| "worker_source _ = None"

fun endpoint_source :: "endpoint_error \<Rightarrow> any_error option" where
  "endpoint_source (EndpointIo err) = Some (Foreign (io_message err))"
| "endpoint_source _ = None"

fun backend_source :: "backend_error \<Rightarrow> any_error option" where
  "backend_source (ChannelError err) = Some (Foreign (io_message err))"
| "backend_source (WorkerFailure source _ _) = Some (AnyWorker source)"
| "backend_source _ = None"

fun load_source :: "load_error \<Rightarrow> any_error option" where
  "load_source (LBackend err) = Some (AnyBackend err)"
| "load_source (LRegistry err) = Some (AnyRegistry err)"
| "load_source _ = None"

fun runtime_source :: "runtime_error \<Rightarrow> any_error option" where
  "runtime_source (RInstance err) = Some (AnyLoad err)"
| "runtime_source (RCancel err) = Some (AnyCancel err)"
| "runtime_source _ = None"

fun client_source :: "client_error \<Rightarrow> any_error option" where
  "client_source (ClientTransport err) = Some (AnyEndpoint err)"
| "client_source _ = None"

fun source_of :: "any_error \<Rightarrow> any_error option" where
  "source_of (AnyRuntime e) = runtime_source e"
| "source_of (AnyLoad e) = load_source e"
| "source_of (AnyBackend e) = backend_source e"
| "source_of (AnyWorker e) = worker_source e"
| "source_of (AnyRegistry e) = registry_source e"
| "source_of (AnyGguf e) = gguf_source e"
| "source_of (AnyEndpoint e) = endpoint_source e"
| "source_of (AnyClient e) = client_source e"
| "source_of (AnyCancel _) = None"
| "source_of (Foreign _) = None"

fun depth :: "any_error \<Rightarrow> nat" where
  "depth (AnyRuntime _) = 4"
| "depth (AnyLoad _) = 3"
| "depth (AnyBackend _) = 2"
| "depth (AnyRegistry _) = 2"
| "depth (AnyClient _) = 2"
| "depth (AnyWorker _) = 1"
| "depth (AnyGguf _) = 1"
| "depth (AnyEndpoint _) = 1"
| "depth (AnyCancel _) = 0"
| "depth (Foreign _) = 0"

lemma source_depth: "source_of e = Some e' \<Longrightarrow> depth e' < depth e"
proof (cases e)
  case (AnyRuntime r)
  then show "source_of e = Some e' \<Longrightarrow> depth e' < depth e" by (cases r) auto
next
  case (AnyLoad r)
  then show "source_of e = Some e' \<Longrightarrow> depth e' < depth e" by (cases r) auto
next
  case (AnyBackend r)
  then show "source_of e = Some e' \<Longrightarrow> depth e' < depth e" by (cases r) auto
next
  case (AnyWorker r)
  then show "source_of e = Some e' \<Longrightarrow> depth e' < depth e" by (cases r) auto
next
  case (AnyRegistry r)
  then show "source_of e = Some e' \<Longrightarrow> depth e' < depth e" by (cases r) auto
next
  case (AnyGguf r)
  then show "source_of e = Some e' \<Longrightarrow> depth e' < depth e" by (cases r) auto
next
  case (AnyEndpoint r)
  then show "source_of e = Some e' \<Longrightarrow> depth e' < depth e" by (cases r) auto
next
  case (AnyClient r)
  then show "source_of e = Some e' \<Longrightarrow> depth e' < depth e" by (cases r) auto
qed auto

text \<open>The error and everything behind it.\<close>

function chain :: "any_error \<Rightarrow> any_error list" where
  "chain e = e # (case source_of e of None \<Rightarrow> [] | Some e' \<Rightarrow> chain e')"
  by pat_completeness auto
termination
  by (relation "measure depth") (auto dest: source_depth)

declare chain.simps [simp del]

section \<open>Conversions\<close>

definition gguf_from_io :: "string \<Rightarrow> gguf_error" where
  "gguf_from_io err = GgufIo err"

definition registry_from_storage :: "string \<Rightarrow> registry_error" where
  "registry_from_storage err = Storage err"

definition registry_from_io :: "string \<Rightarrow> registry_error" where
  "registry_from_io err = RegIo err"

definition worker_from_state :: "worker_state_error \<Rightarrow> worker_error" where
  "worker_from_state err = InvalidState err"

definition worker_from_io :: "string \<Rightarrow> worker_error" where
  "worker_from_io err = IoError err"

definition endpoint_from_io :: "io_error \<Rightarrow> endpoint_error" where
  "endpoint_from_io err = EndpointIo err"

definition client_from_endpoint :: "endpoint_error \<Rightarrow> client_error" where
  "client_from_endpoint err = ClientTransport err"

definition load_from_registry :: "registry_error \<Rightarrow> load_error" where
  "load_from_registry err = LRegistry err"

definition runtime_from_load :: "load_error \<Rightarrow> runtime_error" where
  "runtime_from_load err = RInstance err"

definition runtime_from_cancel :: "cancel_error \<Rightarrow> runtime_error" where
  "runtime_from_cancel err = RCancel err"

section \<open>What is printed\<close>

record rendering =
  rd_secs :: "duration \<Rightarrow> string"
  rd_debug :: "string \<Rightarrow> string"
  rd_status :: "u16 \<Rightarrow> string"

fun show_any :: "rendering \<Rightarrow> any_error \<Rightarrow> string" where
  "show_any rd (AnyRuntime e) = show_runtime_error (rd_secs rd) (rd_debug rd) e"
| "show_any rd (AnyLoad e) = show_load_error (rd_secs rd) (rd_debug rd) e"
| "show_any rd (AnyCancel e) = show_cancel_error e"
| "show_any rd (AnyBackend e) = show_backend_error (rd_secs rd) e"
| "show_any rd (AnyWorker e) = show_worker_error (rd_secs rd) e"
| "show_any rd (AnyRegistry e) = show_registry_error (rd_debug rd) e"
| "show_any rd (AnyGguf e) = show_gguf_error (rd_debug rd) e"
| "show_any rd (AnyEndpoint e) = show_endpoint_error e"
| "show_any rd (AnyClient e) = show_client_error (rd_status rd) e"
| "show_any rd (Foreign m) = m"

section \<open>Properties\<close>

lemma later_sublist [simp]:
  "sublist xs ys \<Longrightarrow> sublist xs (c # ys)"
  "sublist xs ys \<Longrightarrow> sublist xs (zs @ ys)"
  by (simp add: sublist_Cons_right, metis sublist_append_leftI sublist_order.order_trans)

lemma says_source: "source_of e = Some e' \<Longrightarrow> sublist (show_any rd e') (show_any rd e)"
proof (cases e)
  case (AnyRuntime r)
  then show "source_of e = Some e' \<Longrightarrow> sublist (show_any rd e') (show_any rd e)"
    by (cases r) (auto simp: show_runtime_error_def)
next
  case (AnyLoad r)
  then show "source_of e = Some e' \<Longrightarrow> sublist (show_any rd e') (show_any rd e)" by (cases r) auto
next
  case (AnyBackend r)
  then show "source_of e = Some e' \<Longrightarrow> sublist (show_any rd e') (show_any rd e)"
    by (cases r) (auto simp: show_backend_error_def, (rule later_sublist)+, simp)
next
  case (AnyWorker r)
  then show "source_of e = Some e' \<Longrightarrow> sublist (show_any rd e') (show_any rd e)"
    by (cases r) auto
next
  case (AnyRegistry r)
  then show "source_of e = Some e' \<Longrightarrow> sublist (show_any rd e') (show_any rd e)"
    by (cases r) auto
next
  case (AnyGguf r)
  then show "source_of e = Some e' \<Longrightarrow> sublist (show_any rd e') (show_any rd e)"
    by (cases r) (auto simp: show_gguf_error_def)
next
  case (AnyEndpoint r)
  then show "source_of e = Some e' \<Longrightarrow> sublist (show_any rd e') (show_any rd e)"
    by (cases r) auto
next
  case (AnyClient r)
  then show "source_of e = Some e' \<Longrightarrow> sublist (show_any rd e') (show_any rd e)" by (cases r) auto
qed auto

text \<open>
  Nothing is lost by printing an error without its chain. The message of an error contains the message
  of every error behind it, so the root cause is always told; and a chain has at most five links.
\<close>

theorem message_tells_causes:
  assumes "cause \<in> set (chain e)"
  shows "sublist (show_any rd cause) (show_any rd e) \<and> length (chain e) \<le> 5"
proof -
  have len: "length (chain e) \<le> Suc (depth e)" for e
    by (induction e rule: chain.induct) (subst chain.simps, fastforce split: option.splits dest: source_depth)
  have "depth e \<le> 4" by (cases e) auto
  with len [of e] have "length (chain e) \<le> 5" by simp
  moreover have "sublist (show_any rd cause) (show_any rd e)"
    using assms
  proof (induction e rule: chain.induct)
    case (1 e)
    from "1.prems" consider "cause = e" | e' where "source_of e = Some e'" "cause \<in> set (chain e')"
      using chain.simps [of e] by (auto split: option.splits)
    then show ?case
    proof cases
      case 2
      with "1.IH" says_source [of e e' rd] sublist_order.order_trans show ?thesis by blast
    qed simp
  qed
  ultimately show ?thesis by simp
qed

theorem message_tells_causes_witness:
  "let e = AnyRuntime (runtime_from_load (LBackend (WorkerFailure (worker_from_io ''no such process'') None [])))
   in length (chain e) = 5 \<and> (\<forall>rd. sublist ''no such process'' (show_any rd e))"
proof -
  let ?e = "AnyRuntime (runtime_from_load (LBackend (WorkerFailure (worker_from_io ''no such process'') None [])))"
  have c: "chain ?e = [?e, AnyLoad (LBackend (WorkerFailure (IoError ''no such process'') None [])),
      AnyBackend (WorkerFailure (IoError ''no such process'') None []), AnyWorker (IoError ''no such process''),
      Foreign ''no such process'']"
    by (simp add: runtime_from_load_def worker_from_io_def chain.simps)
  then have "Foreign ''no such process'' \<in> set (chain ?e)" by simp
  from message_tells_causes [OF this] c show ?thesis by (simp add: Let_def)
qed

text \<open>A converted error keeps the original as its source, except a refused transition of a worker, which
  is told but is not a source.\<close>

lemma conversions_keep_source:
  "source_of (AnyGguf (gguf_from_io m)) = Some (Foreign m)"
  "source_of (AnyRegistry (registry_from_storage m)) = Some (Foreign m)"
  "source_of (AnyRegistry (registry_from_io m)) = Some (Foreign m)"
  "source_of (AnyWorker (worker_from_io m)) = Some (Foreign m)"
  "source_of (AnyEndpoint (endpoint_from_io io)) = Some (Foreign (io_message io))"
  "source_of (AnyClient (client_from_endpoint ep)) = Some (AnyEndpoint ep)"
  "source_of (AnyLoad (load_from_registry reg)) = Some (AnyRegistry reg)"
  "source_of (AnyRuntime (runtime_from_load ld)) = Some (AnyLoad ld)"
  "source_of (AnyRuntime (runtime_from_cancel cn)) = Some (AnyCancel cn)"
  "source_of (AnyWorker (worker_from_state st)) = None"
  by (simp_all add: gguf_from_io_def registry_from_storage_def registry_from_io_def worker_from_io_def
      endpoint_from_io_def client_from_endpoint_def load_from_registry_def runtime_from_load_def
      runtime_from_cancel_def worker_from_state_def)

end
