(* ===== verification/Spec2Isabelle.thy ===== *)
theory Spec2Isabelle
  imports Gguf Artifact Store Ids Cancel Inference Stream Sse Worker Process Endpoint Pipe Backend
    Capability Lifecycle Ledger Generate Service Text Output Lifetime Wide Probe Waiting Dummy StandIn Joined Owners
    Serving Session Causes
begin

text \<open>
  \<^bold>\<open>A verification library of the Mehoy Malloy AI runtime.\<close>

  The program (Rust, \<open>src/crates\<close>) is a local runtime for language models. It registers GGUF files
  in a database, starts an inference server (llama.cpp) for one as a supervised process, talks to it
  over a private loopback channel, and lets callers embed text, generate text (whole or as a
  stream), cancel, and unload, within limits on what may be resident at once. A daemon offers the
  runtime on a local endpoint.

  \<^bold>\<open>Theories and the code they model\<close>

  \<^item> \<open>Prelude\<close>: results (\<open>Inl\<close> is \<open>Err\<close>, \<open>Inr\<close> is \<open>Ok\<close>, \<open>rbind\<close> is the question mark operator),
    checked and saturating 64-bit arithmetic, UTF-8, trimming, decimal and hexadecimal printing.
  \<^item> \<open>Text\<close>: the rest of what the programs use of \<open>str\<close> and \<open>Path\<close>: lossy decoding, splitting, numbers,
    file names and addresses.
  \<^item> \<open>BTree\<close>: the library maps. \<open>key_map\<close> is the interface of a finite map; it is interpreted on the
    sorted association lists that stand for \<open>BTreeMap\<close> and on the unsorted ones for \<open>HashMap\<close>.
  \<^item> \<open>Gguf\<close> (\<open>mehoy-registry/src/gguf.rs\<close>): the container parser, as a reader over the bytes of a
    source that may end or fail. Every read is shown to obey \<open>law\<close> (it consumes a prefix, depends
    on nothing behind it, and is \<open>Truncated\<close> on less), from which the bounds and the round trip with
    the format's encoder follow.
  \<^item> \<open>Artifact\<close>, \<open>Store\<close> (\<open>artifact.rs\<close>, \<open>store.rs\<close>): artifacts, drift detection, and the registry
    as the rows of its two tables. \<open>registry\<close> is the set of databases the operations can reach.
  \<^item> \<open>Ids\<close>, \<open>Cancel\<close> (\<open>mehoy-core/src/id.rs\<close>, \<open>cancel.rs\<close>): the identifier counter; tokens and request
    handles. The locale \<open>write_once\<close> is the contract of a cell that is claimed at most once; it is
    interpreted on the cause of a token and on the outcome of a request.
  \<^item> \<open>Inference\<close>, \<open>Stream\<close> (\<open>inference.rs\<close>): requests, results and their validation; the streaming
    protocol, whose interleavings are the step relation \<open>gen_step\<close> over one shared record (producer,
    bounded channel, consumer, request handle) with a ghost trace of what was received.
  \<^item> \<open>Sse\<close> (\<open>mehoy-backend-llama/src/sse.rs\<close>): the decoder of server-sent events.
  \<^item> \<open>Worker\<close>, \<open>Process\<close> (\<open>mehoy-core/src/worker\<close>, \<open>event.rs\<close>): worker states, errors, log capture; the
    supervisor. The operating system is the record \<open>os\<close>: which look at the process finds it exited,
    which signal or wait is refused.
  \<^item> \<open>Output\<close> (\<open>process.rs\<close>, \<open>log.rs\<close>): the tasks that read a worker's two pipes, the shared log they
    fill and the live feed a start watches. \<open>capture_step\<close> interleaves the writing worker with both
    readers; ghosts keep what was written and what was recorded.
  \<^item> \<open>Lifetime\<close> (\<open>process.rs\<close>, \<open>loader.rs\<close>): what ties a worker to the life of the daemon, the Windows
    job object and the Linux parent-death signal, as two step relations that interpret the locale
    \<open>lifetime_control\<close>; the injected faults.
  \<^item> \<open>Endpoint\<close> (\<open>transport/mod.rs\<close>, \<open>trace.rs\<close>, \<open>unix.rs\<close>): addresses, the private directory, the
    socket. \<open>place\<close> is the directory and what occupies the path; \<open>meddling\<close> is what others do to it
    between two system calls.
  \<^item> \<open>Backend\<close> (\<open>mehoy-backend-llama/src\<close>: \<open>identity.rs\<close>, \<open>compatibility.rs\<close>, \<open>channel.rs\<close>, \<open>health.rs\<close>,
    \<open>lib.rs\<close>): choosing, starting and stopping a llama.cpp server.
  \<^item> \<open>Generate\<close> (\<open>generate.rs\<close>, \<open>embed.rs\<close>): requests over the channel, and the streaming task. JSON is
    the record \<open>wire\<close> and the peer is \<open>peer\<close> or \<open>stream_peer\<close>: what each await yields. A \<open>waited\<close>
    value says what others did while the task waited and whether its idle budget ran out.
  \<^item> \<open>Capability\<close> (\<open>mehoy-runtime/src/capability.rs\<close>, \<open>instance.rs\<close>): what a model may be able to do and
    what it was seen to do.
  \<^item> \<open>Lifecycle\<close> (\<open>loader.rs\<close>): a loaded model from load to unload. Everything others may do at an
    await is a function, which \<open>others\<close> restricts to what the interface allows.
  \<^item> \<open>Ledger\<close> (\<open>resources.rs\<close>, \<open>runtime.rs\<close>): limits, reservations, residents, and the runtime's own
    operations over the models.
  \<^item> \<open>Pipe\<close> (\<open>transport/windows.rs\<close>): the named-pipe endpoint over the kernel's answers: the bind
    loop with its budget, accept with the replacement instance, and connect. \<open>Wide\<close> has the calls
    behind it: wide strings, the user's identity, the descriptor and the creation of an instance,
    each with the list of the resource calls it made.
  \<^item> \<open>Waiting\<close> (\<open>cancel.rs\<close>, \<open>trace.rs\<close>, the daemon's \<open>main.rs\<close>): a task that waits for a cancellation, the
    observer of endpoint events, the wait for a signal.
  \<^item> \<open>Probe\<close> (\<open>health.rs\<close>, \<open>status_of\<close>): the request behind the health and credential probes.
  \<^item> \<open>Service\<close> (\<open>mehoy-protocol\<close>, \<open>mehoy-daemon\<close>, \<open>mehoy-cli\<close>): the protocol, the daemon's routes and
    accept loop, and both command lines with their exit codes. What the HTTP library makes of a raw
    string (an address, its path, or a refusal) is the record \<open>uri_library\<close>.
  \<^item> \<open>StandIn\<close> (\<open>mehoy-runtime/examples/stand_in_backend.rs\<close>), \<open>Dummy\<close>
    (\<open>mehoy-core/examples/dummy_worker.rs\<close>): the two programs that stand at the other end of the
    channel and of the pipes. Their theorems join both ends: what the one writes the other reads.
    \<open>Joined\<close> follows a start and a generation from the runtime to the stand-in and back.
  \<^item> \<open>Owners\<close> (\<open>mehoy-core/examples/orphan_parent.rs\<close>,
    \<open>mehoy-backend-llama/examples/llama_orphan_parent.rs\<close>): the programs that hold one worker until they are killed.
  \<^item> \<open>Serving\<close> (\<open>loader.rs\<close> over \<open>inference.rs\<close>): a model with the streams it opened, which share its
    request handles. \<open>serve_step\<close> interleaves the steps of every stream with everything that happens to the
    model; for one stream each of them is a step of \<open>gen_step\<close>.
  \<^item> \<open>Session\<close>: a load, an embedding, a generation and an unload of \<open>runtime.rs\<close> with the stand-in as the
    engine, from the registry's row to the bytes on the channel and back, with no capability verified; and,
    apart from it, what \<open>verify_embeddings\<close> would record of the stand-in if it were asked.
  \<^item> \<open>Causes\<close>: the chain of causes of every error type, the conversions between them, and their messages.

  \<^bold>\<open>How they are composed\<close>

  \<open>Ledger\<close> calls \<open>Lifecycle\<close>, which calls \<open>Store\<close>, \<open>Backend\<close>, \<open>Cancel\<close>, \<open>Inference\<close> and
  \<open>Capability\<close>; \<open>Backend\<close> calls \<open>Process\<close> and \<open>Endpoint\<close>'s directory check; \<open>Generate\<close> calls \<open>Sse\<close>,
  \<open>Stream\<close> and \<open>Backend\<close>'s channel; \<open>Service\<close> binds and
  connects through \<open>Endpoint\<close>; \<open>StandIn\<close> is started with the command line of \<open>Backend\<close> and answers the
  requests of \<open>Probe\<close> and \<open>Generate\<close>; \<open>Dummy\<close> writes what \<open>Output\<close> reads. The calls are those of the code. A lock is a step that
  nothing interleaves with; an await is a point where a function of the surroundings is applied.

  \<^bold>\<open>What is shown\<close>

  Limits hold in every reachable ledger, and what a load or an unload claims and gives back is exact;
  admission closes once and for all and an unload reports the truth; a request has one outcome and
  one cause; a stream is ordered, ends once, and its terminal event is the truth about the request;
  what the decoder hands on does not depend on how bytes are cut as long as they decode (at an error
  the cut decides which of the events in front of the broken line had been handed on); the parser inverts the format, is bounded and
  only yields well-formed headers; the registry keeps its keys; a worker follows its state machine
  and is not called stopped while it runs; binding and secrets stay private. The streaming task keeps
  the protocol \<open>gen_step\<close> whatever its peer and its surroundings do, delivers the text of the events
  it was sent up to the marker, the first undecodable event, the close or the break, and returns; the daemon goes on serving after any failure a client causes; a bound
  pipe is never without a listening instance; client and daemon agree on what is asked and answered.
  A failed load leaves nothing behind, except a key file whose write failed and a worker the system
  refuses to kill; a start that fails drops its worker's handle, which kills the child (\<open>worker_drop\<close>).
  Whatever a worker prints is recorded once, in order and under its stream; a worker dies with its
  daemon, with the exceptions the theorems name; a pipe admits its user only and its creation leaks
  nothing; a waiting task misses no cancellation; the stand-in, started by the runtime's own command
  line, passes its probes, and its streamed text arrives whole. A whole session leaves the ledger as it
  was; an unload reaches every open stream; the message of an error tells every cause behind it.
  What runs of steps keep is proved once, in the locales \<open>directed\<close> and \<open>preserved\<close> of \<open>Prelude\<close>,
  which the registry, the ledger and the models' lives interpret.

  Some theorems state
  behaviour the documentation of the code does not: a killed worker whose state stays \<open>Stopping\<close>, a
  file from before 1970 that is always reported changed, a socket taken from a live daemon, a request
  dropped by its caller that keeps an unload waiting, a request that is stopped after its last look at
  the token and still succeeds, a full stream that defers a cancellation, a line
  that is not UTF-8 and ends the capture, an announcement lost behind too much output, a daemon
  that is process 1 and starts nothing, and workers that escape where another process adopts orphans.

  \<^bold>\<open>Bounds\<close>

  No definition needs fuel except the loops that poll: the readiness loop, the drain loop and the
  streaming body recurse on the list of answers the surroundings give, so that an
  infinite wait is a longer list; \<open>None\<close> stands for an operation that is still waiting.

  \<^bold>\<open>Not modelled\<close>

  The libraries (serde, hyper, tokio, rusqlite, sha2, getrandom, windows-sys) and the kernels, which are
  parameters or named rules of the steps;
  the norm of an embedding, which is floating-point arithmetic; and the tests.
\<close>

end
